(* ===== verification/GoPrelude.thy ===== *)
theory GoPrelude imports Main "HOL-Library.AList" "HOL-Library.Char_ord" "HOL-Library.List_Lexorder" "HOL-Library.Sublist" "HOL-Library.Multiset" begin

text \<open>
  What every component of the relay uses of Go and of its standard library: byte strings, maps,
  errors with wrapped sentinels, the early-return idiom, decimal printing, the few functions of
  package \<open>strings\<close> the code calls, and sorting of strings.

  A Go string is a sequence of bytes and HOL's \<open>char\<close> is a byte, so \<open>string\<close> is the model of
  Go's \<open>string\<close>, \<open>len\<close> is \<open>length\<close>, and the order on strings (bytewise, lexicographic) is the one
  of \<open>List_Lexorder\<close> over \<open>Char_ord\<close>.  A Go map is the list of its entries in the order a
  \<open>range\<close> loop happens to visit them; Go leaves that order open, so a result that must not
  depend on it is proved equal for every permutation of the list.
\<close>

section \<open>Proof collections\<close>

named_theorems err_simps \<open>evaluation of first-error chains\<close>
named_theorems map_simps \<open>lookups in Go maps\<close>

section \<open>Maps\<close>

type_synonym gomap = "(string \<times> string) list"

definition wf_map :: "gomap \<Rightarrow> bool" where
  "wf_map m \<longleftrightarrow> distinct (map fst m)"

text \<open>The index expression \<open>m[k]\<close>: the zero value (an empty string) for an absent key.\<close>

definition mget :: "gomap \<Rightarrow> string \<Rightarrow> string" where
  "mget m k = (case map_of m k of None \<Rightarrow> [] | Some v \<Rightarrow> v)"

lemma mget_Nil [simp, map_simps]: "mget [] k = []"
  by (simp add: mget_def)

lemma mget_Cons [simp, map_simps]: "mget ((k, v) # m) k' = (if k = k' then v else mget m k')"
  by (simp add: mget_def)

lemma mget_in_set: "mget m k \<noteq> [] \<Longrightarrow> (k, mget m k) \<in> set m"
  by (auto simp: mget_def split: option.splits dest: map_of_SomeD)

lemma mget_of_entry: "wf_map m \<Longrightarrow> (k, v) \<in> set m \<Longrightarrow> mget m k = v"
  by (simp add: mget_def wf_map_def)

lemma wf_map_perm: "mset m = mset m' \<Longrightarrow> wf_map m \<longleftrightarrow> wf_map m'"
  unfolding wf_map_def by (metis mset_eq_imp_distinct_iff mset_map)

lemma map_of_perm:
  assumes "wf_map m" and "mset m = mset m'"
  shows "map_of m = map_of m'"
proof -
  from assms have "wf_map m'" using wf_map_perm by blast
  moreover from assms(2) have "set m = set m'" by (rule mset_eq_setD)
  ultimately show ?thesis
    using assms(1) by (simp add: wf_map_def map_of_inject_set)
qed

lemma mget_perm: "wf_map m \<Longrightarrow> mset m = mset m' \<Longrightarrow> mget m = mget m'"
  by (rule ext) (simp add: mget_def map_of_perm)

text \<open>Partial maps are equal when they send the same keys to the same values.\<close>

lemma map_ext_Some: "(\<And>k v. m k = Some v \<longleftrightarrow> m' k = Some v) \<Longrightarrow> m = m'"
  by (rule ext) (metis option.exhaust)

section \<open>Errors\<close>

text \<open>
  The sentinel errors of the program (\<open>errors.New\<close> at package level) and the ways an error is
  built from them.  \<open>Errorf ps e\<close> is \<open>fmt.Errorf("...: %w", ..., e)\<close> with the parts \<open>ps\<close> before
  the colon; \<open>Opaque ps\<close> is an error that wraps nothing of the program's own (a bare
  \<open>errors.New\<close>, or \<open>fmt.Errorf\<close> without \<open>%w\<close>); \<open>Foreign s\<close> is an error that a library
  returned, with the text \<open>s\<close>.
\<close>

datatype sentinel =
    ErrInvalidPayload | ErrPayloadTooLarge | ErrNotFound
  | ErrQueueFull | ErrQueueClosed | ErrInvalidConfig | ErrCanceled | ErrDeadlineExceeded

datatype fmtpart = Lit string | Str string | Quo string | Num int

datatype goerr = Sentinel sentinel | Errorf "fmtpart list" goerr | Opaque "fmtpart list" | Foreign string

text \<open>\<open>errors.Is(err, sentinel)\<close>: some error of the wrap chain is the sentinel.\<close>

fun errors_is :: "goerr \<Rightarrow> sentinel \<Rightarrow> bool" where
  "errors_is (Sentinel s) t \<longleftrightarrow> s = t"
| "errors_is (Errorf _ e) t \<longleftrightarrow> errors_is e t"
| "errors_is (Opaque _) _ \<longleftrightarrow> False"
| "errors_is (Foreign _) _ \<longleftrightarrow> False"

lemma errors_is_unique: "errors_is e s \<Longrightarrow> errors_is e t \<Longrightarrow> s = t"
  by (induction e) auto

section \<open>Early returns\<close>

text \<open>
  \<open>if c { return err }\<close> and \<open>if err := f(); err != nil { return err }\<close>, one after the other:
  a chain of checks of which the first that fails gives the result.
\<close>

definition guard :: "bool \<Rightarrow> 'e \<Rightarrow> 'e option" where
  "guard c e = (if c then Some e else None)"

fun first_error :: "'e option list \<Rightarrow> 'e option" where
  "first_error [] = None"
| "first_error (None # cs) = first_error cs"
| "first_error (Some e # cs) = Some e"

lemma guard_None [simp, err_simps]: "guard c e = None \<longleftrightarrow> \<not> c"
  by (simp add: guard_def)

lemma guard_Some [simp, err_simps]: "guard c e = Some e' \<longleftrightarrow> c \<and> e = e'"
  by (auto simp: guard_def)

lemma guard_True [simp, err_simps]: "guard True e = Some e"
  by (simp add: guard_def)

lemma guard_False [simp, err_simps]: "guard False e = None"
  by (simp add: guard_def)

lemma first_error_Cons [err_simps]:
  "first_error (c # cs) = (case c of None \<Rightarrow> first_error cs | Some e \<Rightarrow> Some e)"
  by (cases c) auto

lemma first_error_None_Cons [simp]:
  "first_error (c # cs) = None \<longleftrightarrow> c = None \<and> first_error cs = None"
  by (cases c) auto

lemma first_error_None: "first_error cs = None \<longleftrightarrow> list_all (\<lambda>c. c = None) cs"
  by (induction cs) auto

lemma first_error_Some_in: "first_error cs = Some e \<Longrightarrow> Some e \<in> set cs"
  by (induction cs rule: first_error.induct) auto

lemma first_error_append:
  "first_error (cs @ ds) = (case first_error cs of None \<Rightarrow> first_error ds | Some e \<Rightarrow> Some e)"
  by (induction cs rule: first_error.induct) auto

lemma first_error_append_None [simp]:
  "first_error (cs @ ds) = None \<longleftrightarrow> first_error cs = None \<and> first_error ds = None"
  by (simp add: first_error_append split: option.splits)

text \<open>Whatever all the errors of a chain satisfy, the error it returns satisfies.\<close>

lemma pred_option_guard [simp]: "pred_option P (guard c e) \<longleftrightarrow> (c \<longrightarrow> P e)"
  by (simp add: guard_def)

lemma pred_option_first_error: "list_all (pred_option P) cs \<Longrightarrow> pred_option P (first_error cs)"
  by (induction cs rule: first_error.induct) auto

lemma pred_optionD: "pred_option P x \<Longrightarrow> x = Some e \<Longrightarrow> P e"
  by simp

text \<open>The failing check and the ones before it, which passed.\<close>

lemma first_error_Some_split:
  "first_error cs = Some e \<longleftrightarrow>
     (\<exists>us vs. cs = us @ Some e # vs \<and> list_all (\<lambda>c. c = None) us)"
proof
  show "first_error cs = Some e \<Longrightarrow> \<exists>us vs. cs = us @ Some e # vs \<and> list_all (\<lambda>c. c = None) us"
  proof (induction cs rule: first_error.induct)
    case (2 cs)
    then obtain us vs where "cs = us @ Some e # vs" "list_all (\<lambda>c. c = None) us" by auto
    then have "None # cs = (None # us) @ Some e # vs" "list_all (\<lambda>c. c = None) (None # us)" by simp_all
    then show ?case by blast
  qed fastforce+
next
  assume "\<exists>us vs. cs = us @ Some e # vs \<and> list_all (\<lambda>c. c = None) us"
  then show "first_error cs = Some e"
    by (auto simp: first_error_append simp flip: first_error_None)
qed

text \<open>\<open>v, err := f(); if err != nil { return err }\<close>, for an \<open>f\<close> with a result of its own.\<close>

definition bindE :: "'e + 'a \<Rightarrow> ('a \<Rightarrow> 'e + 'b) \<Rightarrow> 'e + 'b" where
  "bindE x f = (case x of Inl e \<Rightarrow> Inl e | Inr a \<Rightarrow> f a)"

lemma bindE_simps [simp]: "bindE (Inl e) f = Inl e" "bindE (Inr a) f = f a"
  by (simp_all add: bindE_def)

lemma bindE_Inr: "bindE x f = Inr b \<longleftrightarrow> (\<exists>a. x = Inr a \<and> f a = Inr b)"
  by (cases x) auto

lemma bindE_Inl: "bindE x f = Inl e \<longleftrightarrow> x = Inl e \<or> (\<exists>a. x = Inr a \<and> f a = Inl e)"
  by (cases x) auto

section \<open>Decimal numbers\<close>

definition digit_char :: "nat \<Rightarrow> char" where
  "digit_char d = char_of (48 + d)"

fun dec_digits :: "nat \<Rightarrow> string" where
  "dec_digits n = (if n < 10 then [digit_char n] else dec_digits (n div 10) @ [digit_char (n mod 10)])"

declare dec_digits.simps [simp del]

text \<open>The verb \<open>%d\<close> on an \<open>int\<close>, and \<open>strconv.Itoa\<close>.\<close>

definition itoa :: "int \<Rightarrow> string" where
  "itoa i = (if i < 0 then CHR ''-'' # dec_digits (nat (- i)) else dec_digits (nat i))"

text \<open>The characters a printed number consists of.\<close>

definition digit_chars :: "char set" where
  "digit_chars = set ''0123456789''"

definition num_chars :: "char set" where
  "num_chars = insert CHR ''-'' digit_chars"

lemma digit_char_num: "d < 10 \<Longrightarrow> digit_char d \<in> digit_chars"
proof -
  have "list_all (\<lambda>d. digit_char d \<in> digit_chars) [0..<10]" by code_simp
  then show "d < 10 \<Longrightarrow> digit_char d \<in> digit_chars" by (simp add: list_all_iff)
qed

lemma dec_digits_chars: "set (dec_digits n) \<subseteq> digit_chars"
proof (induction n rule: dec_digits.induct)
  case (1 n)
  show ?case
  proof (cases "n < 10")
    case True
    then show ?thesis by (simp add: dec_digits.simps [of n] digit_char_num)
  next
    case False
    with 1 show ?thesis by (simp add: dec_digits.simps [of n] digit_char_num)
  qed
qed

lemma itoa_chars: "set (itoa i) \<subseteq> num_chars"
  using dec_digits_chars by (auto simp: itoa_def num_chars_def)

lemma itoa_not_Nil [simp]: "itoa i \<noteq> []"
  by (simp add: itoa_def dec_digits.simps [of "nat i"])

text \<open>The verb \<open>%q\<close> needs Unicode's tables, so error texts take Go's quoting as the argument \<open>q\<close>.\<close>

fun render_part :: "(string \<Rightarrow> string) \<Rightarrow> fmtpart \<Rightarrow> string" where
  "render_part q (Lit s) = s"
| "render_part q (Str s) = s"
| "render_part q (Quo s) = q s"
| "render_part q (Num i) = itoa i"

definition render :: "(string \<Rightarrow> string) \<Rightarrow> fmtpart list \<Rightarrow> string" where
  "render q ps = concat (map (render_part q) ps)"

fun sentinel_text :: "sentinel \<Rightarrow> string" where
  "sentinel_text ErrInvalidPayload = ''invalid payload''"
| "sentinel_text ErrPayloadTooLarge = ''payload too large''"
| "sentinel_text ErrNotFound = ''alert group not found''"
| "sentinel_text ErrQueueFull = ''queue full: enqueue timed out''"
| "sentinel_text ErrQueueClosed = ''queue closed''"
| "sentinel_text ErrInvalidConfig = ''invalid configuration''"
| "sentinel_text ErrCanceled = ''context canceled''"
| "sentinel_text ErrDeadlineExceeded = ''context deadline exceeded''"

text \<open>\<open>err.Error()\<close>.\<close>

fun error_text :: "(string \<Rightarrow> string) \<Rightarrow> goerr \<Rightarrow> string" where
  "error_text q (Sentinel s) = sentinel_text s"
| "error_text q (Errorf ps e) = render q ps @ '': '' @ error_text q e"
| "error_text q (Opaque ps) = render q ps"
| "error_text q (Foreign s) = s"

end
