(* ===== verification/GoStrings.thy ===== *)
theory GoStrings imports GoPrelude begin

text \<open>
  The functions of packages \<open>strings\<close> and \<open>html\<close> that the relay calls, on byte strings.

  Case mapping: the code compares what \<open>strings.ToLower\<close> returns with ASCII words and searches
  it for ASCII patterns, and applies \<open>strings.ToUpper\<close> to an alert status.  \<open>ToLower\<close> maps the
  ASCII capitals and the only two other code points whose lower case is ASCII (U+0130 and U+212A),
  and leaves every other byte as it is; \<open>ToUpper\<close> maps the ASCII letters.
\<close>

section \<open>Case mapping\<close>

definition upper_char :: "char \<Rightarrow> char" where
  "upper_char c = (let n = of_char c :: nat in if 97 \<le> n \<and> n \<le> 122 then char_of (n - 32) else c)"

definition lower_char :: "char \<Rightarrow> char" where
  "lower_char c = (let n = of_char c :: nat in if 65 \<le> n \<and> n \<le> 90 then char_of (n + 32) else c)"

definition ToUpper :: "string \<Rightarrow> string" where
  "ToUpper s = map upper_char s"

definition U_0130 :: string where
  "U_0130 = [CHR 0xC4, CHR 0xB0]"

definition U_212A :: string where
  "U_212A = [CHR 0xE2, CHR 0x84, CHR 0xAA]"

function ToLower :: "string \<Rightarrow> string" where
  "ToLower s =
     (case s of [] \<Rightarrow> []
      | c # t \<Rightarrow>
          (if prefix U_0130 s then CHR ''i'' # ToLower (drop 2 s)
           else if prefix U_212A s then CHR ''k'' # ToLower (drop 3 s)
           else lower_char c # ToLower t))"
  by pat_completeness auto
termination
  by (relation "measure length") auto

declare ToLower.simps [simp del]

section \<open>Searching, splitting, joining\<close>

fun str_contains :: "string \<Rightarrow> string \<Rightarrow> bool" where
  "str_contains [] p \<longleftrightarrow> p = []"
| "str_contains (c # s) p \<longleftrightarrow> prefix p (c # s) \<or> str_contains s p"

lemma str_contains_sublist: "str_contains s p \<longleftrightarrow> sublist p s"
  by (induction s) (auto simp: sublist_Cons_right)

fun Join :: "string list \<Rightarrow> string \<Rightarrow> string" where
  "Join [] sep = []"
| "Join [x] sep = x"
| "Join (x # y # xs) sep = x @ sep @ Join (y # xs) sep"

text \<open>\<open>strings.Split(s, sep)\<close> for a separator of one byte: always at least one part.\<close>

fun Split :: "string \<Rightarrow> char \<Rightarrow> string list" where
  "Split [] sep = [[]]"
| "Split (c # s) sep =
     (if c = sep then [] # Split s sep
      else (case Split s sep of [] \<Rightarrow> [[c]] | p # ps \<Rightarrow> (c # p) # ps))"

lemma Split_not_Nil [simp]: "Split s sep \<noteq> []"
  by (induction s) (auto split: list.splits)

lemma Join_Cons: "xs \<noteq> [] \<Longrightarrow> Join (x # xs) sep = x @ sep @ Join xs sep"
  by (cases xs) auto

lemma Join_Cons_app: "Join ((c # p) # ps) sep = c # Join (p # ps) sep"
  by (cases ps) auto

lemma Join_Split: "Join (Split s sep) [sep] = s"
  by (induction s) (auto simp: Join_Cons Join_Cons_app split: list.splits)

lemma Split_parts: "p \<in> set (Split s sep) \<Longrightarrow> sep \<notin> set p"
  by (induction s arbitrary: p) (auto split: list.splits if_splits)

lemma Split_no_sep: "sep \<notin> set s \<Longrightarrow> Split s sep = [s]"
  by (induction s) auto

lemma Split_append_sep: "sep \<notin> set p \<Longrightarrow> Split (p @ sep # s) sep = p # Split s sep"
  by (induction p) auto

lemma Split_Join: "ps \<noteq> [] \<Longrightarrow> list_all (\<lambda>p. sep \<notin> set p) ps \<Longrightarrow> Split (Join ps [sep]) sep = ps"
  by (induction ps "[sep]" rule: Join.induct) (auto simp: Split_no_sep Split_append_sep)

text \<open>\<open>strings.TrimRight(s, cutset)\<close> for ASCII cutsets.\<close>

definition TrimRight :: "string \<Rightarrow> string \<Rightarrow> string" where
  "TrimRight s cs = rev (dropWhile (\<lambda>c. c \<in> set cs) (rev s))"

lemma TrimRight_idem [simp]: "TrimRight (TrimRight s cs) cs = TrimRight s cs"
  by (simp add: TrimRight_def dropWhile_idem)

lemma TrimRight_suffix: "TrimRight s cs \<noteq> [] \<Longrightarrow> last (TrimRight s cs) \<notin> set cs"
  using hd_dropWhile [of "\<lambda>c. c \<in> set cs" "rev s"] by (simp add: TrimRight_def last_rev)

lemma TrimRight_prefix: "prefix (TrimRight s cs) s"
proof -
  have "suffix (dropWhile (\<lambda>c. c \<in> set cs) (rev s)) (rev s)" by (rule suffix_dropWhile)
  then show ?thesis by (simp add: TrimRight_def suffix_to_prefix)
qed

text \<open>\<open>strings.LastIndex(s, sep)\<close> for a separator of one byte, and what follows it.\<close>

definition after_last :: "char \<Rightarrow> string \<Rightarrow> string" where
  "after_last sep s = (if sep \<in> set s then rev (takeWhile (\<lambda>c. c \<noteq> sep) (rev s)) else s)"

lemma after_last_no_sep: "sep \<notin> set (after_last sep s)"
  by (auto simp: after_last_def dest: set_takeWhileD)

section \<open>White space\<close>

text \<open>The UTF-8 encodings of the code points for which \<open>unicode.IsSpace\<close> holds.\<close>

definition space_runes :: "string list" where
  "space_runes =
     [[CHR 0x09], [CHR 0x0A], [CHR 0x0B], [CHR 0x0C], [CHR 0x0D], [CHR 0x20],
      [CHR 0xC2, CHR 0x85], [CHR 0xC2, CHR 0xA0], [CHR 0xE1, CHR 0x9A, CHR 0x80],
      [CHR 0xE2, CHR 0x80, CHR 0x80], [CHR 0xE2, CHR 0x80, CHR 0x81], [CHR 0xE2, CHR 0x80, CHR 0x82],
      [CHR 0xE2, CHR 0x80, CHR 0x83], [CHR 0xE2, CHR 0x80, CHR 0x84], [CHR 0xE2, CHR 0x80, CHR 0x85],
      [CHR 0xE2, CHR 0x80, CHR 0x86], [CHR 0xE2, CHR 0x80, CHR 0x87], [CHR 0xE2, CHR 0x80, CHR 0x88],
      [CHR 0xE2, CHR 0x80, CHR 0x89], [CHR 0xE2, CHR 0x80, CHR 0x8A], [CHR 0xE2, CHR 0x80, CHR 0xA8],
      [CHR 0xE2, CHR 0x80, CHR 0xA9], [CHR 0xE2, CHR 0x80, CHR 0xAF], [CHR 0xE2, CHR 0x81, CHR 0x9F],
      [CHR 0xE3, CHR 0x80, CHR 0x80]]"

text \<open>Drop leading white space, for the given encodings (the reversed ones trim the right end).\<close>

function trim_front :: "string list \<Rightarrow> string \<Rightarrow> string" where
  "trim_front ws s =
     (case find (\<lambda>w. w \<noteq> [] \<and> prefix w s) ws of
        None \<Rightarrow> s
      | Some w \<Rightarrow> trim_front ws (drop (length w) s))"
  by pat_completeness auto
termination
  by (relation "measure (\<lambda>(ws, s). length s)") (auto simp: find_Some_iff prefix_def)

declare trim_front.simps [simp del]

definition TrimSpace :: "string \<Rightarrow> string" where
  "TrimSpace s = rev (trim_front (map rev space_runes) (rev (trim_front space_runes s)))"

definition starts_with_any :: "string list \<Rightarrow> string \<Rightarrow> bool" where
  "starts_with_any ws s \<longleftrightarrow> (\<exists>w\<in>set ws. w \<noteq> [] \<and> prefix w s)"

lemma not_starts_with_find:
  "\<not> starts_with_any ws s \<longleftrightarrow> find (\<lambda>w. w \<noteq> [] \<and> prefix w s) ws = None"
  by (auto simp: starts_with_any_def find_None_iff)

lemma trim_front_id: "\<not> starts_with_any ws s \<Longrightarrow> trim_front ws s = s"
  by (subst trim_front.simps) (simp add: not_starts_with_find)

lemma trim_front_stops: "\<not> starts_with_any ws (trim_front ws s)"
proof (induction ws s rule: trim_front.induct)
  case (1 ws s)
  show ?case
  proof (cases "find (\<lambda>w. w \<noteq> [] \<and> prefix w s) ws")
    case None
    then have "\<not> starts_with_any ws s" by (simp add: not_starts_with_find)
    then show ?thesis by (simp add: trim_front_id)
  next
    case (Some w)
    with "1.IH" [OF Some] show ?thesis by (subst trim_front.simps) simp
  qed
qed

lemma trim_front_suffix: "suffix (trim_front ws s) s"
proof (induction ws s rule: trim_front.induct)
  case (1 ws s)
  show ?case
  proof (cases "find (\<lambda>w. w \<noteq> [] \<and> prefix w s) ws")
    case None
    then show ?thesis by (subst trim_front.simps) simp
  next
    case (Some w)
    from "1.IH" [OF Some] have "suffix (trim_front ws (drop (length w) s)) s"
      by (meson suffix_drop suffix_order.trans)
    with Some show ?thesis by (subst trim_front.simps) simp
  qed
qed

lemma starts_with_any_prefix: "prefix s t \<Longrightarrow> starts_with_any ws s \<Longrightarrow> starts_with_any ws t"
  unfolding starts_with_any_def using prefix_order.trans by blast

text \<open>A trimmed string neither starts nor ends with white space, and trimming is idempotent.\<close>

lemma TrimSpace_front: "\<not> starts_with_any space_runes (TrimSpace s)"
proof -
  let ?l = "trim_front space_runes s"
  have "prefix (TrimSpace s) ?l"
    using trim_front_suffix [of "map rev space_runes" "rev ?l"]
    by (simp add: TrimSpace_def suffix_to_prefix)
  then show ?thesis using starts_with_any_prefix trim_front_stops by blast
qed

lemma TrimSpace_back: "\<not> starts_with_any (map rev space_runes) (rev (TrimSpace s))"
  by (simp add: TrimSpace_def trim_front_stops)

lemma TrimSpace_id:
  "\<not> starts_with_any space_runes s \<Longrightarrow> \<not> starts_with_any (map rev space_runes) (rev s) \<Longrightarrow> TrimSpace s = s"
  by (simp add: TrimSpace_def trim_front_id)

lemma TrimSpace_idem [simp]: "TrimSpace (TrimSpace s) = TrimSpace s"
  by (rule TrimSpace_id [OF TrimSpace_front TrimSpace_back])

section \<open>HTML escaping\<close>

text \<open>\<open>html.EscapeString\<close>.\<close>

definition escape_char :: "char \<Rightarrow> string" where
  "escape_char c =
     (if c = CHR ''&'' then ''&amp;''
      else if c = CHR 0x27 then ''&#39;''
      else if c = CHR ''<'' then ''&lt;''
      else if c = CHR ''>'' then ''&gt;''
      else if c = CHR 0x22 then ''&#34;''
      else [c])"

definition EscapeString :: "string \<Rightarrow> string" where
  "EscapeString s = concat (map escape_char s)"

lemma EscapeString_Nil [simp]: "EscapeString [] = []"
  by (simp add: EscapeString_def)

lemma EscapeString_Cons [simp]: "EscapeString (c # s) = escape_char c @ EscapeString s"
  by (simp add: EscapeString_def)

lemma EscapeString_append: "EscapeString (s @ t) = EscapeString s @ EscapeString t"
  by (simp add: EscapeString_def)

lemma escape_char_not_Nil [simp]: "escape_char c \<noteq> []"
  by (simp add: escape_char_def)

lemma EscapeString_empty [simp]: "EscapeString s = [] \<longleftrightarrow> s = []"
  by (cases s) auto

definition html_special :: "char set" where
  "html_special = {CHR ''<'', CHR ''>'', CHR 0x22, CHR 0x27}"

lemma escape_char_safe: "set (escape_char c) \<inter> html_special = {}"
  by (auto simp: escape_char_def html_special_def)

lemma EscapeString_safe: "set (EscapeString s) \<inter> html_special = {}"
  by (induction s) (use escape_char_safe in auto)

text \<open>Reading the five entities back: the inverse of escaping.\<close>

definition read_entity :: "string \<Rightarrow> (char \<times> string) option" where
  "read_entity s =
     (if prefix ''&amp;'' s then Some (CHR ''&'', drop 5 s)
      else if prefix ''&#39;'' s then Some (CHR 0x27, drop 5 s)
      else if prefix ''&lt;'' s then Some (CHR ''<'', drop 4 s)
      else if prefix ''&gt;'' s then Some (CHR ''>'', drop 4 s)
      else if prefix ''&#34;'' s then Some (CHR 0x22, drop 5 s)
      else (case s of [] \<Rightarrow> None | c # t \<Rightarrow> Some (c, t)))"

lemma read_entity_escape: "read_entity (escape_char c @ s) = Some (c, s)"
proof (cases "c \<in> {CHR ''&'', CHR 0x27, CHR ''<'', CHR ''>'', CHR 0x22}")
  case True
  then show ?thesis by (elim insertE) (simp_all add: read_entity_def escape_char_def)
next
  case False
  then have "CHR ''&'' \<noteq> c" by blast
  with False show ?thesis by (simp add: read_entity_def escape_char_def)
qed

lemma EscapeString_inj: "EscapeString s = EscapeString t \<Longrightarrow> s = t"
proof (induction s arbitrary: t)
  case Nil
  then show ?case by (metis EscapeString_Nil EscapeString_empty)
next
  case (Cons c s)
  then obtain d t' where t: "t = d # t'" by (cases t) auto
  with Cons.prems have eq: "escape_char c @ EscapeString s = escape_char d @ EscapeString t'" by simp
  then have "Some (c, EscapeString s) = Some (d, EscapeString t')"
    by (metis read_entity_escape)
  then have "c = d" and "EscapeString s = EscapeString t'" by simp_all
  with t Cons.IH show ?case by blast
qed

end
