(* ===== verification/Config.thy ===== *)
theory Config imports GoStrings begin

text \<open>
  Package \<open>internal/config\<close>: loading the configuration from the environment, normalizing and validating
  it, and the view of it that is logged.  \<open>getenv\<close> is \<open>os.Getenv\<close> (empty for an unset variable).

  Durations are nanoseconds.  Three parsers of Go's library are fields of the argument \<open>lib\<close>:
  \<open>time.ParseDuration\<close> (with \<open>Duration.String\<close>), \<open>url.Parse\<close> (as far as it is used: the scheme and
  the host) and \<open>mail.ParseAddress\<close>; \<open>strconv.Atoi\<close> is modelled.  The messages of the errors are
  Russian in the code; the model has English words in their place, with the same values between them.
\<close>

section \<open>Library functions\<close>

record golib =
  gl_quote :: "string \<Rightarrow> string"
  gl_ParseDuration :: "string \<Rightarrow> goerr + int"
  gl_DurationString :: "int \<Rightarrow> string"
  gl_urlParse :: "string \<Rightarrow> goerr + string \<times> string"
  gl_ParseAddress :: "string \<Rightarrow> goerr option"

text \<open>\<open>strconv.Atoi\<close> on a 64-bit platform: the digits are read as a \<open>uint64\<close>, then put in range.\<close>

definition syntax_error :: "string \<Rightarrow> goerr" where
  "syntax_error s = Opaque [Lit ''strconv.Atoi: parsing '', Quo s, Lit '': invalid syntax'']"

definition range_error :: "string \<Rightarrow> goerr" where
  "range_error s = Opaque [Lit ''strconv.Atoi: parsing '', Quo s, Lit '': value out of range'']"

definition digit_value :: "char \<Rightarrow> nat option" where
  "digit_value c = (let n = of_char c in if 48 \<le> n \<and> n \<le> 57 then Some (n - 48) else None)"

fun scan_uint :: "string \<Rightarrow> nat \<Rightarrow> string \<Rightarrow> goerr + nat" where
  "scan_uint s0 n [] = Inr n"
| "scan_uint s0 n (c # s) =
     (case digit_value c of
        None \<Rightarrow> Inl (syntax_error s0)
      | Some d \<Rightarrow> if 2 ^ 64 \<le> n * 10 + d then Inl (range_error s0) else scan_uint s0 (n * 10 + d) s)"

definition Atoi :: "string \<Rightarrow> goerr + int" where
  "Atoi s =
     (let (neg, ds) = (case s of [] \<Rightarrow> (False, [])
                       | c # t \<Rightarrow> if c = CHR ''-'' then (True, t) else if c = CHR ''+'' then (False, t) else (False, s))
      in if ds = [] then Inl (syntax_error s)
         else case scan_uint s 0 ds of
                Inl e \<Rightarrow> Inl e
              | Inr n \<Rightarrow>
                  if \<not> neg \<and> 2 ^ 63 \<le> n \<or> neg \<and> 2 ^ 63 < n then Inl (range_error s)
                  else Inr (if neg then - int n else int n))"

section \<open>The configuration\<close>

record pachca_config =
  p_Enabled :: bool
  p_BaseURL :: string
  p_Token :: string
  p_ChatID :: int

record email_config =
  m_Enabled :: bool
  m_SMTPHost :: string
  m_SMTPPort :: int
  m_From :: string
  m_To :: "string list"
  m_Username :: string
  m_Password :: string
  m_TLSMode :: string
  m_SubjectPrefix :: string

record template_config =
  t_Dir :: string
  t_ReloadEnabled :: bool

record config =
  c_Port :: int
  c_LogLevel :: string
  c_ShutdownTimeout :: int
  c_PreStopDelay :: int
  c_DatabaseDriver :: string
  c_DatabaseDSN :: string
  c_MaxPayloadSize :: int
  c_MaxAlertsPerPayload :: int
  c_NotifyPollInterval :: int
  c_NotifyBatchSize :: int
  c_NotifyQueueSize :: int
  c_NotifySendTimeout :: int
  c_Pachca :: pachca_config
  c_Email :: email_config
  c_Template :: template_config

abbreviation Millisecond :: int where "Millisecond \<equiv> 1000000"
abbreviation Second :: int where "Second \<equiv> 1000000000"
abbreviation Minute :: int where "Minute \<equiv> 60000000000"

text \<open>The limits (the constants of the package).\<close>

definition port_range :: "int \<times> int" where "port_range = (1, 65535)"
definition maxShutdownTimeout :: int where "maxShutdownTimeout = 5 * Minute"
definition maxPreStopDelay :: int where "maxPreStopDelay = 30 * Second"
definition payload_range :: "int \<times> int" where "payload_range = (1024, 10485760)"
definition alerts_range :: "int \<times> int" where "alerts_range = (1, 1000)"
definition maxDSNLen :: nat where "maxDSNLen = 2048"
definition poll_range :: "int \<times> int" where "poll_range = (1 * Second, 60 * Second)"
definition batch_range :: "int \<times> int" where "batch_range = (1, 500)"
definition queue_range :: "int \<times> int" where "queue_range = (10, 10000)"
definition send_range :: "int \<times> int" where "send_range = (5 * Second, 120 * Second)"
definition token_range :: "nat \<times> nat" where "token_range = (1, 512)"
definition maxPachcaBaseURLLen :: nat where "maxPachcaBaseURLLen = 2048"
definition chat_range :: "int \<times> int" where "chat_range = (1, 999999999)"
definition maxEmailPasswordLen :: nat where "maxEmailPasswordLen = 512"
definition maxEmailUsernameLen :: nat where "maxEmailUsernameLen = 256"
definition maxEmailSubjectPrefixLen :: nat where "maxEmailSubjectPrefixLen = 128"
definition maxEmailSMTPHostLen :: nat where "maxEmailSMTPHostLen = 253"
definition maxTemplateDirLen :: nat where "maxTemplateDirLen = 512"

definition validTLSModes :: "string list" where
  "validTLSModes = [''starttls'', ''tls'', ''none'']"

definition validLogLevels :: "string list" where
  "validLogLevels = [''debug'', ''info'', ''warn'', ''error'']"

definition validDatabaseDrivers :: "string list" where
  "validDatabaseDrivers = [''sqlite'']"

definition default_config :: config where
  "default_config =
     \<lparr>c_Port = 8080, c_LogLevel = ''info'', c_ShutdownTimeout = 15 * Second, c_PreStopDelay = 0,
      c_DatabaseDriver = ''sqlite'', c_DatabaseDSN = ''data/alerts.db'', c_MaxPayloadSize = 1048576,
      c_MaxAlertsPerPayload = 100, c_NotifyPollInterval = 5 * Second, c_NotifyBatchSize = 50,
      c_NotifyQueueSize = 100, c_NotifySendTimeout = 30 * Second,
      c_Pachca = \<lparr>p_Enabled = False, p_BaseURL = ''https://api.pachca.com'', p_Token = [], p_ChatID = 0\<rparr>,
      c_Email = \<lparr>m_Enabled = False, m_SMTPHost = [], m_SMTPPort = 587, m_From = [], m_To = [], m_Username = [],
                 m_Password = [], m_TLSMode = ''starttls'', m_SubjectPrefix = ''[Alert]''\<rparr>,
      c_Template = \<lparr>t_Dir = [], t_ReloadEnabled = False\<rparr>\<rparr>"

section \<open>Reading the environment\<close>

definition invalid :: "fmtpart list \<Rightarrow> goerr" where
  "invalid ps = Errorf ps (Sentinel ErrInvalidConfig)"

definition bad_value :: "golib \<Rightarrow> string \<Rightarrow> string \<Rightarrow> goerr \<Rightarrow> goerr" where
  "bad_value lib var v err =
     invalid [Lit ''invalid value '', Lit var, Lit ''='', Quo v, Lit '' ('', Str (error_text (gl_quote lib) err), Lit '')'']"

text \<open>\<open>if v := os.Getenv(var); v != "" { ... }\<close> for a number, a duration and a string.\<close>

definition load_int :: "golib \<Rightarrow> (string \<Rightarrow> string) \<Rightarrow> string \<Rightarrow> (int \<Rightarrow> config \<Rightarrow> config) \<Rightarrow> config \<Rightarrow> goerr + config" where
  "load_int lib getenv var upd c =
     (let v = getenv var
      in if v \<noteq> [] then (case Atoi v of Inl err \<Rightarrow> Inl (bad_value lib var v err) | Inr n \<Rightarrow> Inr (upd n c)) else Inr c)"

definition load_duration :: "golib \<Rightarrow> (string \<Rightarrow> string) \<Rightarrow> string \<Rightarrow> (int \<Rightarrow> config \<Rightarrow> config) \<Rightarrow> config \<Rightarrow> goerr + config" where
  "load_duration lib getenv var upd c =
     (let v = getenv var
      in if v \<noteq> [] then (case gl_ParseDuration lib v of Inl err \<Rightarrow> Inl (bad_value lib var v err) | Inr d \<Rightarrow> Inr (upd d c)) else Inr c)"

definition load_string :: "(string \<Rightarrow> string) \<Rightarrow> string \<Rightarrow> (string \<Rightarrow> config \<Rightarrow> config) \<Rightarrow> config \<Rightarrow> goerr + config" where
  "load_string getenv var upd c = (let v = getenv var in Inr (if v \<noteq> [] then upd v c else c))"

abbreviation set_pachca :: "(pachca_config \<Rightarrow> pachca_config) \<Rightarrow> config \<Rightarrow> config" where
  "set_pachca f c \<equiv> c\<lparr>c_Pachca := f (c_Pachca c)\<rparr>"

abbreviation set_email :: "(email_config \<Rightarrow> email_config) \<Rightarrow> config \<Rightarrow> config" where
  "set_email f c \<equiv> c\<lparr>c_Email := f (c_Email c)\<rparr>"

abbreviation set_template :: "(template_config \<Rightarrow> template_config) \<Rightarrow> config \<Rightarrow> config" where
  "set_template f c \<equiv> c\<lparr>c_Template := f (c_Template c)\<rparr>"

text \<open>The steps of \<open>Load\<close>, each of which may return early.\<close>

definition load_server :: "golib \<Rightarrow> (string \<Rightarrow> string) \<Rightarrow> config \<Rightarrow> goerr + config" where
  "load_server lib getenv c =
     bindE (load_int lib getenv ''PORT'' (\<lambda>n c. c\<lparr>c_Port := n\<rparr>) c) (\<lambda>c.
     bindE (load_string getenv ''LOG_LEVEL'' (\<lambda>v c. c\<lparr>c_LogLevel := v\<rparr>) c) (\<lambda>c.
     bindE (load_duration lib getenv ''SHUTDOWN_TIMEOUT'' (\<lambda>d c. c\<lparr>c_ShutdownTimeout := d\<rparr>) c) (\<lambda>c.
     bindE (load_duration lib getenv ''PRE_STOP_DELAY'' (\<lambda>d c. c\<lparr>c_PreStopDelay := d\<rparr>) c) (\<lambda>c.
     bindE (load_string getenv ''DATABASE_DRIVER'' (\<lambda>v c. c\<lparr>c_DatabaseDriver := v\<rparr>) c) (\<lambda>c.
     bindE (load_string getenv ''DATABASE_DSN'' (\<lambda>v c. c\<lparr>c_DatabaseDSN := v\<rparr>) c) (\<lambda>c.
     bindE (load_int lib getenv ''MAX_PAYLOAD_SIZE'' (\<lambda>n c. c\<lparr>c_MaxPayloadSize := n\<rparr>) c) (\<lambda>c.
     bindE (load_int lib getenv ''MAX_ALERTS_PER_PAYLOAD'' (\<lambda>n c. c\<lparr>c_MaxAlertsPerPayload := n\<rparr>) c) (\<lambda>c.
     bindE (load_duration lib getenv ''NOTIFY_POLL_INTERVAL'' (\<lambda>d c. c\<lparr>c_NotifyPollInterval := d\<rparr>) c) (\<lambda>c.
     bindE (load_int lib getenv ''NOTIFY_BATCH_SIZE'' (\<lambda>n c. c\<lparr>c_NotifyBatchSize := n\<rparr>) c) (\<lambda>c.
     bindE (load_int lib getenv ''NOTIFY_QUEUE_SIZE'' (\<lambda>n c. c\<lparr>c_NotifyQueueSize := n\<rparr>) c) (\<lambda>c.
     load_duration lib getenv ''NOTIFY_SEND_TIMEOUT'' (\<lambda>d c. c\<lparr>c_NotifySendTimeout := d\<rparr>) c)))))))))))"

definition load_pachca :: "golib \<Rightarrow> (string \<Rightarrow> string) \<Rightarrow> config \<Rightarrow> goerr + config" where
  "load_pachca lib getenv c =
     bindE (load_string getenv ''PACHCA_TOKEN'' (\<lambda>v. set_pachca (\<lambda>p. p\<lparr>p_Token := v, p_Enabled := True\<rparr>)) c) (\<lambda>c.
     bindE (load_string getenv ''PACHCA_BASE_URL'' (\<lambda>v. set_pachca (\<lambda>p. p\<lparr>p_BaseURL := v\<rparr>)) c) (\<lambda>c.
     load_int lib getenv ''PACHCA_CHAT_ID'' (\<lambda>n. set_pachca (\<lambda>p. p\<lparr>p_ChatID := n\<rparr>)) c))"

definition split_recipients :: "string \<Rightarrow> string list" where
  "split_recipients v = filter (\<lambda>t. t \<noteq> []) (map TrimSpace (Split v CHR '',''))"

definition load_email :: "golib \<Rightarrow> (string \<Rightarrow> string) \<Rightarrow> config \<Rightarrow> goerr + config" where
  "load_email lib getenv c =
     bindE (load_string getenv ''EMAIL_SMTP_HOST'' (\<lambda>v. set_email (\<lambda>m. m\<lparr>m_SMTPHost := v, m_Enabled := True\<rparr>)) c) (\<lambda>c.
     bindE (load_int lib getenv ''EMAIL_SMTP_PORT'' (\<lambda>n. set_email (\<lambda>m. m\<lparr>m_SMTPPort := n\<rparr>)) c) (\<lambda>c.
     bindE (load_string getenv ''EMAIL_FROM'' (\<lambda>v. set_email (\<lambda>m. m\<lparr>m_From := v\<rparr>)) c) (\<lambda>c.
     bindE (load_string getenv ''EMAIL_TO'' (\<lambda>v. set_email (\<lambda>m. m\<lparr>m_To := split_recipients v\<rparr>)) c) (\<lambda>c.
     bindE (load_string getenv ''EMAIL_USERNAME'' (\<lambda>v. set_email (\<lambda>m. m\<lparr>m_Username := v\<rparr>)) c) (\<lambda>c.
     bindE (load_string getenv ''EMAIL_PASSWORD'' (\<lambda>v. set_email (\<lambda>m. m\<lparr>m_Password := v\<rparr>)) c) (\<lambda>c.
     bindE (load_string getenv ''EMAIL_TLS_MODE'' (\<lambda>v. set_email (\<lambda>m. m\<lparr>m_TLSMode := v\<rparr>)) c) (\<lambda>c.
     load_string getenv ''EMAIL_SUBJECT_PREFIX'' (\<lambda>v. set_email (\<lambda>m. m\<lparr>m_SubjectPrefix := v\<rparr>)) c)))))))"

definition load_template :: "(string \<Rightarrow> string) \<Rightarrow> config \<Rightarrow> goerr + config" where
  "load_template getenv c =
     bindE (load_string getenv ''TEMPLATE_DIR'' (\<lambda>v. set_template (\<lambda>t. t\<lparr>t_Dir := v\<rparr>)) c) (\<lambda>c.
     let v = getenv ''TEMPLATE_RELOAD''
     in if v = [] then Inr c
        else if v = ''true'' then Inr (set_template (\<lambda>t. t\<lparr>t_ReloadEnabled := True\<rparr>) c)
        else if v = ''false'' then Inr (set_template (\<lambda>t. t\<lparr>t_ReloadEnabled := False\<rparr>) c)
        else Inl (invalid [Lit ''invalid value TEMPLATE_RELOAD='', Quo v, Lit '' (true/false)'']))"

section \<open>Normalizing\<close>

definition lower_trim :: "string \<Rightarrow> string" where
  "lower_trim s = ToLower (TrimSpace s)"

definition normalize_pachca :: "pachca_config \<Rightarrow> pachca_config" where
  "normalize_pachca p =
     p\<lparr>p_BaseURL := TrimRight (TrimSpace (p_BaseURL p)) ''/'', p_Token := TrimSpace (p_Token p)\<rparr>"

definition normalize_email :: "email_config \<Rightarrow> email_config" where
  "normalize_email m =
     m\<lparr>m_SMTPHost := TrimSpace (m_SMTPHost m), m_From := TrimSpace (m_From m), m_To := map TrimSpace (m_To m),
       m_Username := TrimSpace (m_Username m), m_Password := TrimSpace (m_Password m),
       m_TLSMode := lower_trim (m_TLSMode m), m_SubjectPrefix := TrimSpace (m_SubjectPrefix m)\<rparr>"

definition normalize :: "config \<Rightarrow> config" where
  "normalize c =
     c\<lparr>c_LogLevel := lower_trim (c_LogLevel c), c_DatabaseDriver := lower_trim (c_DatabaseDriver c),
       c_DatabaseDSN := TrimSpace (c_DatabaseDSN c), c_Pachca := normalize_pachca (c_Pachca c),
       c_Email := normalize_email (c_Email c),
       c_Template := (c_Template c)\<lparr>t_Dir := TrimSpace (t_Dir (c_Template c))\<rparr>\<rparr>"

section \<open>Validating\<close>

definition isPrintableASCII :: "string \<Rightarrow> bool" where
  "isPrintableASCII s \<longleftrightarrow> list_all (\<lambda>c. 0x21 \<le> (of_char c :: nat) \<and> (of_char c :: nat) \<le> 0x7E) s"

definition containsControlChars :: "string \<Rightarrow> bool" where
  "containsControlChars s \<longleftrightarrow> list_ex (\<lambda>c. (of_char c :: nat) < 0x20 \<or> (of_char c :: nat) = 0x7F) s"

definition dangerousPatterns :: "(string \<times> string) list" where
  "dangerousPatterns =
     [(''CRLF'', [CHR 0x0D, CHR 0x0A]), (''CR'', [CHR 0x0D]), (''null byte'', [CHR 0x00]),
      (''ANSI escape'', [CHR 0x1B, CHR ''['']), (''shell expansion'', ''$(''), (''shell expansion'', [CHR 0x60]),
      (''template injection'', ''{{'')]"

definition urlEncodedDangerous :: "(string \<times> string) list" where
  "urlEncodedDangerous =
     [(''URL-encoded dangerous sequence'', ''%00''), (''URL-encoded dangerous sequence'', ''%0d%0a''),
      (''URL-encoded dangerous sequence'', ''%0a''), (''URL-encoded dangerous sequence'', ''%0d'')]"

text \<open>The description of the first pattern found, if any.\<close>

definition containsDangerousSequence :: "string \<Rightarrow> string option" where
  "containsDangerousSequence s =
     (case find (\<lambda>(d, p). str_contains s p) dangerousPatterns of
        Some (d, _) \<Rightarrow> Some d
      | None \<Rightarrow>
          (let lower = ToLower s
           in case find (\<lambda>(d, p). str_contains lower p) urlEncodedDangerous of
                Some (d, _) \<Rightarrow> Some d
              | None \<Rightarrow> None))"

text \<open>The checks that recur: a number in a range, a length, control characters, dangerous sequences.\<close>

definition out_of_range :: "int \<times> int \<Rightarrow> int \<Rightarrow> bool" where
  "out_of_range r n \<longleftrightarrow> n < fst r \<or> n > snd r"

definition range_check :: "string \<Rightarrow> int \<times> int \<Rightarrow> int \<Rightarrow> goerr option" where
  "range_check var r n =
     guard (out_of_range r n)
       (invalid [Lit var, Lit ''='', Num n, Lit '' out of range ['', Num (fst r), Lit '', '', Num (snd r), Lit '']''])"

definition duration_check :: "golib \<Rightarrow> string \<Rightarrow> int \<times> int \<Rightarrow> int \<Rightarrow> goerr option" where
  "duration_check lib var r d =
     guard (out_of_range r d)
       (invalid [Lit var, Lit ''='', Str (gl_DurationString lib d), Lit '' out of range ['',
          Str (gl_DurationString lib (fst r)), Lit '', '', Str (gl_DurationString lib (snd r)), Lit '']''])"

definition length_check :: "string \<Rightarrow> nat \<Rightarrow> string \<Rightarrow> goerr option" where
  "length_check var max_len s =
     guard (length s > max_len)
       (invalid [Lit var, Lit '' of length '', Num (int (length s)), Lit '' exceeds '', Num (int max_len)])"

definition control_check :: "string \<Rightarrow> string \<Rightarrow> goerr option" where
  "control_check var s = guard (containsControlChars s) (invalid [Lit var, Lit '' contains control characters''])"

definition dangerous_check :: "string \<Rightarrow> string \<Rightarrow> goerr option" where
  "dangerous_check var s =
     (case containsDangerousSequence s of
        None \<Rightarrow> None
      | Some desc \<Rightarrow> Some (invalid [Lit var, Lit '' contains a dangerous sequence ('', Str desc, Lit '')'']))"

definition validatePachca :: "golib \<Rightarrow> pachca_config \<Rightarrow> goerr option" where
  "validatePachca lib p =
     first_error
       [guard (length (p_Token p) < fst token_range)
          (invalid [Lit ''PACHCA_TOKEN must have at least '', Num (int (fst token_range)), Lit '' characters'']),
        length_check ''PACHCA_TOKEN'' (snd token_range) (p_Token p),
        guard (\<not> isPrintableASCII (p_Token p)) (invalid [Lit ''PACHCA_TOKEN is not printable ASCII'']),
        dangerous_check ''PACHCA_TOKEN'' (p_Token p),
        range_check ''PACHCA_CHAT_ID'' chat_range (p_ChatID p),
        length_check ''PACHCA_BASE_URL'' maxPachcaBaseURLLen (p_BaseURL p),
        control_check ''PACHCA_BASE_URL'' (p_BaseURL p),
        dangerous_check ''PACHCA_BASE_URL'' (p_BaseURL p),
        (case gl_urlParse lib (p_BaseURL p) of
           Inl err \<Rightarrow> Some (invalid [Lit ''PACHCA_BASE_URL='', Quo (p_BaseURL p), Lit '' is not a URL ('',
                                     Str (error_text (gl_quote lib) err), Lit '')''])
         | Inr (scheme, host) \<Rightarrow>
             first_error
               [guard (scheme \<noteq> ''http'' \<and> scheme \<noteq> ''https'')
                  (invalid [Lit ''PACHCA_BASE_URL='', Quo (p_BaseURL p), Lit '' must be http or https'']),
                guard (host = []) (invalid [Lit ''PACHCA_BASE_URL='', Quo (p_BaseURL p), Lit '' must have a host''])])]"

definition address_check :: "golib \<Rightarrow> string \<Rightarrow> string \<Rightarrow> goerr option" where
  "address_check lib var addr =
     (case gl_ParseAddress lib addr of
        None \<Rightarrow> None
      | Some err \<Rightarrow> Some (invalid [Lit var, Lit ''='', Quo addr, Lit '' is not an address ('',
                                    Str (error_text (gl_quote lib) err), Lit '')'']))"

definition email_checks :: "golib \<Rightarrow> email_config \<Rightarrow> goerr option list" where
  "email_checks lib m =
       [guard (m_SMTPHost m = []) (invalid [Lit ''EMAIL_SMTP_HOST must not be empty'']),
         length_check ''EMAIL_SMTP_HOST'' maxEmailSMTPHostLen (m_SMTPHost m),
         control_check ''EMAIL_SMTP_HOST'' (m_SMTPHost m),
         dangerous_check ''EMAIL_SMTP_HOST'' (m_SMTPHost m),
         range_check ''EMAIL_SMTP_PORT'' port_range (m_SMTPPort m),
         guard (m_From m = []) (invalid [Lit ''EMAIL_FROM is required'']),
         address_check lib ''EMAIL_FROM'' (m_From m),
         guard (m_To m = []) (invalid [Lit ''EMAIL_TO is required''])]
        @ map (address_check lib ''EMAIL_TO'') (m_To m)
        @ [guard (m_TLSMode m \<notin> set validTLSModes)
             (invalid [Lit ''EMAIL_TLS_MODE='', Quo (m_TLSMode m), Lit '' must be starttls/tls/none''])]
        @ (if m_Password m \<noteq> []
           then [length_check ''EMAIL_PASSWORD'' maxEmailPasswordLen (m_Password m),
                 guard (\<not> isPrintableASCII (m_Password m)) (invalid [Lit ''EMAIL_PASSWORD is not printable ASCII'']),
                 dangerous_check ''EMAIL_PASSWORD'' (m_Password m)]
           else [])
        @ [length_check ''EMAIL_SUBJECT_PREFIX'' maxEmailSubjectPrefixLen (m_SubjectPrefix m),
           control_check ''EMAIL_SUBJECT_PREFIX'' (m_SubjectPrefix m),
           dangerous_check ''EMAIL_SUBJECT_PREFIX'' (m_SubjectPrefix m)]
        @ (if m_Username m \<noteq> []
           then [length_check ''EMAIL_USERNAME'' maxEmailUsernameLen (m_Username m),
                 control_check ''EMAIL_USERNAME'' (m_Username m),
                 dangerous_check ''EMAIL_USERNAME'' (m_Username m)]
           else [])
        @ [guard ((m_Username m \<noteq> []) \<noteq> (m_Password m \<noteq> []))
             (invalid [Lit ''EMAIL_USERNAME and EMAIL_PASSWORD must be both set or both empty''])]"

definition validateEmail :: "golib \<Rightarrow> email_config \<Rightarrow> goerr option" where
  "validateEmail lib m = first_error (email_checks lib m)"

definition validate_server :: "golib \<Rightarrow> config \<Rightarrow> goerr option list" where
  "validate_server lib c =
     [range_check ''PORT'' port_range (c_Port c),
      guard (c_LogLevel c \<notin> set validLogLevels)
        (invalid [Lit ''LOG_LEVEL='', Quo (c_LogLevel c), Lit '' must be debug/info/warn/error'']),
      guard (c_DatabaseDriver c \<notin> set validDatabaseDrivers)
        (invalid [Lit ''DATABASE_DRIVER='', Quo (c_DatabaseDriver c), Lit '' must be sqlite'']),
      guard (c_DatabaseDSN c = []) (invalid [Lit ''DATABASE_DSN must not be empty'']),
      length_check ''DATABASE_DSN'' maxDSNLen (c_DatabaseDSN c),
      control_check ''DATABASE_DSN'' (c_DatabaseDSN c),
      dangerous_check ''DATABASE_DSN'' (c_DatabaseDSN c),
      range_check ''MAX_PAYLOAD_SIZE'' payload_range (c_MaxPayloadSize c),
      range_check ''MAX_ALERTS_PER_PAYLOAD'' alerts_range (c_MaxAlertsPerPayload c),
      guard (c_ShutdownTimeout c \<le> 0)
        (invalid [Lit ''SHUTDOWN_TIMEOUT='', Str (gl_DurationString lib (c_ShutdownTimeout c)), Lit '' must be positive'']),
      guard (c_ShutdownTimeout c > maxShutdownTimeout)
        (invalid [Lit ''SHUTDOWN_TIMEOUT='', Str (gl_DurationString lib (c_ShutdownTimeout c)), Lit '' exceeds '',
                  Str (gl_DurationString lib maxShutdownTimeout)]),
      guard (c_PreStopDelay c < 0)
        (invalid [Lit ''PRE_STOP_DELAY='', Str (gl_DurationString lib (c_PreStopDelay c)), Lit '' must not be negative'']),
      guard (c_PreStopDelay c > maxPreStopDelay)
        (invalid [Lit ''PRE_STOP_DELAY='', Str (gl_DurationString lib (c_PreStopDelay c)), Lit '' exceeds '',
                  Str (gl_DurationString lib maxPreStopDelay)])]"

definition validate_notify :: "golib \<Rightarrow> config \<Rightarrow> goerr option list" where
  "validate_notify lib c =
     [duration_check lib ''NOTIFY_POLL_INTERVAL'' poll_range (c_NotifyPollInterval c),
      range_check ''NOTIFY_BATCH_SIZE'' batch_range (c_NotifyBatchSize c),
      range_check ''NOTIFY_QUEUE_SIZE'' queue_range (c_NotifyQueueSize c),
      duration_check lib ''NOTIFY_SEND_TIMEOUT'' send_range (c_NotifySendTimeout c),
      guard (c_NotifyQueueSize c < c_NotifyBatchSize c)
        (invalid [Lit ''NOTIFY_QUEUE_SIZE='', Num (c_NotifyQueueSize c), Lit '' must not be less than NOTIFY_BATCH_SIZE='',
                  Num (c_NotifyBatchSize c)]),
      guard (c_PreStopDelay c > 0 \<and> c_PreStopDelay c \<ge> c_ShutdownTimeout c)
        (invalid [Lit ''PRE_STOP_DELAY='', Str (gl_DurationString lib (c_PreStopDelay c)), Lit '' must be less than SHUTDOWN_TIMEOUT='',
                  Str (gl_DurationString lib (c_ShutdownTimeout c))])]"

definition validate :: "golib \<Rightarrow> config \<Rightarrow> goerr option" where
  "validate lib c =
     first_error
       (validate_server lib c @ validate_notify lib c
        @ (if p_Enabled (c_Pachca c) then [validatePachca lib (c_Pachca c)] else [])
        @ (if m_Enabled (c_Email c) then [validateEmail lib (c_Email c)] else [])
        @ (if t_Dir (c_Template c) \<noteq> []
           then [length_check ''TEMPLATE_DIR'' maxTemplateDirLen (t_Dir (c_Template c)),
                 control_check ''TEMPLATE_DIR'' (t_Dir (c_Template c)),
                 dangerous_check ''TEMPLATE_DIR'' (t_Dir (c_Template c))]
           else []))"

definition Load :: "golib \<Rightarrow> (string \<Rightarrow> string) \<Rightarrow> goerr + config" where
  "Load lib getenv =
     bindE (load_server lib getenv default_config) (\<lambda>c.
     bindE (load_pachca lib getenv c) (\<lambda>c.
     bindE (load_email lib getenv c) (\<lambda>c.
     bindE (load_template getenv c) (\<lambda>c.
     let cfg = normalize c
     in case validate lib cfg of Some err \<Rightarrow> Inl err | None \<Rightarrow> Inr cfg))))"

section \<open>Log level and log view\<close>

datatype slog_level = LevelDebug | LevelInfo | LevelWarn | LevelError

fun level_value :: "slog_level \<Rightarrow> int" where
  "level_value LevelDebug = -4"
| "level_value LevelInfo = 0"
| "level_value LevelWarn = 4"
| "level_value LevelError = 8"

instantiation slog_level :: linorder
begin

definition less_eq_slog_level :: "slog_level \<Rightarrow> slog_level \<Rightarrow> bool" where
  "less_eq_slog_level a b \<longleftrightarrow> level_value a \<le> level_value b"

definition less_slog_level :: "slog_level \<Rightarrow> slog_level \<Rightarrow> bool" where
  "less_slog_level a b \<longleftrightarrow> level_value a < level_value b"

instance
proof
  fix a b :: slog_level
  assume "a \<le> b" "b \<le> a"
  then show "a = b" by (cases a; cases b) (simp_all add: less_eq_slog_level_def)
qed (auto simp: less_eq_slog_level_def less_slog_level_def)

end

definition SlogLevel :: "config \<Rightarrow> slog_level" where
  "SlogLevel c =
     (if c_LogLevel c = ''debug'' then LevelDebug
      else if c_LogLevel c = ''warn'' then LevelWarn
      else if c_LogLevel c = ''error'' then LevelError
      else LevelInfo)"

datatype log_value = LInt int | LStr string | LBool bool | LStrs "string list" | LGroup "(string \<times> log_value) list"

definition redacted :: string where
  "redacted = ''[REDACTED]''"

definition LogValue :: "golib \<Rightarrow> config \<Rightarrow> log_value" where
  "LogValue lib c = LGroup
     [(''port'', LInt (c_Port c)),
      (''log_level'', LStr (c_LogLevel c)),
      (''shutdown_timeout'', LStr (gl_DurationString lib (c_ShutdownTimeout c))),
      (''pre_stop_delay'', LStr (gl_DurationString lib (c_PreStopDelay c))),
      (''database_driver'', LStr (c_DatabaseDriver c)),
      (''database_dsn'', LStr redacted),
      (''max_payload_size'', LInt (c_MaxPayloadSize c)),
      (''max_alerts_per_payload'', LInt (c_MaxAlertsPerPayload c)),
      (''notify_poll_interval'', LStr (gl_DurationString lib (c_NotifyPollInterval c))),
      (''notify_batch_size'', LInt (c_NotifyBatchSize c)),
      (''notify_queue_size'', LInt (c_NotifyQueueSize c)),
      (''notify_send_timeout'', LStr (gl_DurationString lib (c_NotifySendTimeout c))),
      (''pachca'', LGroup
         [(''enabled'', LBool (p_Enabled (c_Pachca c))), (''base_url'', LStr (p_BaseURL (c_Pachca c))),
          (''token'', LStr redacted), (''chat_id'', LInt (p_ChatID (c_Pachca c)))]),
      (''email'', LGroup
         [(''enabled'', LBool (m_Enabled (c_Email c))), (''smtp_host'', LStr (m_SMTPHost (c_Email c))),
          (''smtp_port'', LInt (m_SMTPPort (c_Email c))), (''from'', LStr (m_From (c_Email c))),
          (''to'', LStrs (m_To (c_Email c))), (''username'', LStr (m_Username (c_Email c))),
          (''password'', LStr redacted), (''tls_mode'', LStr (m_TLSMode (c_Email c))),
          (''subject_prefix'', LStr (m_SubjectPrefix (c_Email c)))]),
      (''template'', LGroup
         [(''dir'', LStr (t_Dir (c_Template c))), (''reload_enabled'', LBool (t_ReloadEnabled (c_Template c)))])]"

end
