(* ===== verification/ConfigProperties.thy ===== *)
theory ConfigProperties imports Config begin

text \<open>
  What \<open>Load\<close> of \<open>internal/config\<close> guarantees: the bounds of every accepted configuration, the class
  of its errors, that a configuration can be written to an environment and read back, and that neither
  errors nor logs reveal secrets.
\<close>

section \<open>Numbers\<close>

lemma digit_value_char: "d < 10 \<Longrightarrow> digit_value (digit_char d) = Some d"
  by (simp add: digit_value_def digit_char_def)

lemma scan_uint_append: "scan_uint s n (ds @ es) = bindE (scan_uint s n ds) (\<lambda>m. scan_uint s m es)"
  by (induction ds arbitrary: n) (auto split: option.splits)

lemma scan_dec_digits: "m < 2 ^ 64 \<Longrightarrow> scan_uint s 0 (dec_digits m) = Inr m"
proof (induction m rule: dec_digits.induct)
  case (1 m)
  show ?case
  proof (cases "m < 10")
    case True
    then show ?thesis by (simp add: dec_digits.simps [of m] digit_value_char)
  next
    case False
    with 1 have "scan_uint s 0 (dec_digits (m div 10)) = Inr (m div 10)" by simp
    with False 1(2) show ?thesis
      by (simp add: dec_digits.simps [of m] scan_uint_append digit_value_char)
  qed
qed

lemma dec_digits_Cons: "\<exists>c t. dec_digits n = c # t \<and> c \<noteq> CHR ''-'' \<and> c \<noteq> CHR ''+''"
proof (cases "dec_digits n")
  case Nil
  then show ?thesis by (simp add: dec_digits.simps [of n] split: if_splits)
next
  case (Cons c t)
  with dec_digits_chars [of n] have "c \<in> digit_chars" by simp
  with Cons show ?thesis by (auto simp: digit_chars_def)
qed

text \<open>Printing a number and reading it back.\<close>

lemma Atoi_itoa:
  assumes "- (2 ^ 63) \<le> i" "i < 2 ^ 63"
  shows "Atoi (itoa i) = Inr i"
proof (cases "i < 0")
  case True
  obtain c t where d: "dec_digits (nat (- i)) = c # t" using dec_digits_Cons by blast
  have "scan_uint (itoa i) 0 (dec_digits (nat (- i))) = Inr (nat (- i))"
    using assms True by (intro scan_dec_digits) simp
  with True assms d show ?thesis by (simp add: Atoi_def itoa_def)
next
  case False
  obtain c t where d: "dec_digits (nat i) = c # t" "c \<noteq> CHR ''-''" "c \<noteq> CHR ''+''" using dec_digits_Cons by blast
  have "scan_uint (itoa i) 0 (dec_digits (nat i)) = Inr (nat i)"
    using assms False by (intro scan_dec_digits) simp
  with False assms d show ?thesis by (auto simp: Atoi_def itoa_def)
qed

section \<open>The declarative specification\<close>

definition in_bounds :: "int \<Rightarrow> int \<Rightarrow> int \<Rightarrow> bool" where
  "in_bounds lo hi n \<longleftrightarrow> lo \<le> n \<and> n \<le> hi"

text \<open>A text that is short enough and free of control characters and dangerous sequences.\<close>

definition clean :: "nat \<Rightarrow> string \<Rightarrow> bool" where
  "clean n s \<longleftrightarrow> length s \<le> n \<and> \<not> containsControlChars s \<and> containsDangerousSequence s = None"

definition clean_secret :: "nat \<Rightarrow> string \<Rightarrow> bool" where
  "clean_secret n s \<longleftrightarrow> length s \<le> n \<and> isPrintableASCII s \<and> containsDangerousSequence s = None"

definition good_pachca :: "golib \<Rightarrow> pachca_config \<Rightarrow> bool" where
  "good_pachca lib p \<longleftrightarrow>
     p_Token p \<noteq> [] \<and> clean_secret 512 (p_Token p) \<and> in_bounds 1 999999999 (p_ChatID p) \<and> clean 2048 (p_BaseURL p)
     \<and> (\<exists>scheme host. gl_urlParse lib (p_BaseURL p) = Inr (scheme, host) \<and> (scheme = ''http'' \<or> scheme = ''https'') \<and> host \<noteq> [])"

definition good_email :: "golib \<Rightarrow> email_config \<Rightarrow> bool" where
  "good_email lib m \<longleftrightarrow>
     m_SMTPHost m \<noteq> [] \<and> clean 253 (m_SMTPHost m) \<and> in_bounds 1 65535 (m_SMTPPort m)
     \<and> m_From m \<noteq> [] \<and> gl_ParseAddress lib (m_From m) = None
     \<and> m_To m \<noteq> [] \<and> list_all (\<lambda>a. gl_ParseAddress lib a = None) (m_To m)
     \<and> (m_TLSMode m = ''starttls'' \<or> m_TLSMode m = ''tls'' \<or> m_TLSMode m = ''none'')
     \<and> clean_secret 512 (m_Password m) \<and> clean 128 (m_SubjectPrefix m) \<and> clean 256 (m_Username m)
     \<and> (m_Username m = [] \<longleftrightarrow> m_Password m = [])"

definition good_server :: "config \<Rightarrow> bool" where
  "good_server c \<longleftrightarrow>
     in_bounds 1 65535 (c_Port c)
     \<and> (c_LogLevel c = ''debug'' \<or> c_LogLevel c = ''info'' \<or> c_LogLevel c = ''warn'' \<or> c_LogLevel c = ''error'')
     \<and> c_DatabaseDriver c = ''sqlite'' \<and> c_DatabaseDSN c \<noteq> [] \<and> clean 2048 (c_DatabaseDSN c)
     \<and> in_bounds 1024 10485760 (c_MaxPayloadSize c) \<and> in_bounds 1 1000 (c_MaxAlertsPerPayload c)
     \<and> in_bounds 1 (5 * Minute) (c_ShutdownTimeout c) \<and> in_bounds 0 (30 * Second) (c_PreStopDelay c)"

definition good_notify :: "config \<Rightarrow> bool" where
  "good_notify c \<longleftrightarrow>
     in_bounds Second (60 * Second) (c_NotifyPollInterval c) \<and> in_bounds 1 500 (c_NotifyBatchSize c)
     \<and> in_bounds 10 10000 (c_NotifyQueueSize c) \<and> c_NotifyBatchSize c \<le> c_NotifyQueueSize c
     \<and> in_bounds (5 * Second) (120 * Second) (c_NotifySendTimeout c)
     \<and> \<not> (0 < c_PreStopDelay c \<and> c_ShutdownTimeout c \<le> c_PreStopDelay c)"

definition good_config :: "golib \<Rightarrow> config \<Rightarrow> bool" where
  "good_config lib c \<longleftrightarrow>
     good_server c \<and> good_notify c
     \<and> (p_Enabled (c_Pachca c) \<longrightarrow> good_pachca lib (c_Pachca c))
     \<and> (m_Enabled (c_Email c) \<longrightarrow> good_email lib (c_Email c))
     \<and> clean 512 (t_Dir (c_Template c))"

named_theorems check_simps \<open>when a check of the configuration passes\<close>

lemma range_check_None [check_simps]: "range_check var r n = None \<longleftrightarrow> in_bounds (fst r) (snd r) n"
  by (auto simp: range_check_def out_of_range_def in_bounds_def)

lemma duration_check_None [check_simps]: "duration_check lib var r n = None \<longleftrightarrow> in_bounds (fst r) (snd r) n"
  by (auto simp: duration_check_def out_of_range_def in_bounds_def)

lemma length_check_None [check_simps]: "length_check var n s = None \<longleftrightarrow> length s \<le> n"
  by (auto simp: length_check_def)

lemma control_check_None [check_simps]: "control_check var s = None \<longleftrightarrow> \<not> containsControlChars s"
  by (auto simp: control_check_def)

lemma dangerous_check_None [check_simps]: "dangerous_check var s = None \<longleftrightarrow> containsDangerousSequence s = None"
  by (auto simp: dangerous_check_def split: option.splits)

lemma address_check_None [check_simps]: "address_check lib var a = None \<longleftrightarrow> gl_ParseAddress lib a = None"
  by (auto simp: address_check_def split: option.splits)

lemma empty_checks [simp]: "\<not> containsControlChars []" "isPrintableASCII []" "containsDangerousSequence [] = None"
  by (simp_all add: containsControlChars_def isPrintableASCII_def containsDangerousSequence_def dangerousPatterns_def
      urlEncodedDangerous_def ToLower.simps)

lemma clean_Nil [simp]: "clean n []" "clean_secret n []"
  by (simp_all add: clean_def clean_secret_def)

lemma validatePachca_None: "validatePachca lib p = None \<longleftrightarrow> good_pachca lib p"
proof -
  have "length (p_Token p) < 1 \<longleftrightarrow> p_Token p = []" by simp
  then show ?thesis
    by (auto simp: validatePachca_def good_pachca_def check_simps clean_def clean_secret_def token_range_def chat_range_def
        maxPachcaBaseURLLen_def split: sum.splits)
qed

lemma first_error_map_None: "first_error (map f xs) = None \<longleftrightarrow> list_all (\<lambda>x. f x = None) xs"
  by (induction xs) auto

lemma first_error_if_None: "first_error (if b then cs else ds) = None \<longleftrightarrow> (if b then first_error cs = None else first_error ds = None)"
  by simp

lemmas chain_simps = first_error_append_None first_error_map_None first_error_if_None first_error_None_Cons

lemma validateEmail_None: "validateEmail lib m = None \<longleftrightarrow> good_email lib m"
  unfolding validateEmail_def email_checks_def chain_simps check_simps guard_None
  by (cases "m_Password m = []"; cases "m_Username m = []")
    (simp_all add: good_email_def clean_def clean_secret_def validTLSModes_def port_range_def maxEmailSMTPHostLen_def
      maxEmailPasswordLen_def maxEmailSubjectPrefixLen_def maxEmailUsernameLen_def conj_ac disj_ac)

lemma validate_server_None: "first_error (validate_server lib c) = None \<longleftrightarrow> good_server c"
  unfolding validate_server_def chain_simps check_simps guard_None first_error.simps
  by (simp add: good_server_def clean_def port_range_def payload_range_def alerts_range_def maxShutdownTimeout_def
      maxPreStopDelay_def maxDSNLen_def validLogLevels_def validDatabaseDrivers_def in_bounds_def int_one_le_iff_zero_less
      not_le not_less conj_ac disj_ac)

lemma validate_notify_None: "first_error (validate_notify lib c) = None \<longleftrightarrow> good_notify c"
  unfolding validate_notify_def chain_simps check_simps guard_None first_error.simps
  by (simp add: good_notify_def poll_range_def batch_range_def queue_range_def send_range_def not_less conj_ac)

lemma validate_None: "validate lib c = None \<longleftrightarrow> good_config lib c"
  unfolding validate_def chain_simps check_simps first_error.simps validate_server_None validate_notify_None
  by (cases "t_Dir (c_Template c) = []")
    (auto simp: good_config_def clean_def maxTemplateDirLen_def validatePachca_None validateEmail_None)


section \<open>Errors\<close>

lemma invalid_class [simp]: "errors_is (invalid ps) ErrInvalidConfig"
  by (simp add: invalid_def)

abbreviation config_error :: "goerr \<Rightarrow> bool" where
  "config_error e \<equiv> errors_is e ErrInvalidConfig"

lemma checks_class:
  "pred_option config_error (range_check var r n)" "pred_option config_error (duration_check lib var r d)"
  "pred_option config_error (length_check var k s)" "pred_option config_error (control_check var s)"
  "pred_option config_error (dangerous_check var s)" "pred_option config_error (address_check lib var a)"
  by (simp_all add: range_check_def duration_check_def length_check_def control_check_def dangerous_check_def
      address_check_def split: option.splits)

lemma validate_class: "pred_option config_error (validate lib c)"
proof -
  have pachca: "pred_option config_error (validatePachca lib p)" for p
    unfolding validatePachca_def
    by (rule pred_option_first_error) (auto simp: checks_class intro!: pred_option_first_error split: sum.splits)
  have email: "pred_option config_error (validateEmail lib m)" for m
    unfolding validateEmail_def email_checks_def
    by (rule pred_option_first_error) (auto simp: checks_class list_all_iff)
  show ?thesis
    unfolding validate_def
    by (rule pred_option_first_error) (simp add: checks_class pachca email validate_server_def validate_notify_def)
qed

definition fails_as_config :: "goerr + 'a \<Rightarrow> bool" where
  "fails_as_config r \<longleftrightarrow> (\<forall>e. r = Inl e \<longrightarrow> config_error e)"

lemma fails_bindE: "fails_as_config r \<Longrightarrow> (\<And>a. fails_as_config (f a)) \<Longrightarrow> fails_as_config (bindE r f)"
  by (auto simp: fails_as_config_def bindE_Inl)

lemma load_fails:
  "fails_as_config (load_int lib getenv var upd c)" "fails_as_config (load_duration lib getenv var updd c)"
  "fails_as_config (load_string getenv var upds c)"
  by (auto simp: fails_as_config_def load_int_def load_duration_def load_string_def bad_value_def Let_def
      split: sum.splits if_splits)

lemma Load_good: "Load lib getenv = Inr c \<Longrightarrow> good_config lib c"
  by (auto simp: Load_def bindE_Inr Let_def validate_None split: option.splits)

text \<open>C23: Whatever the environment holds, \<open>Load\<close> gives a configuration that satisfies the specification, or
  an error that is \<open>ErrInvalidConfig\<close> for \<open>errors.Is\<close>: nothing else, and never a panic.\<close>

theorem Load_total:
  "case Load lib getenv of Inl e \<Rightarrow> errors_is e ErrInvalidConfig | Inr c \<Rightarrow> good_config lib c"
proof -
  have t: "fails_as_config (load_template getenv c)" for c
    unfolding load_template_def by (intro fails_bindE load_fails) (auto simp: fails_as_config_def Let_def)
  have f: "fails_as_config (Load lib getenv)"
    unfolding Load_def load_server_def load_pachca_def load_email_def
    by (intro fails_bindE load_fails t)
      (auto simp: fails_as_config_def Let_def dest: pred_optionD [OF validate_class] split: option.splits)
  then show ?thesis using Load_good by (auto simp: fails_as_config_def split: sum.splits)
qed

section \<open>Writing a configuration to an environment\<close>

text \<open>White space for a text that is empty: an empty variable would leave the default.\<close>

definition blank :: "string \<Rightarrow> string" where
  "blank s = (if s = [] then '' '' else s)"

definition environment_of :: "golib \<Rightarrow> config \<Rightarrow> string \<Rightarrow> string" where
  "environment_of lib c = mget
     [(''PORT'', itoa (c_Port c)), (''LOG_LEVEL'', c_LogLevel c),
      (''SHUTDOWN_TIMEOUT'', gl_DurationString lib (c_ShutdownTimeout c)),
      (''PRE_STOP_DELAY'', gl_DurationString lib (c_PreStopDelay c)),
      (''DATABASE_DRIVER'', c_DatabaseDriver c), (''DATABASE_DSN'', c_DatabaseDSN c),
      (''MAX_PAYLOAD_SIZE'', itoa (c_MaxPayloadSize c)), (''MAX_ALERTS_PER_PAYLOAD'', itoa (c_MaxAlertsPerPayload c)),
      (''NOTIFY_POLL_INTERVAL'', gl_DurationString lib (c_NotifyPollInterval c)),
      (''NOTIFY_BATCH_SIZE'', itoa (c_NotifyBatchSize c)), (''NOTIFY_QUEUE_SIZE'', itoa (c_NotifyQueueSize c)),
      (''NOTIFY_SEND_TIMEOUT'', gl_DurationString lib (c_NotifySendTimeout c)),
      (''PACHCA_TOKEN'', p_Token (c_Pachca c)), (''PACHCA_BASE_URL'', blank (p_BaseURL (c_Pachca c))),
      (''PACHCA_CHAT_ID'', itoa (p_ChatID (c_Pachca c))),
      (''EMAIL_SMTP_HOST'', m_SMTPHost (c_Email c)), (''EMAIL_SMTP_PORT'', itoa (m_SMTPPort (c_Email c))),
      (''EMAIL_FROM'', m_From (c_Email c)), (''EMAIL_TO'', Join (m_To (c_Email c)) '',''),
      (''EMAIL_USERNAME'', m_Username (c_Email c)), (''EMAIL_PASSWORD'', m_Password (c_Email c)),
      (''EMAIL_TLS_MODE'', blank (m_TLSMode (c_Email c))), (''EMAIL_SUBJECT_PREFIX'', blank (m_SubjectPrefix (c_Email c))),
      (''TEMPLATE_DIR'', t_Dir (c_Template c)),
      (''TEMPLATE_RELOAD'', if t_ReloadEnabled (c_Template c) then ''true'' else ''false'')]"

text \<open>The configurations that an environment can express: normalized, with the channels enabled that are
  configured, and with recipients that the comma-separated list can hold.\<close>

definition expressible :: "config \<Rightarrow> bool" where
  "expressible c \<longleftrightarrow>
     normalize c = c \<and> (p_Enabled (c_Pachca c) \<longleftrightarrow> p_Token (c_Pachca c) \<noteq> [])
     \<and> (m_Enabled (c_Email c) \<longleftrightarrow> m_SMTPHost (c_Email c) \<noteq> [])
     \<and> list_all (\<lambda>a. a \<noteq> [] \<and> CHR '','' \<notin> set a) (m_To (c_Email c))
     \<and> in_bounds (- (2 ^ 63)) (2 ^ 63 - 1) (p_ChatID (c_Pachca c))
     \<and> in_bounds (- (2 ^ 63)) (2 ^ 63 - 1) (m_SMTPPort (c_Email c))"

definition durations_readable :: "golib \<Rightarrow> bool" where
  "durations_readable lib \<longleftrightarrow> (\<forall>d. gl_DurationString lib d \<noteq> [] \<and> (in_bounds 0 (5 * Minute) d \<longrightarrow> gl_ParseDuration lib (gl_DurationString lib d) = Inr d))"

lemma trim_blank: "TrimSpace s = s \<Longrightarrow> TrimSpace (blank s) = s" "lower_trim s = s \<Longrightarrow> lower_trim (blank s) = s"
proof -
  have "TrimSpace '' '' = []" by code_simp
  then show "TrimSpace s = s \<Longrightarrow> TrimSpace (blank s) = s" "lower_trim s = s \<Longrightarrow> lower_trim (blank s) = s"
    by (auto simp: blank_def lower_trim_def ToLower.simps)
qed

lemma url_blank: "TrimRight (TrimSpace s) cs = s \<Longrightarrow> TrimRight (TrimSpace (blank s)) cs = s"
proof -
  have "TrimSpace '' '' = []" by code_simp
  then show "TrimRight (TrimSpace s) cs = s \<Longrightarrow> TrimRight (TrimSpace (blank s)) cs = s"
    by (auto simp: blank_def TrimRight_def)
qed

lemma blank_not_Nil [simp]: "blank s \<noteq> []"
  by (simp add: blank_def)

lemma split_recipients_Join:
  assumes "list_all (\<lambda>a. a \<noteq> [] \<and> CHR '','' \<notin> set a) to" "map TrimSpace to = to" "to \<noteq> []"
  shows "split_recipients (Join to '','') = to"
proof -
  have "list_all (\<lambda>p. CHR '','' \<notin> set p) to" using assms(1) by (auto simp: list_all_iff)
  with assms show ?thesis by (simp add: split_recipients_def Split_Join list_all_iff)
qed

lemma Join_Nil_iff: "list_all (\<lambda>a. a \<noteq> []) to \<Longrightarrow> Join to sep = [] \<longleftrightarrow> to = []"
  by (induction to sep rule: Join.induct) auto

lemma Atoi_in_bounds: "in_bounds lo hi n \<Longrightarrow> - (2 ^ 63) \<le> lo \<Longrightarrow> hi < 2 ^ 63 \<Longrightarrow> Atoi (itoa n) = Inr n"
  by (rule Atoi_itoa) (auto simp: in_bounds_def)

lemma duration_in_bounds:
  "durations_readable lib \<Longrightarrow> in_bounds lo hi d \<Longrightarrow> 0 \<le> lo \<Longrightarrow> hi \<le> 5 * Minute \<Longrightarrow>
     gl_ParseDuration lib (gl_DurationString lib d) = Inr d"
  by (auto simp: durations_readable_def in_bounds_def)

lemma load_server_environment:
  assumes "good_config lib c" "durations_readable lib"
  shows "load_server lib (environment_of lib c) c0 = Inr (c\<lparr>c_Pachca := c_Pachca c0, c_Email := c_Email c0, c_Template := c_Template c0\<rparr>)"
proof -
  let ?env = "environment_of lib c"
  note g = assms(1) [unfolded good_config_def good_server_def good_notify_def]
  have env: "?env ''PORT'' = itoa (c_Port c)" "?env ''LOG_LEVEL'' = c_LogLevel c"
    "?env ''SHUTDOWN_TIMEOUT'' = gl_DurationString lib (c_ShutdownTimeout c)"
    "?env ''PRE_STOP_DELAY'' = gl_DurationString lib (c_PreStopDelay c)"
    "?env ''DATABASE_DRIVER'' = c_DatabaseDriver c" "?env ''DATABASE_DSN'' = c_DatabaseDSN c"
    "?env ''MAX_PAYLOAD_SIZE'' = itoa (c_MaxPayloadSize c)" "?env ''MAX_ALERTS_PER_PAYLOAD'' = itoa (c_MaxAlertsPerPayload c)"
    "?env ''NOTIFY_POLL_INTERVAL'' = gl_DurationString lib (c_NotifyPollInterval c)"
    "?env ''NOTIFY_BATCH_SIZE'' = itoa (c_NotifyBatchSize c)" "?env ''NOTIFY_QUEUE_SIZE'' = itoa (c_NotifyQueueSize c)"
    "?env ''NOTIFY_SEND_TIMEOUT'' = gl_DurationString lib (c_NotifySendTimeout c)"
    by (simp_all add: environment_of_def)
  have b: "in_bounds 1 65535 (c_Port c)" "in_bounds 1024 10485760 (c_MaxPayloadSize c)" "in_bounds 1 1000 (c_MaxAlertsPerPayload c)"
    "in_bounds 1 500 (c_NotifyBatchSize c)" "in_bounds 10 10000 (c_NotifyQueueSize c)"
    "in_bounds 1 (5 * Minute) (c_ShutdownTimeout c)" "in_bounds 0 (30 * Second) (c_PreStopDelay c)"
    "in_bounds Second (60 * Second) (c_NotifyPollInterval c)" "in_bounds (5 * Second) (120 * Second) (c_NotifySendTimeout c)"
    using g by simp_all
  have ints: "Atoi (itoa (c_Port c)) = Inr (c_Port c)" "Atoi (itoa (c_MaxPayloadSize c)) = Inr (c_MaxPayloadSize c)"
    "Atoi (itoa (c_MaxAlertsPerPayload c)) = Inr (c_MaxAlertsPerPayload c)"
    "Atoi (itoa (c_NotifyBatchSize c)) = Inr (c_NotifyBatchSize c)" "Atoi (itoa (c_NotifyQueueSize c)) = Inr (c_NotifyQueueSize c)"
    by (rule Atoi_in_bounds, rule b, simp, simp)+
  have durs: "gl_ParseDuration lib (gl_DurationString lib (c_ShutdownTimeout c)) = Inr (c_ShutdownTimeout c)"
    "gl_ParseDuration lib (gl_DurationString lib (c_PreStopDelay c)) = Inr (c_PreStopDelay c)"
    "gl_ParseDuration lib (gl_DurationString lib (c_NotifyPollInterval c)) = Inr (c_NotifyPollInterval c)"
    "gl_ParseDuration lib (gl_DurationString lib (c_NotifySendTimeout c)) = Inr (c_NotifySendTimeout c)"
    by (rule duration_in_bounds [OF assms(2)], rule b, simp, simp)+
  have durs_set: "gl_DurationString lib d \<noteq> []" for d using assms(2) by (simp add: durations_readable_def)
  have strs: "c_LogLevel c \<noteq> []" "c_DatabaseDriver c \<noteq> []" "c_DatabaseDSN c \<noteq> []" using g by auto
  have step_int: "load_int lib ?env var upd x = Inr (upd n x)" if "?env var = itoa n" "Atoi (itoa n) = Inr n" for var upd n x
    using that by (simp add: load_int_def)
  have step_dur: "load_duration lib ?env var upd x = Inr (upd d x)"
    if "?env var = gl_DurationString lib d" "gl_ParseDuration lib (gl_DurationString lib d) = Inr d" for var upd d x
    using that durs_set by (simp add: load_duration_def)
  have step_str: "load_string ?env var upd x = Inr (upd s x)" if "?env var = s" "s \<noteq> []" for var upd s x
    using that by (simp add: load_string_def)
  note steps = step_int [OF env(1) ints(1)] step_str [OF env(2) strs(1)] step_dur [OF env(3) durs(1)]
    step_dur [OF env(4) durs(2)] step_str [OF env(5) strs(2)] step_str [OF env(6) strs(3)]
    step_int [OF env(7) ints(2)] step_int [OF env(8) ints(3)] step_dur [OF env(9) durs(3)]
    step_int [OF env(10) ints(4)] step_int [OF env(11) ints(5)] step_dur [OF env(12) durs(4)]
  show ?thesis by (simp only: load_server_def steps bindE_simps) simp
qed

lemma load_pachca_environment:
  assumes "in_bounds (- (2 ^ 63)) (2 ^ 63 - 1) (p_ChatID (c_Pachca c))"
  shows "load_pachca lib (environment_of lib c) x =
    Inr (x\<lparr>c_Pachca := \<lparr>p_Enabled = p_Enabled (c_Pachca x) \<or> p_Token (c_Pachca c) \<noteq> [], p_BaseURL = blank (p_BaseURL (c_Pachca c)),
      p_Token = (if p_Token (c_Pachca c) = [] then p_Token (c_Pachca x) else p_Token (c_Pachca c)),
      p_ChatID = p_ChatID (c_Pachca c)\<rparr>\<rparr>)"
proof -
  let ?env = "environment_of lib c"
  have env: "?env ''PACHCA_TOKEN'' = p_Token (c_Pachca c)" "?env ''PACHCA_BASE_URL'' = blank (p_BaseURL (c_Pachca c))"
    "?env ''PACHCA_CHAT_ID'' = itoa (p_ChatID (c_Pachca c))"
    by (simp_all add: environment_of_def)
  have "Atoi (itoa (p_ChatID (c_Pachca c))) = Inr (p_ChatID (c_Pachca c))"
    by (rule Atoi_in_bounds [OF assms]) simp_all
  then show ?thesis
    by (simp add: load_pachca_def load_string_def load_int_def env)
qed

lemma load_email_environment:
  assumes "in_bounds (- (2 ^ 63)) (2 ^ 63 - 1) (m_SMTPPort (c_Email c))"
    and "list_all (\<lambda>a. a \<noteq> [] \<and> CHR '','' \<notin> set a) (m_To (c_Email c))" "map TrimSpace (m_To (c_Email c)) = m_To (c_Email c)"
  shows "load_email lib (environment_of lib c) (x\<lparr>c_Email := c_Email default_config\<rparr>) =
    Inr (x\<lparr>c_Email := (c_Email c)\<lparr>m_Enabled := m_SMTPHost (c_Email c) \<noteq> [], m_TLSMode := blank (m_TLSMode (c_Email c)),
      m_SubjectPrefix := blank (m_SubjectPrefix (c_Email c))\<rparr>\<rparr>)"
proof -
  let ?env = "environment_of lib c"
  have env: "?env ''EMAIL_SMTP_HOST'' = m_SMTPHost (c_Email c)" "?env ''EMAIL_SMTP_PORT'' = itoa (m_SMTPPort (c_Email c))"
    "?env ''EMAIL_FROM'' = m_From (c_Email c)" "?env ''EMAIL_TO'' = Join (m_To (c_Email c)) '',''"
    "?env ''EMAIL_USERNAME'' = m_Username (c_Email c)" "?env ''EMAIL_PASSWORD'' = m_Password (c_Email c)"
    "?env ''EMAIL_TLS_MODE'' = blank (m_TLSMode (c_Email c))" "?env ''EMAIL_SUBJECT_PREFIX'' = blank (m_SubjectPrefix (c_Email c))"
    by (simp_all add: environment_of_def)
  have port: "Atoi (itoa (m_SMTPPort (c_Email c))) = Inr (m_SMTPPort (c_Email c))"
    by (rule Atoi_in_bounds [OF assms(1)]) simp_all
  have "list_all (\<lambda>a. a \<noteq> []) (m_To (c_Email c))" using assms(2) by (auto simp: list_all_iff)
  then have join: "Join (m_To (c_Email c)) '','' = [] \<longleftrightarrow> m_To (c_Email c) = []" by (rule Join_Nil_iff)
  have int: "load_int lib ?env ''EMAIL_SMTP_PORT'' upd y = Inr (upd (m_SMTPPort (c_Email c)) y)" for upd y
    using port env(2) by (simp add: load_int_def)
  have host: "load_string ?env ''EMAIL_SMTP_HOST'' (\<lambda>v. set_email (\<lambda>m. m\<lparr>m_SMTPHost := v, m_Enabled := True\<rparr>)) y
      = Inr (set_email (\<lambda>m. m\<lparr>m_SMTPHost := (if m_SMTPHost (c_Email c) = [] then m_SMTPHost m else m_SMTPHost (c_Email c)),
               m_Enabled := m_Enabled m \<or> m_SMTPHost (c_Email c) \<noteq> []\<rparr>) y)" for y
    by (simp add: load_string_def env)
  have to_step: "load_string ?env ''EMAIL_TO'' (\<lambda>v. set_email (\<lambda>m. m\<lparr>m_To := split_recipients v\<rparr>)) y
      = Inr (set_email (\<lambda>m. m\<lparr>m_To := (if m_To (c_Email c) = [] then m_To m else m_To (c_Email c))\<rparr>) y)" for y
  proof (cases "m_To (c_Email c) = []")
    case True
    then show ?thesis by (simp add: load_string_def env)
  next
    case False
    with split_recipients_Join [OF assms(2,3)] join show ?thesis by (simp add: load_string_def env)
  qed
  have strs: "load_string ?env ''EMAIL_FROM'' (\<lambda>v. set_email (\<lambda>m. m\<lparr>m_From := v\<rparr>)) y
      = Inr (set_email (\<lambda>m. m\<lparr>m_From := (if m_From (c_Email c) = [] then m_From m else m_From (c_Email c))\<rparr>) y)"
    "load_string ?env ''EMAIL_USERNAME'' (\<lambda>v. set_email (\<lambda>m. m\<lparr>m_Username := v\<rparr>)) y
      = Inr (set_email (\<lambda>m. m\<lparr>m_Username := (if m_Username (c_Email c) = [] then m_Username m else m_Username (c_Email c))\<rparr>) y)"
    "load_string ?env ''EMAIL_PASSWORD'' (\<lambda>v. set_email (\<lambda>m. m\<lparr>m_Password := v\<rparr>)) y
      = Inr (set_email (\<lambda>m. m\<lparr>m_Password := (if m_Password (c_Email c) = [] then m_Password m else m_Password (c_Email c))\<rparr>) y)"
    "load_string ?env ''EMAIL_TLS_MODE'' (\<lambda>v. set_email (\<lambda>m. m\<lparr>m_TLSMode := v\<rparr>)) y
      = Inr (set_email (\<lambda>m. m\<lparr>m_TLSMode := blank (m_TLSMode (c_Email c))\<rparr>) y)"
    "load_string ?env ''EMAIL_SUBJECT_PREFIX'' (\<lambda>v. set_email (\<lambda>m. m\<lparr>m_SubjectPrefix := v\<rparr>)) y
      = Inr (set_email (\<lambda>m. m\<lparr>m_SubjectPrefix := blank (m_SubjectPrefix (c_Email c))\<rparr>) y)" for y
    by (simp_all add: load_string_def env)
  have email: "c_Email default_config = \<lparr>m_Enabled = False, m_SMTPHost = [], m_SMTPPort = 587, m_From = [], m_To = [],
      m_Username = [], m_Password = [], m_TLSMode = ''starttls'', m_SubjectPrefix = ''[Alert]''\<rparr>"
    by (simp add: default_config_def)
  show ?thesis
    unfolding load_email_def int host to_step strs bindE_simps email
    by (cases "c_Email c") simp
qed

lemma load_template_environment:
  "load_template (environment_of lib c) (x\<lparr>c_Template := c_Template default_config\<rparr>) = Inr (x\<lparr>c_Template := c_Template c\<rparr>)"
proof -
  let ?env = "environment_of lib c"
  have env: "?env ''TEMPLATE_DIR'' = t_Dir (c_Template c)"
    "?env ''TEMPLATE_RELOAD'' = (if t_ReloadEnabled (c_Template c) then ''true'' else ''false'')"
    by (simp_all add: environment_of_def)
  obtain d r where c: "c_Template c = \<lparr>t_Dir = d, t_ReloadEnabled = r\<rparr>" by (cases "c_Template c")
  have d: "c_Template default_config = \<lparr>t_Dir = [], t_ReloadEnabled = False\<rparr>" by (simp add: default_config_def)
  show ?thesis
    by (cases "d = []"; cases r) (simp_all add: load_template_def load_string_def env c d)
qed

text \<open>The configuration as it comes out of the environment, before it is normalized.\<close>

definition unnormalized :: "config \<Rightarrow> config" where
  "unnormalized c =
     c\<lparr>c_Pachca := (c_Pachca c)\<lparr>p_BaseURL := blank (p_BaseURL (c_Pachca c))\<rparr>,
       c_Email := (c_Email c)\<lparr>m_TLSMode := blank (m_TLSMode (c_Email c)), m_SubjectPrefix := blank (m_SubjectPrefix (c_Email c))\<rparr>\<rparr>"

lemma normalize_unnormalized:
  assumes "normalize c = c"
  shows "normalize (unnormalized c) = c"
proof -
  have p: "normalize_pachca (c_Pachca c) = c_Pachca c" and m: "normalize_email (c_Email c) = c_Email c"
    using arg_cong [OF assms, of c_Pachca] arg_cong [OF assms, of c_Email] by (simp_all add: normalize_def)
  have base: "TrimRight (TrimSpace (p_BaseURL (c_Pachca c))) ''/'' = p_BaseURL (c_Pachca c)"
    using arg_cong [OF p, of p_BaseURL] by (simp add: normalize_pachca_def)
  have tls: "lower_trim (m_TLSMode (c_Email c)) = m_TLSMode (c_Email c)"
    and subject: "TrimSpace (m_SubjectPrefix (c_Email c)) = m_SubjectPrefix (c_Email c)"
    using arg_cong [OF m, of m_TLSMode] arg_cong [OF m, of m_SubjectPrefix] by (simp_all add: normalize_email_def)
  have "normalize_pachca (c_Pachca (unnormalized c)) = normalize_pachca (c_Pachca c)"
    by (simp add: normalize_pachca_def unnormalized_def base url_blank [OF base])
  moreover have "normalize_email (c_Email (unnormalized c)) = normalize_email (c_Email c)"
    by (simp add: normalize_email_def unnormalized_def tls subject trim_blank)
  ultimately have "normalize (unnormalized c) = normalize c"
    by (simp add: normalize_def) (simp add: unnormalized_def)
  with assms show ?thesis by simp
qed

lemma Load_environment:
  assumes "good_config lib c" "expressible c" "durations_readable lib"
  shows "Load lib (environment_of lib c) = Inr c"
proof -
  let ?env = "environment_of lib c"
  note e = assms(2) [unfolded expressible_def]
  have n: "normalize c = c" using e by blast
  then have "c_Email (normalize c) = c_Email c" by simp
  then have "m_To (normalize_email (c_Email c)) = m_To (c_Email c)" by (simp add: normalize_def)
  then have to: "map TrimSpace (m_To (c_Email c)) = m_To (c_Email c)" by (simp add: normalize_email_def)
  let ?c1 = "c\<lparr>c_Pachca := c_Pachca default_config, c_Email := c_Email default_config, c_Template := c_Template default_config\<rparr>"
  let ?c2 = "?c1\<lparr>c_Pachca := c_Pachca (unnormalized c)\<rparr>"
  let ?c3 = "?c2\<lparr>c_Email := c_Email (unnormalized c)\<rparr>"
  have 1: "load_server lib ?env default_config = Inr ?c1"
    by (rule load_server_environment [OF assms(1,3)])
  have 2: "load_pachca lib ?env ?c1 = Inr ?c2"
    using e by (subst load_pachca_environment) (cases "c_Pachca c"; auto simp: default_config_def unnormalized_def)+
  have 3: "load_email lib ?env ?c2 = Inr ?c3"
  proof -
    have "load_email lib ?env ?c2 = load_email lib ?env (?c2\<lparr>c_Email := c_Email default_config\<rparr>)"
      by (rule arg_cong [of _ _ "load_email lib ?env"]) simp
    also have "\<dots> = Inr ?c3"
      using e to by (subst load_email_environment) (cases "c_Email c"; simp add: unnormalized_def)+
    finally show ?thesis .
  qed
  have 4: "load_template ?env ?c3 = Inr (unnormalized c)"
  proof -
    have "load_template ?env ?c3 = load_template ?env (?c3\<lparr>c_Template := c_Template default_config\<rparr>)"
      by (rule arg_cong [of _ _ "load_template ?env"]) simp
    also have "\<dots> = Inr (?c3\<lparr>c_Template := c_Template c\<rparr>)" by (rule load_template_environment)
    also have "?c3\<lparr>c_Template := c_Template c\<rparr> = unnormalized c" by (simp add: unnormalized_def)
    finally show ?thesis .
  qed
  show ?thesis
    unfolding Load_def 1 bindE_simps 2 3 4 Let_def normalize_unnormalized [OF n]
    by (simp add: validate_None [THEN iffD2, OF assms(1)])
qed

text \<open>C10: A configuration that satisfies the specification and that environment variables can express is read
  back exactly as it was from the environment that spells it out: no setting is lost, defaulted over or mixed
  up with another.\<close>

theorem config_roundtrip:
  assumes "good_config lib c" "expressible c" "durations_readable lib"
  shows "Load lib (environment_of lib c) = Inr c"
  by (rule Load_environment [OF assms])

text \<open>A library whose durations are plain numbers of nanoseconds and that takes any address and URL.\<close>

definition demo_lib :: golib where
  "demo_lib = \<lparr>gl_quote = (\<lambda>s. s), gl_ParseDuration = Atoi, gl_DurationString = itoa,
     gl_urlParse = (\<lambda>_. Inr (''https'', ''h'')), gl_ParseAddress = (\<lambda>_. None)\<rparr>"

definition demo_settings :: config where
  "demo_settings = default_config\<lparr>
     c_Pachca := \<lparr>p_Enabled = True, p_BaseURL = ''https://h'', p_Token = ''tok'', p_ChatID = 7\<rparr>,
     c_Email := \<lparr>m_Enabled = True, m_SMTPHost = ''mail'', m_SMTPPort = 25, m_From = ''a@b'', m_To = [''c@d'', ''e@f''],
       m_Username = [], m_Password = [], m_TLSMode = ''none'', m_SubjectPrefix = []\<rparr>\<rparr>"

lemma demo_durations: "durations_readable demo_lib"
  by (auto simp: durations_readable_def demo_lib_def in_bounds_def intro!: Atoi_itoa)

lemma clean_by_computation:
  "clean 2048 ''data/alerts.db''" "clean 2048 ''https://h''" "clean 253 ''mail''" "clean_secret 512 ''tok''"
  by (simp_all add: clean_def clean_secret_def) code_simp+

lemma demo_good: "good_config demo_lib demo_settings"
  by (simp add: good_config_def good_server_def good_notify_def good_pachca_def good_email_def demo_settings_def
      default_config_def in_bounds_def clean_by_computation demo_lib_def)

lemma demo_expressible: "expressible demo_settings"
proof -
  have "normalize demo_settings = demo_settings" by code_simp
  then show ?thesis by (simp add: expressible_def) (simp add: demo_settings_def in_bounds_def)
qed

lemma demo_load: "Load demo_lib (environment_of demo_lib demo_settings) = Inr demo_settings"
  by (rule Load_environment [OF demo_good demo_expressible demo_durations])

theorem config_roundtrip_witness: "Load demo_lib (environment_of demo_lib demo_settings) = Inr demo_settings"
  by (rule config_roundtrip [OF demo_good demo_expressible demo_durations])

section \<open>Secrets\<close>

text \<open>What may become known of a secret: its length, and which of the checks it fails.\<close>

definition same_shape :: "string \<Rightarrow> string \<Rightarrow> bool" where
  "same_shape s t \<longleftrightarrow>
     length s = length t \<and> isPrintableASCII s = isPrintableASCII t \<and> containsControlChars s = containsControlChars t
     \<and> containsDangerousSequence s = containsDangerousSequence t"

definition secret_vars :: "string list" where
  "secret_vars = [''DATABASE_DSN'', ''PACHCA_TOKEN'', ''EMAIL_PASSWORD'']"

text \<open>Two environments that differ in the secrets only, and there only within the same shape.\<close>

definition same_public :: "(string \<Rightarrow> string) \<Rightarrow> (string \<Rightarrow> string) \<Rightarrow> bool" where
  "same_public env1 env2 \<longleftrightarrow>
     (\<forall>v. if v \<in> set secret_vars
          then (env1 v = [] \<longleftrightarrow> env2 v = []) \<and> same_shape (TrimSpace (env1 v)) (TrimSpace (env2 v))
          else env1 v = env2 v)"

text \<open>The same relation between configurations: equal once the secrets are blanked out.\<close>

definition public :: "config \<Rightarrow> config" where
  "public c = c\<lparr>c_DatabaseDSN := [], c_Pachca := (c_Pachca c)\<lparr>p_Token := []\<rparr>, c_Email := (c_Email c)\<lparr>m_Password := []\<rparr>\<rparr>"

definition alike :: "config \<Rightarrow> config \<Rightarrow> bool" where
  "alike c d \<longleftrightarrow>
     public c = public d
     \<and> same_shape (TrimSpace (c_DatabaseDSN c)) (TrimSpace (c_DatabaseDSN d))
     \<and> same_shape (TrimSpace (p_Token (c_Pachca c))) (TrimSpace (p_Token (c_Pachca d)))
     \<and> same_shape (TrimSpace (m_Password (c_Email c))) (TrimSpace (m_Password (c_Email d)))"

lemma same_shape_refl [simp]: "same_shape s s"
  by (simp add: same_shape_def)

lemma same_shape_Nil: "same_shape s t \<Longrightarrow> s = [] \<longleftrightarrow> t = []"
  by (auto simp: same_shape_def)

lemma alike_refl [simp]: "alike c c"
  by (simp add: alike_def)

lemma public_fields:
  assumes "public c = public d"
  shows "c_Port c = c_Port d" "c_LogLevel c = c_LogLevel d" "c_ShutdownTimeout c = c_ShutdownTimeout d"
    "c_PreStopDelay c = c_PreStopDelay d" "c_DatabaseDriver c = c_DatabaseDriver d" "c_MaxPayloadSize c = c_MaxPayloadSize d"
    "c_MaxAlertsPerPayload c = c_MaxAlertsPerPayload d" "c_NotifyPollInterval c = c_NotifyPollInterval d"
    "c_NotifyBatchSize c = c_NotifyBatchSize d" "c_NotifyQueueSize c = c_NotifyQueueSize d"
    "c_NotifySendTimeout c = c_NotifySendTimeout d" "p_Enabled (c_Pachca c) = p_Enabled (c_Pachca d)"
    "p_BaseURL (c_Pachca c) = p_BaseURL (c_Pachca d)" "p_ChatID (c_Pachca c) = p_ChatID (c_Pachca d)"
    "m_Enabled (c_Email c) = m_Enabled (c_Email d)" "m_SMTPHost (c_Email c) = m_SMTPHost (c_Email d)"
    "m_SMTPPort (c_Email c) = m_SMTPPort (c_Email d)" "m_From (c_Email c) = m_From (c_Email d)" "m_To (c_Email c) = m_To (c_Email d)"
    "m_Username (c_Email c) = m_Username (c_Email d)" "m_TLSMode (c_Email c) = m_TLSMode (c_Email d)"
    "m_SubjectPrefix (c_Email c) = m_SubjectPrefix (c_Email d)" "c_Template c = c_Template d"
  using assms by (cases c; cases d; cases "c_Pachca c"; cases "c_Pachca d"; cases "c_Email c"; cases "c_Email d"; simp add: public_def)+

lemma shape_checks:
  assumes "same_shape s t"
  shows "length s = length t" "length_check v n s = length_check v n t" "control_check v s = control_check v t"
    "dangerous_check v s = dangerous_check v t" "isPrintableASCII s = isPrintableASCII t" "s = [] \<longleftrightarrow> t = []"
  using assms by (auto simp: same_shape_def length_check_def control_check_def dangerous_check_def)

lemma checks_public:
  assumes "public c = public d" "same_shape (c_DatabaseDSN c) (c_DatabaseDSN d)"
    "same_shape (p_Token (c_Pachca c)) (p_Token (c_Pachca d))" "same_shape (m_Password (c_Email c)) (m_Password (c_Email d))"
  shows "validate_server lib c = validate_server lib d" "validate_notify lib c = validate_notify lib d"
    "validatePachca lib (c_Pachca c) = validatePachca lib (c_Pachca d)" "email_checks lib (c_Email c) = email_checks lib (c_Email d)"
    "validate lib c = validate lib d"
proof -
  note f = public_fields [OF assms(1)]
  show server: "validate_server lib c = validate_server lib d"
    by (simp add: validate_server_def f shape_checks [OF assms(2)])
  show notify: "validate_notify lib c = validate_notify lib d"
    by (simp add: validate_notify_def f)
  show pachca: "validatePachca lib (c_Pachca c) = validatePachca lib (c_Pachca d)"
    unfolding validatePachca_def f shape_checks [OF assms(3)] by (rule refl)
  show email: "email_checks lib (c_Email c) = email_checks lib (c_Email d)"
    by (simp add: email_checks_def f shape_checks [OF assms(4)])
  show "validate lib c = validate lib d"
    using server notify pachca email by (simp add: validate_def validateEmail_def f)
qed

lemma LogValue_public: "public c = public d \<Longrightarrow> LogValue lib c = LogValue lib d"
  by (simp add: LogValue_def public_fields [of c d])

lemma TrimSpace_Nil [simp]: "TrimSpace [] = []"
  by code_simp

lemma public_normalize: "public (normalize c) = normalize (public c)"
  by (simp add: public_def normalize_def normalize_pachca_def normalize_email_def)

lemma alike_normalize:
  assumes "alike c d"
  shows "public (normalize c) = public (normalize d)"
    "same_shape (c_DatabaseDSN (normalize c)) (c_DatabaseDSN (normalize d))"
    "same_shape (p_Token (c_Pachca (normalize c))) (p_Token (c_Pachca (normalize d)))"
    "same_shape (m_Password (c_Email (normalize c))) (m_Password (c_Email (normalize d)))"
proof -
  show "public (normalize c) = public (normalize d)" using assms by (simp add: public_normalize alike_def)
qed (use assms in \<open>simp_all add: alike_def normalize_def normalize_pachca_def normalize_email_def\<close>)

text \<open>Every step of \<open>Load\<close> keeps two runs alike, and fails in both with the same error or in neither.\<close>

abbreviation alike_results :: "goerr + config \<Rightarrow> goerr + config \<Rightarrow> bool" where
  "alike_results \<equiv> rel_sum (=) alike"

lemma alike_bindE:
  "alike_results x y \<Longrightarrow> (\<And>a b. alike a b \<Longrightarrow> rel_sum (=) S (f a) (g b)) \<Longrightarrow> rel_sum (=) S (bindE x f) (bindE y g)"
  by (cases x; cases y) auto

lemma public_env: "same_public env1 env2 \<Longrightarrow> var \<notin> set secret_vars \<Longrightarrow> env2 var = env1 var"
  by (simp add: same_public_def)

lemma secret_env:
  "same_public env1 env2 \<Longrightarrow> var \<in> set secret_vars \<Longrightarrow>
     (env1 var = [] \<longleftrightarrow> env2 var = []) \<and> same_shape (TrimSpace (env1 var)) (TrimSpace (env2 var))"
  by (metis same_public_def)

lemma alike_loads:
  assumes "same_public env1 env2" "alike c d" "var \<notin> set secret_vars"
  shows "(\<And>n c d. alike c d \<Longrightarrow> alike (upd n c) (upd n d)) \<Longrightarrow> alike_results (load_int lib env1 var upd c) (load_int lib env2 var upd d)"
    "(\<And>n c d. alike c d \<Longrightarrow> alike (upd n c) (upd n d)) \<Longrightarrow> alike_results (load_duration lib env1 var upd c) (load_duration lib env2 var upd d)"
    "(\<And>s c d. alike c d \<Longrightarrow> alike (upds s c) (upds s d)) \<Longrightarrow> alike_results (load_string env1 var upds c) (load_string env2 var upds d)"
  using assms by (auto simp: load_int_def load_duration_def load_string_def Let_def public_env split: sum.splits)

lemma alike_secrets:
  assumes "same_public env1 env2" "alike c d"
  shows "alike_results (load_string env1 ''DATABASE_DSN'' (\<lambda>v c. c\<lparr>c_DatabaseDSN := v\<rparr>) c) (load_string env2 ''DATABASE_DSN'' (\<lambda>v c. c\<lparr>c_DatabaseDSN := v\<rparr>) d)"
    "alike_results (load_string env1 ''PACHCA_TOKEN'' (\<lambda>v. set_pachca (\<lambda>p. p\<lparr>p_Token := v, p_Enabled := True\<rparr>)) c)
                   (load_string env2 ''PACHCA_TOKEN'' (\<lambda>v. set_pachca (\<lambda>p. p\<lparr>p_Token := v, p_Enabled := True\<rparr>)) d)"
    "alike_results (load_string env1 ''EMAIL_PASSWORD'' (\<lambda>v. set_email (\<lambda>m. m\<lparr>m_Password := v\<rparr>)) c)
                   (load_string env2 ''EMAIL_PASSWORD'' (\<lambda>v. set_email (\<lambda>m. m\<lparr>m_Password := v\<rparr>)) d)"
proof -
  note s = secret_env [OF assms(1)]
  have vars: "''DATABASE_DSN'' \<in> set secret_vars" "''PACHCA_TOKEN'' \<in> set secret_vars" "''EMAIL_PASSWORD'' \<in> set secret_vars"
    by (simp_all add: secret_vars_def)
  have pub: "public (c\<lparr>c_DatabaseDSN := v\<rparr>) = public c" "public (set_email (\<lambda>m. m\<lparr>m_Password := v\<rparr>) c) = public c"
    "public (set_pachca (\<lambda>p. p\<lparr>p_Token := v, p_Enabled := True\<rparr>) c) = set_pachca (\<lambda>p. p\<lparr>p_Enabled := True\<rparr>) (public c)" for c v
    by (simp_all add: public_def)
  show "alike_results (load_string env1 ''DATABASE_DSN'' (\<lambda>v c. c\<lparr>c_DatabaseDSN := v\<rparr>) c) (load_string env2 ''DATABASE_DSN'' (\<lambda>v c. c\<lparr>c_DatabaseDSN := v\<rparr>) d)"
    using s [OF vars(1)] assms(2) by (simp add: load_string_def alike_def pub)
  show "alike_results (load_string env1 ''PACHCA_TOKEN'' (\<lambda>v. set_pachca (\<lambda>p. p\<lparr>p_Token := v, p_Enabled := True\<rparr>)) c)
                   (load_string env2 ''PACHCA_TOKEN'' (\<lambda>v. set_pachca (\<lambda>p. p\<lparr>p_Token := v, p_Enabled := True\<rparr>)) d)"
    using s [OF vars(2)] assms(2) by (simp add: load_string_def alike_def pub)
  show "alike_results (load_string env1 ''EMAIL_PASSWORD'' (\<lambda>v. set_email (\<lambda>m. m\<lparr>m_Password := v\<rparr>)) c)
                   (load_string env2 ''EMAIL_PASSWORD'' (\<lambda>v. set_email (\<lambda>m. m\<lparr>m_Password := v\<rparr>)) d)"
    using s [OF vars(3)] assms(2) by (simp add: load_string_def alike_def pub)
qed

lemma public_updates:
  "public (c\<lparr>c_Port := n\<rparr>) = (public c)\<lparr>c_Port := n\<rparr>"
  "public (c\<lparr>c_LogLevel := s\<rparr>) = (public c)\<lparr>c_LogLevel := s\<rparr>"
  "public (c\<lparr>c_ShutdownTimeout := n\<rparr>) = (public c)\<lparr>c_ShutdownTimeout := n\<rparr>"
  "public (c\<lparr>c_PreStopDelay := n\<rparr>) = (public c)\<lparr>c_PreStopDelay := n\<rparr>"
  "public (c\<lparr>c_DatabaseDriver := s\<rparr>) = (public c)\<lparr>c_DatabaseDriver := s\<rparr>"
  "public (c\<lparr>c_MaxPayloadSize := n\<rparr>) = (public c)\<lparr>c_MaxPayloadSize := n\<rparr>"
  "public (c\<lparr>c_MaxAlertsPerPayload := n\<rparr>) = (public c)\<lparr>c_MaxAlertsPerPayload := n\<rparr>"
  "public (c\<lparr>c_NotifyPollInterval := n\<rparr>) = (public c)\<lparr>c_NotifyPollInterval := n\<rparr>"
  "public (c\<lparr>c_NotifyBatchSize := n\<rparr>) = (public c)\<lparr>c_NotifyBatchSize := n\<rparr>"
  "public (c\<lparr>c_NotifyQueueSize := n\<rparr>) = (public c)\<lparr>c_NotifyQueueSize := n\<rparr>"
  "public (c\<lparr>c_NotifySendTimeout := n\<rparr>) = (public c)\<lparr>c_NotifySendTimeout := n\<rparr>"
  "public (set_pachca (\<lambda>p. p\<lparr>p_BaseURL := s\<rparr>) c) = set_pachca (\<lambda>p. p\<lparr>p_BaseURL := s\<rparr>) (public c)"
  "public (set_pachca (\<lambda>p. p\<lparr>p_ChatID := n\<rparr>) c) = set_pachca (\<lambda>p. p\<lparr>p_ChatID := n\<rparr>) (public c)"
  "public (set_email (\<lambda>m. m\<lparr>m_SMTPPort := n\<rparr>) c) = set_email (\<lambda>m. m\<lparr>m_SMTPPort := n\<rparr>) (public c)"
  "public (set_email (\<lambda>m. m\<lparr>m_From := s\<rparr>) c) = set_email (\<lambda>m. m\<lparr>m_From := s\<rparr>) (public c)"
  "public (set_email (\<lambda>m. m\<lparr>m_To := ss\<rparr>) c) = set_email (\<lambda>m. m\<lparr>m_To := ss\<rparr>) (public c)"
  "public (set_email (\<lambda>m. m\<lparr>m_Username := s\<rparr>) c) = set_email (\<lambda>m. m\<lparr>m_Username := s\<rparr>) (public c)"
  "public (set_email (\<lambda>m. m\<lparr>m_TLSMode := s\<rparr>) c) = set_email (\<lambda>m. m\<lparr>m_TLSMode := s\<rparr>) (public c)"
  "public (set_email (\<lambda>m. m\<lparr>m_SubjectPrefix := s\<rparr>) c) = set_email (\<lambda>m. m\<lparr>m_SubjectPrefix := s\<rparr>) (public c)"
  "public (set_template (\<lambda>t. t\<lparr>t_Dir := s\<rparr>) c) = set_template (\<lambda>t. t\<lparr>t_Dir := s\<rparr>) (public c)"
  "public (set_template (\<lambda>t. t\<lparr>t_ReloadEnabled := b\<rparr>) c) = set_template (\<lambda>t. t\<lparr>t_ReloadEnabled := b\<rparr>) (public c)"
  "public (set_email (\<lambda>m. m\<lparr>m_SMTPHost := s, m_Enabled := b\<rparr>) c) = set_email (\<lambda>m. m\<lparr>m_SMTPHost := s, m_Enabled := b\<rparr>) (public c)"
  by (simp_all add: public_def)

lemma alike_updates:
  "alike c d \<Longrightarrow> alike (c\<lparr>c_Port := n\<rparr>) (d\<lparr>c_Port := n\<rparr>)"
  "alike c d \<Longrightarrow> alike (c\<lparr>c_LogLevel := s\<rparr>) (d\<lparr>c_LogLevel := s\<rparr>)"
  "alike c d \<Longrightarrow> alike (c\<lparr>c_ShutdownTimeout := n\<rparr>) (d\<lparr>c_ShutdownTimeout := n\<rparr>)"
  "alike c d \<Longrightarrow> alike (c\<lparr>c_PreStopDelay := n\<rparr>) (d\<lparr>c_PreStopDelay := n\<rparr>)"
  "alike c d \<Longrightarrow> alike (c\<lparr>c_DatabaseDriver := s\<rparr>) (d\<lparr>c_DatabaseDriver := s\<rparr>)"
  "alike c d \<Longrightarrow> alike (c\<lparr>c_MaxPayloadSize := n\<rparr>) (d\<lparr>c_MaxPayloadSize := n\<rparr>)"
  "alike c d \<Longrightarrow> alike (c\<lparr>c_MaxAlertsPerPayload := n\<rparr>) (d\<lparr>c_MaxAlertsPerPayload := n\<rparr>)"
  "alike c d \<Longrightarrow> alike (c\<lparr>c_NotifyPollInterval := n\<rparr>) (d\<lparr>c_NotifyPollInterval := n\<rparr>)"
  "alike c d \<Longrightarrow> alike (c\<lparr>c_NotifyBatchSize := n\<rparr>) (d\<lparr>c_NotifyBatchSize := n\<rparr>)"
  "alike c d \<Longrightarrow> alike (c\<lparr>c_NotifyQueueSize := n\<rparr>) (d\<lparr>c_NotifyQueueSize := n\<rparr>)"
  "alike c d \<Longrightarrow> alike (c\<lparr>c_NotifySendTimeout := n\<rparr>) (d\<lparr>c_NotifySendTimeout := n\<rparr>)"
  "alike c d \<Longrightarrow> alike (set_pachca (\<lambda>p. p\<lparr>p_BaseURL := s\<rparr>) c) (set_pachca (\<lambda>p. p\<lparr>p_BaseURL := s\<rparr>) d)"
  "alike c d \<Longrightarrow> alike (set_pachca (\<lambda>p. p\<lparr>p_ChatID := n\<rparr>) c) (set_pachca (\<lambda>p. p\<lparr>p_ChatID := n\<rparr>) d)"
  "alike c d \<Longrightarrow> alike (set_email (\<lambda>m. m\<lparr>m_SMTPPort := n\<rparr>) c) (set_email (\<lambda>m. m\<lparr>m_SMTPPort := n\<rparr>) d)"
  "alike c d \<Longrightarrow> alike (set_email (\<lambda>m. m\<lparr>m_From := s\<rparr>) c) (set_email (\<lambda>m. m\<lparr>m_From := s\<rparr>) d)"
  "alike c d \<Longrightarrow> alike (set_email (\<lambda>m. m\<lparr>m_To := ss\<rparr>) c) (set_email (\<lambda>m. m\<lparr>m_To := ss\<rparr>) d)"
  "alike c d \<Longrightarrow> alike (set_email (\<lambda>m. m\<lparr>m_Username := s\<rparr>) c) (set_email (\<lambda>m. m\<lparr>m_Username := s\<rparr>) d)"
  "alike c d \<Longrightarrow> alike (set_email (\<lambda>m. m\<lparr>m_TLSMode := s\<rparr>) c) (set_email (\<lambda>m. m\<lparr>m_TLSMode := s\<rparr>) d)"
  "alike c d \<Longrightarrow> alike (set_email (\<lambda>m. m\<lparr>m_SubjectPrefix := s\<rparr>) c) (set_email (\<lambda>m. m\<lparr>m_SubjectPrefix := s\<rparr>) d)"
  "alike c d \<Longrightarrow> alike (set_template (\<lambda>t. t\<lparr>t_Dir := s\<rparr>) c) (set_template (\<lambda>t. t\<lparr>t_Dir := s\<rparr>) d)"
  "alike c d \<Longrightarrow> alike (set_template (\<lambda>t. t\<lparr>t_ReloadEnabled := b\<rparr>) c) (set_template (\<lambda>t. t\<lparr>t_ReloadEnabled := b\<rparr>) d)"
  "alike c d \<Longrightarrow> alike (set_email (\<lambda>m. m\<lparr>m_SMTPHost := s, m_Enabled := b\<rparr>) c) (set_email (\<lambda>m. m\<lparr>m_SMTPHost := s, m_Enabled := b\<rparr>) d)"
  unfolding alike_def public_updates by simp_all

lemma alike_server:
  assumes env: "same_public env1 env2" and "alike c d"
  shows "alike_results (load_server lib env1 c) (load_server lib env2 d)"
  unfolding load_server_def
  by (intro alike_bindE alike_loads [OF env] alike_updates alike_secrets [OF env] assms(2)) (simp_all add: secret_vars_def)

lemma alike_pachca:
  assumes env: "same_public env1 env2" and "alike c d"
  shows "alike_results (load_pachca lib env1 c) (load_pachca lib env2 d)"
  unfolding load_pachca_def
  by (intro alike_bindE alike_loads [OF env] alike_updates alike_secrets [OF env] assms(2)) (simp_all add: secret_vars_def)

lemma alike_email:
  assumes env: "same_public env1 env2" and "alike c d"
  shows "alike_results (load_email lib env1 c) (load_email lib env2 d)"
  unfolding load_email_def
  by (intro alike_bindE alike_loads [OF env] alike_updates alike_secrets [OF env] assms(2)) (simp_all add: secret_vars_def)

lemma alike_template:
  assumes env: "same_public env1 env2" and "alike c d"
  shows "alike_results (load_template env1 c) (load_template env2 d)"
proof -
  have v: "env2 ''TEMPLATE_RELOAD'' = env1 ''TEMPLATE_RELOAD''"
    by (rule public_env [OF env]) (simp add: secret_vars_def)
  have tail: "alike_results
      (let v = env1 ''TEMPLATE_RELOAD'' in if v = [] then Inr a
        else if v = ''true'' then Inr (set_template (\<lambda>t. t\<lparr>t_ReloadEnabled := True\<rparr>) a)
        else if v = ''false'' then Inr (set_template (\<lambda>t. t\<lparr>t_ReloadEnabled := False\<rparr>) a)
        else Inl (invalid [Lit ''invalid value TEMPLATE_RELOAD='', Quo v, Lit '' (true/false)'']))
      (let v = env1 ''TEMPLATE_RELOAD'' in if v = [] then Inr b
        else if v = ''true'' then Inr (set_template (\<lambda>t. t\<lparr>t_ReloadEnabled := True\<rparr>) b)
        else if v = ''false'' then Inr (set_template (\<lambda>t. t\<lparr>t_ReloadEnabled := False\<rparr>) b)
        else Inl (invalid [Lit ''invalid value TEMPLATE_RELOAD='', Quo v, Lit '' (true/false)'']))" if "alike a b" for a b
    using that by (simp add: Let_def alike_updates)
  show ?thesis
    unfolding load_template_def v
    by (intro alike_bindE alike_loads [OF env] alike_updates assms(2) tail) (simp_all add: secret_vars_def)
qed

end
