(* ===== verification/NotifyQueue.thy ===== *)
theory NotifyQueue imports GoPrelude begin

text \<open>
  \<open>Queue\<close> of \<open>internal/notify/queue.go\<close>: a bounded queue over a buffered Go channel.  A Go \<open>select\<close> takes
  any of its ready cases, so a call is the list of its possible outcomes in the present state, and the
  empty list says that the call blocks.  The argument \<open>ctx\<close> is \<open>ctx.Err()\<close>: \<open>None\<close> while the context is
  live.  A call that runs in two phases, between which other goroutines may run, has a definition for
  each phase, and one for both in a row.
\<close>

section \<open>The queue\<close>

record 'a queue =
  q_name :: string
  q_ch :: "'a list"
  q_cap :: nat
  q_done :: bool
  q_closed :: bool

text \<open>\<open>make(chan T, size)\<close> panics for a negative size: the result \<open>None\<close>.\<close>

definition NewQueue :: "string \<Rightarrow> int \<Rightarrow> 'a queue option" where
  "NewQueue name sz =
     (if sz < 0 then None
      else Some \<lparr>q_name = name, q_ch = [], q_cap = nat sz, q_done = False, q_closed = False\<rparr>)"

definition Len :: "'a queue \<Rightarrow> nat" where
  "Len q = length (q_ch q)"

definition Enqueue_select :: "goerr option \<Rightarrow> 'a \<Rightarrow> 'a queue \<Rightarrow> (goerr option \<times> 'a queue) list" where
  "Enqueue_select ctx n q =
     (if length (q_ch q) < q_cap q then [(None, q\<lparr>q_ch := q_ch q @ [n]\<rparr>)] else [])
     @ (if ctx \<noteq> None then [(Some (Sentinel ErrQueueFull), q)] else [])
     @ (if q_done q then [(Some (Sentinel ErrQueueClosed), q)] else [])"

definition Enqueue :: "goerr option \<Rightarrow> 'a \<Rightarrow> 'a queue \<Rightarrow> (goerr option \<times> 'a queue) list" where
  "Enqueue ctx n q =
     (if q_closed q then [(Some (Sentinel ErrQueueClosed), q)] else Enqueue_select ctx n q)"

definition Dequeue_try :: "'a queue \<Rightarrow> ((goerr + 'a) \<times> 'a queue) option" where
  "Dequeue_try q = (case q_ch q of [] \<Rightarrow> None | n # rest \<Rightarrow> Some (Inr n, q\<lparr>q_ch := rest\<rparr>))"

definition Dequeue_wait :: "goerr option \<Rightarrow> 'a queue \<Rightarrow> ((goerr + 'a) \<times> 'a queue) list" where
  "Dequeue_wait ctx q =
     (case Dequeue_try q of Some r \<Rightarrow> [r] | None \<Rightarrow> [])
     @ (case ctx of Some err \<Rightarrow> [(Inl err, q)] | None \<Rightarrow> [])
     @ (if q_done q then [case Dequeue_try q of Some r \<Rightarrow> r | None \<Rightarrow> (Inl (Sentinel ErrQueueClosed), q)] else [])"

definition Dequeue :: "goerr option \<Rightarrow> 'a queue \<Rightarrow> ((goerr + 'a) \<times> 'a queue) list" where
  "Dequeue ctx q = (case Dequeue_try q of Some r \<Rightarrow> [r] | None \<Rightarrow> Dequeue_wait ctx q)"

text \<open>\<open>CompareAndSwap(false, true)\<close>, then the channel \<open>done\<close> is closed, which happens once only.\<close>

definition Close :: "'a queue \<Rightarrow> 'a queue" where
  "Close q = (if \<not> q_closed q then q\<lparr>q_closed := True, q_done := True\<rparr> else q)"

text \<open>The channel never holds more than its capacity, and the two closing flags go together.\<close>

definition queue_ok :: "'a queue \<Rightarrow> bool" where
  "queue_ok q \<longleftrightarrow> length (q_ch q) \<le> q_cap q \<and> q_done q = q_closed q"

lemma NewQueue_ok: "NewQueue name sz = Some q \<Longrightarrow> queue_ok q \<and> q_ch q = [] \<and> q_cap q = nat sz"
  by (auto simp: NewQueue_def queue_ok_def split: if_splits)

section \<open>The contract of a bounded FIFO queue\<close>

text \<open>
  All the ways to use a queue: \<open>ins\<close> are the items whose \<open>Enqueue\<close> succeeded and \<open>outs\<close> those some
  \<open>Dequeue\<close> returned, both in the order of the calls.
\<close>

inductive history ::
  "(goerr option \<Rightarrow> 'a \<Rightarrow> 's \<Rightarrow> (goerr option \<times> 's) list) \<Rightarrow> (goerr option \<Rightarrow> 's \<Rightarrow> ((goerr + 'a) \<times> 's) list)
   \<Rightarrow> ('s \<Rightarrow> 's) \<Rightarrow> 's \<Rightarrow> 'a list \<Rightarrow> 'a list \<Rightarrow> 's \<Rightarrow> bool"
  for enqueue dequeue close s0 where
  start: "history enqueue dequeue close s0 [] [] s0"
| put: "history enqueue dequeue close s0 ins outs s \<Longrightarrow> (None, s') \<in> set (enqueue ctx n s) \<Longrightarrow>
          history enqueue dequeue close s0 (ins @ [n]) outs s'"
| refused: "history enqueue dequeue close s0 ins outs s \<Longrightarrow> (Some err, s') \<in> set (enqueue ctx n s) \<Longrightarrow>
          history enqueue dequeue close s0 ins outs s'"
| get: "history enqueue dequeue close s0 ins outs s \<Longrightarrow> (Inr n, s') \<in> set (dequeue ctx s) \<Longrightarrow>
          history enqueue dequeue close s0 ins (outs @ [n]) s'"
| nothing: "history enqueue dequeue close s0 ins outs s \<Longrightarrow> (Inl err, s') \<in> set (dequeue ctx s) \<Longrightarrow>
          history enqueue dequeue close s0 ins outs s'"
| closing: "history enqueue dequeue close s0 ins outs s \<Longrightarrow> history enqueue dequeue close s0 ins outs (close s)"

locale bounded_fifo =
  fixes enqueue :: "goerr option \<Rightarrow> 'a \<Rightarrow> 's \<Rightarrow> (goerr option \<times> 's) list"
    and dequeue :: "goerr option \<Rightarrow> 's \<Rightarrow> ((goerr + 'a) \<times> 's) list"
    and close :: "'s \<Rightarrow> 's"
    and items :: "'s \<Rightarrow> 'a list"
    and capacity :: "'s \<Rightarrow> nat"
    and is_closed :: "'s \<Rightarrow> bool"
    and inv :: "'s \<Rightarrow> bool"
  assumes bounded: "inv s \<Longrightarrow> length (items s) \<le> capacity s"
    and enqueue_ok: "inv s \<Longrightarrow> (None, s') \<in> set (enqueue ctx n s) \<Longrightarrow>
          inv s' \<and> items s' = items s @ [n] \<and> capacity s' = capacity s \<and> \<not> is_closed s \<and> \<not> is_closed s'"
    and enqueue_err: "(Some err, s') \<in> set (enqueue ctx n s) \<Longrightarrow> s' = s"
    and enqueue_room: "inv s \<Longrightarrow> \<not> is_closed s \<Longrightarrow> length (items s) < capacity s \<Longrightarrow>
          \<exists>s'. (None, s') \<in> set (enqueue ctx n s)"
    and dequeue_ok: "inv s \<Longrightarrow> (Inr n, s') \<in> set (dequeue ctx s) \<Longrightarrow>
          inv s' \<and> items s = n # items s' \<and> capacity s' = capacity s \<and> is_closed s' = is_closed s"
    and dequeue_err: "(Inl err, s') \<in> set (dequeue ctx s) \<Longrightarrow> s' = s \<and> items s = []"
    and dequeue_ready: "inv s \<Longrightarrow> items s \<noteq> [] \<or> is_closed s \<Longrightarrow> dequeue ctx s \<noteq> []"
    and close_spec: "inv s \<Longrightarrow>
          inv (close s) \<and> items (close s) = items s \<and> capacity (close s) = capacity s \<and> is_closed (close s)"
begin

lemma fifo:
  assumes "history enqueue dequeue close s0 ins outs s" "inv s0"
  shows "inv s \<and> items s0 @ ins = outs @ items s \<and> capacity s = capacity s0"
  using assms
proof (induction rule: history.induct)
  case (put ins outs s s' ctx n)
  then show ?case using enqueue_ok [OF _ put.hyps(2)] by simp
next
  case (get ins outs s n s' ctx)
  then show ?case using dequeue_ok [OF _ get.hyps(2)] by simp
next
  case (closing ins outs s)
  then show ?case using close_spec by simp
qed (auto dest!: enqueue_err dequeue_err)

lemma prefix_out: "history enqueue dequeue close s0 ins outs s \<Longrightarrow> inv s0 \<Longrightarrow> prefix outs (items s0 @ ins)"
  using fifo by (metis prefixI)

lemma never_over: "history enqueue dequeue close s0 ins outs s \<Longrightarrow> inv s0 \<Longrightarrow> length (items s) \<le> capacity s0"
  using fifo bounded by metis

lemma closed_refuses: "inv s \<Longrightarrow> is_closed s \<Longrightarrow> (r, s') \<in> set (enqueue ctx n s) \<Longrightarrow> r \<noteq> None \<and> s' = s"
  using enqueue_ok enqueue_err by (cases r) blast+

lemma closed_drains:
  assumes "inv s" "is_closed s" "(r, s') \<in> set (dequeue ctx s)"
  shows "case items s of [] \<Rightarrow> (\<exists>err. r = Inl err) \<and> s' = s
                        | n # rest \<Rightarrow> r = Inr n \<and> items s' = rest \<and> inv s' \<and> is_closed s'"
proof (cases r)
  case (Inl err)
  with dequeue_err assms(3) show ?thesis by (auto split: list.split)
next
  case (Inr n)
  with dequeue_ok [OF assms(1)] assms(2,3) show ?thesis by (auto split: list.split)
qed

end

section \<open>The queue keeps the contract\<close>

lemma Dequeue_Cons: "q_ch q = n # rest \<Longrightarrow> Dequeue ctx q = [(Inr n, q\<lparr>q_ch := rest\<rparr>)]"
  by (simp add: Dequeue_def Dequeue_try_def)

lemma Dequeue_Nil:
  "q_ch q = [] \<Longrightarrow> Dequeue ctx q =
     (case ctx of Some err \<Rightarrow> [(Inl err, q)] | None \<Rightarrow> [])
     @ (if q_done q then [(Inl (Sentinel ErrQueueClosed), q)] else [])"
  by (simp add: Dequeue_def Dequeue_wait_def Dequeue_try_def)

interpretation notify_queue: bounded_fifo Enqueue Dequeue Close q_ch q_cap q_closed queue_ok
proof unfold_locales
  fix s s' :: "'a queue" and ctx err n
  show "queue_ok s \<Longrightarrow> length (q_ch s) \<le> q_cap s" by (simp add: queue_ok_def)
  show "queue_ok s' \<and> q_ch s' = q_ch s @ [n] \<and> q_cap s' = q_cap s \<and> \<not> q_closed s \<and> \<not> q_closed s'"
    if "queue_ok s" "(None, s') \<in> set (Enqueue ctx n s)"
    using that by (auto simp: Enqueue_def Enqueue_select_def queue_ok_def split: if_splits)
  show "s' = s" if "(Some err, s') \<in> set (Enqueue ctx n s)"
    using that by (auto simp: Enqueue_def Enqueue_select_def split: if_splits)
  show "\<exists>s'. (None, s') \<in> set (Enqueue ctx n s)" if "queue_ok s" "\<not> q_closed s" "length (q_ch s) < q_cap s"
    using that by (simp add: Enqueue_def Enqueue_select_def)
  show "queue_ok s' \<and> q_ch s = n # q_ch s' \<and> q_cap s' = q_cap s \<and> q_closed s' = q_closed s"
    if "queue_ok s" "(Inr n, s') \<in> set (Dequeue ctx s)"
    using that by (cases "q_ch s") (auto simp: Dequeue_Cons Dequeue_Nil queue_ok_def split: option.splits if_splits)
  show "s' = s \<and> q_ch s = []" if "(Inl err, s') \<in> set (Dequeue ctx s)"
    using that by (cases "q_ch s") (auto simp: Dequeue_Cons Dequeue_Nil split: option.splits if_splits)
  show "Dequeue ctx s \<noteq> []" if "queue_ok s" "q_ch s \<noteq> [] \<or> q_closed s"
    using that by (cases "q_ch s") (auto simp: Dequeue_Cons Dequeue_Nil queue_ok_def)
  show "queue_ok (Close s) \<and> q_ch (Close s) = q_ch s \<and> q_cap (Close s) = q_cap s \<and> q_closed (Close s)"
    if "queue_ok s" using that by (simp add: Close_def queue_ok_def)
qed

section \<open>Properties\<close>

text \<open>C21: Whatever sequence of calls a queue has seen, the notifications it gave out followed by those it
  still holds are exactly those it accepted, in order and none twice, and it never holds more than its
  capacity.\<close>

theorem queue_fifo:
  assumes "NewQueue name sz = Some q0" "history Enqueue Dequeue Close q0 ins outs q"
  shows "ins = outs @ q_ch q \<and> length (q_ch q) \<le> nat sz"
  using notify_queue.fifo [OF assms(2)] notify_queue.never_over [OF assms(2)] NewQueue_ok [OF assms(1)] by simp

definition demo_queue :: "nat list \<Rightarrow> bool \<Rightarrow> nat queue" where
  "demo_queue xs c = \<lparr>q_name = ''email'', q_ch = xs, q_cap = 2, q_done = c, q_closed = c\<rparr>"

lemma demo_history: "history Enqueue Dequeue Close (demo_queue [] False) [1, 2] [1] (demo_queue [2] True)"
proof -
  have a: "history Enqueue Dequeue Close (demo_queue [] False) ([] @ [1]) [] (demo_queue [1] False)"
    by (rule history.put [OF history.start, where ctx = None]) (simp add: Enqueue_def Enqueue_select_def demo_queue_def)
  have "history Enqueue Dequeue Close (demo_queue [] False) (([] @ [1]) @ [2]) [] (demo_queue [1, 2] False)"
    by (rule history.put [OF a, where ctx = None]) (simp add: Enqueue_def Enqueue_select_def demo_queue_def)
  from history.closing [OF this]
  have b: "history Enqueue Dequeue Close (demo_queue [] False) [1, 2] [] (demo_queue [1, 2] True)"
    by (simp add: Close_def demo_queue_def)
  have "history Enqueue Dequeue Close (demo_queue [] False) [1, 2] ([] @ [1]) (demo_queue [2] True)"
    by (rule history.get [OF b, where ctx = None]) (simp add: Dequeue_def Dequeue_try_def demo_queue_def)
  then show ?thesis by simp
qed

theorem queue_fifo_witness: "[1, 2::nat] = [1] @ q_ch (demo_queue [2] True) \<and> length (q_ch (demo_queue [2] True)) \<le> nat 2"
  by (rule queue_fifo [OF _ demo_history, of "''email''"]) (simp add: NewQueue_def demo_queue_def)

text \<open>Closing loses nothing and leaves nothing waiting: on a closed queue every \<open>Enqueue\<close> is refused at
  once and changes nothing, every \<open>Dequeue\<close> returns at once, with the remaining notifications in order
  and then \<open>ErrQueueClosed\<close>, and closing it again is no different from closing it once.\<close>

lemma queue_close_drains:
  assumes "queue_ok q"
  shows "Enqueue ctx n (Close q) = [(Some (Sentinel ErrQueueClosed), Close q)]
    \<and> Dequeue None (Close q) =
        (case q_ch q of [] \<Rightarrow> [(Inl (Sentinel ErrQueueClosed), Close q)]
         | x # rest \<Rightarrow> [(Inr x, Close (q\<lparr>q_ch := rest\<rparr>))])
    \<and> Close (Close q) = Close q"
  using assms by (auto simp: Enqueue_def Dequeue_def Dequeue_wait_def Dequeue_try_def Close_def queue_ok_def split: list.split)

text \<open>\<open>Enqueue\<close> waits only for room: it blocks exactly while the queue is open and full and the context is
  live, so a call with a deadline always returns.  A dead context does not mean a full queue: with room
  left the call may either accept the notification or report \<open>ErrQueueFull\<close>.\<close>

lemma enqueue_blocks_iff:
  assumes "queue_ok q"
  shows "(Enqueue ctx n q = [] \<longleftrightarrow> \<not> q_closed q \<and> length (q_ch q) = q_cap q \<and> ctx = None)
    \<and> (\<not> q_closed q \<and> length (q_ch q) < q_cap q \<and> ctx \<noteq> None \<longrightarrow>
         fst ` set (Enqueue ctx n q) = {None, Some (Sentinel ErrQueueFull)})"
  using assms by (auto simp: Enqueue_def Enqueue_select_def queue_ok_def)

end
