(* ===== verification/GoTime.thy ===== *)
theory GoTime imports GoStrings begin

text \<open>
  \<open>time.Time\<close> as the relay uses it: an instant, its zero test, and \<open>UTC().Format\<close> with the
  layouts of the sources.  An instant is the number of seconds since the zero time
  0001-01-01T00:00:00Z and the nanoseconds within the second.  The Gregorian date is computed
  by cycles of 400, 100, 4 and 1 years, as package \<open>time\<close> does, and proved to be the date whose
  day number it was.
\<close>

datatype gotime = GoTime (t_sec: int) (t_nsec: nat)

definition IsZero :: "gotime \<Rightarrow> bool" where
  "IsZero t \<longleftrightarrow> t_sec t = 0 \<and> t_nsec t = 0"

definition zero_time :: gotime where
  "zero_time = GoTime 0 0"

section \<open>Dates\<close>

definition leap_year :: "int \<Rightarrow> bool" where
  "leap_year y \<longleftrightarrow> y mod 4 = 0 \<and> (y mod 100 \<noteq> 0 \<or> y mod 400 = 0)"

text \<open>Days from 0001-01-01 to the first of January of a year.\<close>

definition days_before_year :: "int \<Rightarrow> int" where
  "days_before_year y = 365 * (y - 1) + (y - 1) div 4 - (y - 1) div 100 + (y - 1) div 400"

definition year_length :: "int \<Rightarrow> int" where
  "year_length y = (if leap_year y then 366 else 365)"

definition year_yday :: "int \<Rightarrow> int \<times> int" where
  "year_yday d =
     (let n400 = d div 146097; d1 = d mod 146097;
          n100 = min 3 (d1 div 36524); d2 = d1 - 36524 * n100;
          n4 = d2 div 1461; d3 = d2 mod 1461;
          n1 = min 3 (d3 div 365); yday = d3 - 365 * n1
      in (400 * n400 + 100 * n100 + 4 * n4 + n1 + 1, yday))"

lemma cycles_days_before:
  assumes "0 \<le> b" "b \<le> 3" "0 \<le> c" "c \<le> 24" "0 \<le> e" "e \<le> 3"
  shows "days_before_year (400 * a + 100 * b + 4 * c + e + 1)
         = 146097 * a + 36524 * b + 1461 * c + 365 * e"
proof -
  let ?n = "400 * a + 100 * b + 4 * c + e"
  have "?n div 4 = 100 * a + 25 * b + c" by (rule int_div_pos_eq [of _ _ _ e]) (use assms in simp_all)
  moreover have "?n div 100 = 4 * a + b" by (rule int_div_pos_eq [of _ _ _ "4 * c + e"]) (use assms in simp_all)
  moreover have "?n div 400 = a" by (rule int_div_pos_eq [of _ _ _ "100 * b + 4 * c + e"]) (use assms in simp_all)
  ultimately show ?thesis by (simp add: days_before_year_def)
qed

lemma cycles_leap:
  assumes "0 \<le> b" "b \<le> 3" "0 \<le> c" "c \<le> 24" "c < 24 \<or> b = 3"
  shows "leap_year (400 * a + 100 * b + 4 * c + 3 + 1)"
proof -
  let ?y = "400 * a + 100 * b + 4 * c + 4"
  have "?y mod 4 = 0" by (rule int_mod_pos_eq [of _ _ "100 * a + 25 * b + c + 1"]) simp_all
  moreover have "?y mod 100 \<noteq> 0 \<or> ?y mod 400 = 0"
  proof (cases "c < 24")
    case True
    have "?y mod 100 = 4 * c + 4"
      by (rule int_mod_pos_eq [of _ _ "4 * a + b"]) (use True assms in simp_all)
    with assms show ?thesis by simp
  next
    case False
    with assms have "c = 24" "b = 3" by simp_all
    then have "?y = 400 * (a + 1)" by simp
    then have "?y mod 400 = 0" by (simp only: mod_mult_self1_is_0)
    then show ?thesis by blast
  qed
  ultimately have "leap_year ?y" unfolding leap_year_def by blast
  moreover have "400 * a + 100 * b + 4 * c + 3 + 1 = ?y" by simp
  ultimately show ?thesis by (simp only:)
qed

text \<open>One level of cycles: the number of whole cycles is capped at three, so the last may be one day longer.\<close>

lemma capped_cycle:
  fixes d l :: int
  assumes "0 < l" "0 \<le> d" "d \<le> 4 * l"
  defines "b \<equiv> min 3 (d div l)"
  shows "0 \<le> b" "b \<le> 3" "0 \<le> d - l * b" "d - l * b \<le> l" "d - l * b = l \<longrightarrow> b = 3 \<and> d = 4 * l"
proof -
  define q r where "q = d div l" and "r = d mod l"
  have d: "d = l * q + r" and r: "0 \<le> r" "r < l" using assms by (simp_all add: q_def r_def)
  have q0: "0 \<le> q" using assms by (simp add: q_def pos_imp_zdiv_nonneg_iff)
  have "q < 5"
  proof (rule ccontr)
    assume "\<not> q < 5"
    then have "l * 5 \<le> l * q" using assms(1) by (intro mult_left_mono) simp_all
    with d r assms show False by simp
  qed
  then consider "q \<le> 3" "b = q" | "q = 4" "b = 3" by (fastforce simp: b_def q_def)
  note cases = this
  have "0 \<le> b \<and> b \<le> 3 \<and> 0 \<le> d - l * b \<and> d - l * b \<le> l \<and> (d - l * b = l \<longrightarrow> b = 3 \<and> d = 4 * l)"
    using cases
  proof cases
    case 1
    with d r q0 show ?thesis by simp
  next
    case 2
    with d r assms have "r = 0" by simp
    with 2 d assms show ?thesis by simp
  qed
  then show "0 \<le> b" "b \<le> 3" "0 \<le> d - l * b" "d - l * b \<le> l" "d - l * b = l \<longrightarrow> b = 3 \<and> d = 4 * l"
    by blast+
qed

lemma year_yday_correct:
  assumes "year_yday d = (y, yd)"
  shows "days_before_year y + yd = d" and "0 \<le> yd" and "yd < year_length y"
proof -
  define a where "a = d div 146097"
  define d1 where "d1 = d mod 146097"
  define b where "b = min 3 (d1 div 36524)"
  define d2 where "d2 = d1 - 36524 * b"
  define c where "c = d2 div 1461"
  define d3 where "d3 = d2 mod 1461"
  define e where "e = min 3 (d3 div 365)"
  have y: "y = 400 * a + 100 * b + 4 * c + e + 1" and yd: "yd = d3 - 365 * e"
    using assms unfolding year_yday_def Let_def a_def [symmetric] d1_def [symmetric] b_def [symmetric]
      d2_def [symmetric] c_def [symmetric] d3_def [symmetric] e_def [symmetric] by simp_all
  have d: "d = 146097 * a + d1" and d1: "0 \<le> d1" "d1 \<le> 146096"
    by (simp_all add: a_def d1_def)
  have b: "0 \<le> b" "b \<le> 3" "0 \<le> d2" "d2 \<le> 36524" "d2 = 36524 \<longrightarrow> b = 3"
    using capped_cycle [of 36524 d1] d1 unfolding b_def d2_def by linarith+
  have c: "d2 = 1461 * c + d3" "0 \<le> d3" "d3 \<le> 1460" by (simp_all add: c_def d3_def)
  with b have c24: "0 \<le> c" "c \<le> 24" by simp_all
  have e: "0 \<le> e" "e \<le> 3" "0 \<le> yd" "yd \<le> 365" "yd = 365 \<longrightarrow> e = 3 \<and> d3 = 1460"
    using capped_cycle [of 365 d3] c unfolding e_def yd by linarith+
  show "days_before_year y + yd = d"
    unfolding y cycles_days_before [OF b(1,2) c24 e(1,2)] d yd using c(1) unfolding d2_def by linarith
  show "0 \<le> yd" by (rule e)
  show "yd < year_length y"
  proof (cases "yd = 365")
    case True
    with e have "e = 3" "d3 = 1460" by simp_all
    with c b c24 have "c < 24 \<or> b = 3" by linarith
    with b c24 \<open>e = 3\<close> have "leap_year y" unfolding y using cycles_leap by blast
    with True show ?thesis by (simp add: year_length_def)
  next
    case False
    with e show ?thesis by (simp add: year_length_def)
  qed
qed

definition month_lengths :: "int \<Rightarrow> int list" where
  "month_lengths y = [31, if leap_year y then 29 else 28, 31, 30, 31, 30, 31, 31, 30, 31, 30, 31]"

text \<open>The month (from the index of the first one in the list) and the day of the month.\<close>

fun find_month :: "int list \<Rightarrow> nat \<Rightarrow> int \<Rightarrow> nat \<times> int" where
  "find_month [] m yd = (m, yd + 1)"
| "find_month (l # ls) m yd = (if yd < l then (m, yd + 1) else find_month ls (Suc m) (yd - l))"

definition civil_date :: "int \<Rightarrow> int \<times> nat \<times> int" where
  "civil_date d = (let (y, yd) = year_yday d; (m, dd) = find_month (month_lengths y) 1 yd in (y, m, dd))"

text \<open>The calendar's own account of the day number of a date.\<close>

definition day_number :: "int \<Rightarrow> nat \<Rightarrow> int \<Rightarrow> int" where
  "day_number y m dd = days_before_year y + sum_list (take (m - 1) (month_lengths y)) + dd - 1"

definition valid_date :: "int \<Rightarrow> nat \<Rightarrow> int \<Rightarrow> bool" where
  "valid_date y m dd \<longleftrightarrow> 1 \<le> m \<and> m \<le> 12 \<and> 1 \<le> dd \<and> dd \<le> month_lengths y ! (m - 1)"

lemma sum_month_lengths: "sum_list (month_lengths y) = year_length y"
  by (simp add: month_lengths_def year_length_def)

lemma find_month_correct:
  assumes "find_month ls m yd = (m', dd)" "0 \<le> yd" "yd < sum_list ls"
  shows "m \<le> m' \<and> m' < m + length ls \<and> 1 \<le> dd \<and> dd \<le> ls ! (m' - m)
         \<and> sum_list (take (m' - m) ls) + dd - 1 = yd"
  using assms
proof (induction ls m yd rule: find_month.induct)
  case (1 m yd)
  then show ?case by simp
next
  case (2 l ls m yd)
  show ?case
  proof (cases "yd < l")
    case True
    with "2.prems" show ?thesis by auto
  next
    case False
    with "2.prems" "2.IH" have
      ih: "Suc m \<le> m' \<and> m' < Suc m + length ls \<and> 1 \<le> dd \<and> dd \<le> ls ! (m' - Suc m)
           \<and> sum_list (take (m' - Suc m) ls) + dd - 1 = yd - l" by simp
    then have "m' - m = Suc (m' - Suc m)" by linarith
    with ih show ?thesis by simp
  qed
qed

lemma civil_date_day_number:
  assumes "civil_date d = (y, m, dd)"
  shows "valid_date y m dd \<and> day_number y m dd = d"
proof -
  obtain yd where y: "year_yday d = (y, yd)" and f: "find_month (month_lengths y) 1 yd = (m, dd)"
    using assms by (auto simp: civil_date_def Let_def split: prod.splits)
  note c = year_yday_correct [OF y]
  have "yd < sum_list (month_lengths y)" using c by (simp add: sum_month_lengths)
  from find_month_correct [OF f c(2) this] c(1) show ?thesis
    by (auto simp: valid_date_def day_number_def month_lengths_def)
qed

section \<open>Formatting\<close>

definition pad :: "nat \<Rightarrow> string \<Rightarrow> string" where
  "pad w s = replicate (w - length s) CHR ''0'' @ s"

definition pad_int :: "nat \<Rightarrow> int \<Rightarrow> string" where
  "pad_int w i = (if i < 0 then CHR ''-'' # pad w (dec_digits (nat (- i))) else pad w (dec_digits (nat i)))"

lemma zero_digit: "CHR ''0'' \<in> digit_chars"
  by (simp add: digit_chars_def)

lemma pad_int_chars: "set (pad_int w i) \<subseteq> num_chars"
  using dec_digits_chars by (auto simp: zero_digit pad_int_def pad_def num_chars_def)

definition date_text :: "int \<Rightarrow> string" where
  "date_text d = (let (y, m, dd) = civil_date d in pad_int 4 y @ ''-'' @ pad_int 2 (int m) @ ''-'' @ pad_int 2 dd)"

definition clock_text :: "int \<Rightarrow> string" where
  "clock_text s = pad_int 2 (s div 3600) @ '':'' @ pad_int 2 (s div 60 mod 60) @ '':'' @ pad_int 2 (s mod 60)"

text \<open>Layout \<open>2006-01-02 15:04:05 UTC\<close> of the two formatters, on \<open>t.UTC()\<close>.\<close>

definition format_time :: "gotime \<Rightarrow> string" where
  "format_time t = date_text (t_sec t div 86400) @ '' '' @ clock_text (t_sec t mod 86400) @ '' UTC''"

text \<open>Layout \<open>2006-01-02T15:04:05Z\<close> of the store, on \<open>t.UTC()\<close>.\<close>

definition format_store :: "gotime \<Rightarrow> string" where
  "format_store t = date_text (t_sec t div 86400) @ ''T'' @ clock_text (t_sec t mod 86400) @ ''Z''"

definition weekday_name :: "int \<Rightarrow> string" where
  "weekday_name d = [''Mon'', ''Tue'', ''Wed'', ''Thu'', ''Fri'', ''Sat'', ''Sun''] ! nat (d mod 7)"

definition month_name :: "nat \<Rightarrow> string" where
  "month_name m = [''Jan'', ''Feb'', ''Mar'', ''Apr'', ''May'', ''Jun'', ''Jul'', ''Aug'', ''Sep'', ''Oct'', ''Nov'', ''Dec''] ! (m - 1)"

text \<open>\<open>time.RFC1123Z\<close> on a UTC time.\<close>

definition format_rfc1123z :: "gotime \<Rightarrow> string" where
  "format_rfc1123z t =
     (let d = t_sec t div 86400; (y, m, dd) = civil_date d in
      weekday_name d @ '', '' @ pad_int 2 dd @ '' '' @ month_name m @ '' '' @ pad_int 4 y @ '' ''
      @ clock_text (t_sec t mod 86400) @ '' +0000'')"

lemma format_time_epoch: "format_time (GoTime 62135596800 0) = ''1970-01-01 00:00:00 UTC''"
  by code_simp

lemma format_rfc_epoch: "format_rfc1123z (GoTime 62135596800 0) = ''Thu, 01 Jan 1970 00:00:00 +0000''"
  by code_simp

end
