(* ===== verification/Alerts.thy ===== *)
theory Alerts imports GoTime begin

text \<open>
  Package \<open>internal/alerts\<close>, the payload: the webhook's data model (\<open>model.go\<close>) and its validation
  (\<open>validation.go\<close>).  A validator returns \<open>None\<close> for Go's \<open>nil\<close> and \<open>Some e\<close> for an error; its
  body is the chain of its checks in the order of the code.
\<close>

section \<open>Data model\<close>

definition StatusFiring :: string where
  "StatusFiring = ''firing''"

definition StatusResolved :: string where
  "StatusResolved = ''resolved''"

lemma status_distinct [simp]: "StatusFiring \<noteq> StatusResolved" "StatusResolved \<noteq> StatusFiring"
  "StatusFiring \<noteq> []" "StatusResolved \<noteq> []" "[] \<noteq> StatusFiring" "[] \<noteq> StatusResolved"
  by (simp_all add: StatusFiring_def StatusResolved_def)

record alert =
  aStatus :: string
  aLabels :: gomap
  aAnnotations :: gomap
  aStartsAt :: gotime
  aEndsAt :: gotime
  aGeneratorURL :: string
  aFingerprint :: string

record alert_group =
  gReceiver :: string
  gStatus :: string
  gAlerts :: "alert list"
  gGroupLabels :: gomap
  gCommonLabels :: gomap
  gCommonAnnotations :: gomap
  gExternalURL :: string
  gVersion :: string
  gGroupKey :: string
  gTruncatedAlerts :: int

section \<open>Validation\<close>

definition maxStringLength :: nat where
  "maxStringLength = 4096"

definition validateStringLength :: "string \<Rightarrow> string \<Rightarrow> goerr option" where
  "validateStringLength field value =
     guard (length value > maxStringLength)
       (Errorf [Str field, Lit '': length '', Num (int (length value)), Lit '' exceeds max '',
                Num (int maxStringLength)] (Sentinel ErrPayloadTooLarge))"

text \<open>The loop over the map checks the key, then the value, of each entry.\<close>

definition entry_checks :: "string \<Rightarrow> string \<times> string \<Rightarrow> goerr option list" where
  "entry_checks field kv =
     (case kv of (k, v) \<Rightarrow>
       [guard (length k > maxStringLength)
          (Errorf [Str field, Lit '': key length '', Num (int (length k)), Lit '' exceeds max '',
                   Num (int maxStringLength)] (Sentinel ErrPayloadTooLarge)),
        guard (length v > maxStringLength)
          (Errorf [Str field, Lit ''['', Str k, Lit '']: value length '', Num (int (length v)),
                   Lit '' exceeds max '', Num (int maxStringLength)] (Sentinel ErrPayloadTooLarge))])"

definition validateMapLengths :: "string \<Rightarrow> gomap \<Rightarrow> goerr option" where
  "validateMapLengths field m = first_error (concat (map (entry_checks field) m))"

definition validateAlert :: "alert \<Rightarrow> nat \<Rightarrow> goerr option" where
  "validateAlert a index =
     (let prefix = ''alerts['' @ itoa (int index) @ '']'' in
      first_error
        [guard (aFingerprint a = [])
           (Errorf [Str prefix, Lit '': fingerprint must be set''] (Sentinel ErrInvalidPayload)),
         guard (aStatus a = [])
           (Errorf [Str prefix, Lit '': status must be set''] (Sentinel ErrInvalidPayload)),
         guard (aStatus a \<noteq> StatusFiring \<and> aStatus a \<noteq> StatusResolved)
           (Errorf [Str prefix, Lit '': invalid status='', Quo (aStatus a),
                    Lit '', expected firing/resolved''] (Sentinel ErrInvalidPayload)),
         guard (mget (aLabels a) ''alertname'' = [])
           (Errorf [Str prefix, Lit '': labels.alertname must be set''] (Sentinel ErrInvalidPayload)),
         validateStringLength (prefix @ ''.fingerprint'') (aFingerprint a),
         validateStringLength (prefix @ ''.generatorURL'') (aGeneratorURL a),
         validateMapLengths (prefix @ ''.labels'') (aLabels a),
         validateMapLengths (prefix @ ''.annotations'') (aAnnotations a)])"

definition group_checks :: "alert_group \<Rightarrow> int \<Rightarrow> goerr option list" where
  "group_checks g maxAlerts =
     [guard (gGroupKey g = [])
        (Errorf [Lit ''groupKey must be set''] (Sentinel ErrInvalidPayload)),
      guard (gReceiver g = [])
        (Errorf [Lit ''receiver must be set''] (Sentinel ErrInvalidPayload)),
      guard (gStatus g = [])
        (Errorf [Lit ''group status must be set''] (Sentinel ErrInvalidPayload)),
      guard (gStatus g \<noteq> StatusFiring \<and> gStatus g \<noteq> StatusResolved)
        (Errorf [Lit ''invalid group status='', Quo (gStatus g), Lit '', expected firing/resolved'']
           (Sentinel ErrInvalidPayload)),
      validateStringLength ''groupKey'' (gGroupKey g),
      validateStringLength ''receiver'' (gReceiver g),
      validateStringLength ''externalURL'' (gExternalURL g),
      guard (gVersion g \<noteq> ''4'')
        (Errorf [Lit ''unsupported version='', Quo (gVersion g), Lit '', expected \"4\"'']
           (Sentinel ErrInvalidPayload)),
      guard (length (gAlerts g) = 0)
        (Errorf [Lit ''alerts must be non-empty''] (Sentinel ErrInvalidPayload)),
      guard (int (length (gAlerts g)) > maxAlerts)
        (Errorf [Lit ''alerts count '', Num (int (length (gAlerts g))), Lit '' exceeds max '', Num maxAlerts]
           (Sentinel ErrPayloadTooLarge))]"

definition alert_checks :: "alert list \<Rightarrow> goerr option list" where
  "alert_checks as = map (\<lambda>(i, a). validateAlert a i) (enumerate 0 as)"

definition ValidatePayload :: "alert_group \<Rightarrow> int \<Rightarrow> goerr option" where
  "ValidatePayload g maxAlerts = first_error (group_checks g maxAlerts @ alert_checks (gAlerts g))"

section \<open>What an accepted payload satisfies\<close>

definition short :: "string \<Rightarrow> bool" where
  "short s \<longleftrightarrow> length s \<le> maxStringLength"

definition known_status :: "string \<Rightarrow> bool" where
  "known_status s \<longleftrightarrow> s = StatusFiring \<or> s = StatusResolved"

definition short_map :: "gomap \<Rightarrow> bool" where
  "short_map m \<longleftrightarrow> list_all (\<lambda>(k, v). short k \<and> short v) m"

definition valid_alert :: "alert \<Rightarrow> bool" where
  "valid_alert a \<longleftrightarrow>
     aFingerprint a \<noteq> [] \<and> short (aFingerprint a) \<and> known_status (aStatus a)
     \<and> mget (aLabels a) ''alertname'' \<noteq> [] \<and> short (aGeneratorURL a)
     \<and> short_map (aLabels a) \<and> short_map (aAnnotations a)"

definition valid_payload :: "alert_group \<Rightarrow> int \<Rightarrow> bool" where
  "valid_payload g maxAlerts \<longleftrightarrow>
     gGroupKey g \<noteq> [] \<and> short (gGroupKey g) \<and> gReceiver g \<noteq> [] \<and> short (gReceiver g)
     \<and> known_status (gStatus g) \<and> short (gExternalURL g) \<and> gVersion g = ''4''
     \<and> 0 < length (gAlerts g) \<and> int (length (gAlerts g)) \<le> maxAlerts
     \<and> list_all valid_alert (gAlerts g)"

lemma validateStringLength_None [simp]: "validateStringLength f s = None \<longleftrightarrow> short s"
  by (simp add: validateStringLength_def short_def not_less)

lemma validateMapLengths_None [simp]: "validateMapLengths f m = None \<longleftrightarrow> short_map m"
  unfolding validateMapLengths_def
proof (induction m)
  case (Cons kv m)
  obtain k v where "kv = (k, v)" by (cases kv)
  with Cons show ?case
    by (simp add: entry_checks_def short_map_def short_def not_less)
qed (simp add: short_map_def)

lemma validateAlert_None [simp]: "validateAlert a i = None \<longleftrightarrow> valid_alert a"
  by (auto simp: validateAlert_def valid_alert_def known_status_def Let_def)

lemma alert_checks_None: "first_error (alert_checks as) = None \<longleftrightarrow> list_all valid_alert as"
  by (auto simp: first_error_None alert_checks_def list_all_length nth_enumerate_eq)

text \<open>C24: The validator accepts a payload exactly when it satisfies the declarative well-formedness
  predicate: required fields are set, statuses are firing or resolved, the version is 4, there are
  between one and \<open>maxAlerts\<close> alerts, and every checked string is at most 4096 bytes long.\<close>

theorem ValidatePayload_accepts: "ValidatePayload g maxAlerts = None \<longleftrightarrow> valid_payload g maxAlerts"
  by (auto simp: ValidatePayload_def group_checks_def alert_checks_None valid_payload_def known_status_def not_less)

section \<open>What a rejection says\<close>

definition client_error :: "goerr \<Rightarrow> bool" where
  "client_error e \<longleftrightarrow> errors_is e ErrInvalidPayload \<or> errors_is e ErrPayloadTooLarge"

abbreviation too_large :: "goerr \<Rightarrow> bool" where
  "too_large e \<equiv> errors_is e ErrPayloadTooLarge"

lemma validateStringLength_class: "pred_option too_large (validateStringLength f s)"
  by (simp add: validateStringLength_def)

lemma validateMapLengths_class: "pred_option too_large (validateMapLengths f m)"
  unfolding validateMapLengths_def
  by (rule pred_option_first_error) (auto simp: list_all_iff entry_checks_def)

lemma too_large_client: "pred_option too_large x \<Longrightarrow> pred_option client_error x"
  by (auto simp: client_error_def elim: option.pred_mono_strong)

lemmas size_checks_class = validateStringLength_class validateMapLengths_class
  validateStringLength_class [THEN too_large_client] validateMapLengths_class [THEN too_large_client]

lemma client_error_Errorf [simp]: "client_error (Errorf ps e) \<longleftrightarrow> client_error e"
  by (simp add: client_error_def)

lemma client_error_Sentinel [simp]:
  "client_error (Sentinel s) \<longleftrightarrow> s = ErrInvalidPayload \<or> s = ErrPayloadTooLarge"
  by (auto simp: client_error_def)

lemma validateAlert_class: "pred_option client_error (validateAlert a i)"
  unfolding validateAlert_def Let_def
  by (rule pred_option_first_error) (simp add: size_checks_class)

lemma ValidatePayload_class: "pred_option client_error (ValidatePayload g m)"
  unfolding ValidatePayload_def
  by (rule pred_option_first_error)
    (simp add: group_checks_def alert_checks_def list_all_iff size_checks_class validateAlert_class split: prod.splits)

text \<open>Every error of the validator wraps exactly one of the two sentinels that the handler
  answers with a client error, so no rejected payload is reported as a server failure.\<close>

lemma ValidatePayload_error_class:
  assumes "ValidatePayload g maxAlerts = Some e"
  shows "errors_is e ErrInvalidPayload \<noteq> errors_is e ErrPayloadTooLarge"
proof -
  from ValidatePayload_class assms have "client_error e" by (rule pred_optionD)
  then show ?thesis using errors_is_unique by (fastforce simp: client_error_def)
qed

text \<open>When the group-level checks pass, the reported error is that of the first invalid alert of
  the payload, with that alert's index in its text.\<close>

lemma ValidatePayload_first_bad_alert:
  assumes "first_error (group_checks g maxAlerts) = None"
    and "gAlerts g = good @ bad # rest" and "list_all valid_alert good" and "\<not> valid_alert bad"
  shows "\<exists>e. validateAlert bad (length good) = Some e \<and> ValidatePayload g maxAlerts = Some e"
proof -
  obtain e where e: "validateAlert bad (length good) = Some e"
    using assms(4) validateAlert_None by (cases "validateAlert bad (length good)") blast+
  have "alert_checks (gAlerts g)
        = alert_checks good @ validateAlert bad (length good)
          # map (\<lambda>(i, a). validateAlert a i) (enumerate (Suc (length good)) rest)"
    by (simp add: assms(2) alert_checks_def enumerate_append_eq)
  moreover have "first_error (alert_checks good) = None"
    by (simp add: alert_checks_None assms(3))
  ultimately have "first_error (alert_checks (gAlerts g)) = Some e"
    by (simp add: first_error_append e)
  with assms(1) e show ?thesis by (simp add: ValidatePayload_def first_error_append)
qed

text \<open>A concrete payload, used by the witnesses here and in the theories that import this one.\<close>

definition sample_alert :: alert where
  "sample_alert =
     \<lparr>aStatus = ''firing'', aLabels = [(''alertname'', ''Down''), (''pod'', ''p1'')],
      aAnnotations = [(''summary'', ''It is down'')], aStartsAt = GoTime 62135596800 0,
      aEndsAt = zero_time, aGeneratorURL = ''http://prom'', aFingerprint = ''f1''\<rparr>"

definition sample_group :: alert_group where
  "sample_group =
     \<lparr>gReceiver = ''relay'', gStatus = ''firing'', gAlerts = [sample_alert],
      gGroupLabels = [], gCommonLabels = [(''alertname'', ''Down'')], gCommonAnnotations = [],
      gExternalURL = ''http://am'', gVersion = ''4'', gGroupKey = ''k1'', gTruncatedAlerts = 0\<rparr>"

lemma valid_sample_alert: "valid_alert sample_alert"
  by (simp add: sample_alert_def valid_alert_def short_def maxStringLength_def known_status_def
      StatusFiring_def short_map_def)

lemma valid_sample_group: "0 < m \<Longrightarrow> valid_payload sample_group m"
  using valid_sample_alert
  by (simp add: sample_group_def valid_payload_def short_def maxStringLength_def known_status_def StatusFiring_def)

lemma validate_sample_group: "0 < m \<Longrightarrow> ValidatePayload sample_group m = None"
  using valid_sample_group ValidatePayload_accepts by blast

section \<open>Independence of the order in which maps are visited\<close>

definition same_map :: "gomap \<Rightarrow> gomap \<Rightarrow> bool" where
  "same_map m m' \<longleftrightarrow> wf_map m \<and> mset m = mset m'"

lemma same_map_mget: "same_map m m' \<Longrightarrow> mget m = mget m'"
  by (simp add: same_map_def mget_perm)

lemma same_map_short: "same_map m m' \<Longrightarrow> short_map m = short_map m'"
  using mset_eq_setD [of m m'] by (simp add: same_map_def short_map_def list_all_iff)

definition same_alert :: "alert \<Rightarrow> alert \<Rightarrow> bool" where
  "same_alert a b \<longleftrightarrow>
     same_map (aLabels a) (aLabels b) \<and> same_map (aAnnotations a) (aAnnotations b)
     \<and> b = a\<lparr>aLabels := aLabels b, aAnnotations := aAnnotations b\<rparr>"

lemma same_alert_simps:
  assumes "same_alert a b"
  shows "aStatus b = aStatus a" "aStartsAt b = aStartsAt a" "aEndsAt b = aEndsAt a"
    "aGeneratorURL b = aGeneratorURL a" "aFingerprint b = aFingerprint a"
    "same_map (aLabels a) (aLabels b)" "same_map (aAnnotations a) (aAnnotations b)"
proof -
  from assms have b: "b = a\<lparr>aLabels := aLabels b, aAnnotations := aAnnotations b\<rparr>"
    by (simp add: same_alert_def)
  show "aStatus b = aStatus a" "aStartsAt b = aStartsAt a" "aEndsAt b = aEndsAt a"
    "aGeneratorURL b = aGeneratorURL a" "aFingerprint b = aFingerprint a"
    by (subst b, simp)+
  from assms show "same_map (aLabels a) (aLabels b)" "same_map (aAnnotations a) (aAnnotations b)"
    by (simp_all add: same_alert_def)
qed

lemma same_alert_valid: "same_alert a b \<Longrightarrow> valid_alert a = valid_alert b"
  using same_map_mget [OF same_alert_simps(6)] same_map_short [OF same_alert_simps(6)]
    same_map_short [OF same_alert_simps(7)]
  by (simp add: valid_alert_def same_alert_simps)

text \<open>C33: Whether a payload is accepted does not depend on the order in which Go happens to visit
  the entries of its maps.\<close>

theorem ValidatePayload_map_order:
  assumes "list_all2 same_alert as bs"
  shows "ValidatePayload (g\<lparr>gAlerts := as\<rparr>) m = None \<longleftrightarrow> ValidatePayload (g\<lparr>gAlerts := bs\<rparr>) m = None"
proof -
  have "list_all valid_alert as \<longleftrightarrow> list_all valid_alert bs"
    using assms by (induction rule: list_all2_induct) (simp_all add: same_alert_valid)
  with list_all2_lengthD [OF assms] show ?thesis
    by (simp add: ValidatePayload_accepts valid_payload_def)
qed

theorem ValidatePayload_map_order_witness:
  "ValidatePayload (sample_group\<lparr>gAlerts := [sample_alert]\<rparr>) 5 = None
   \<longleftrightarrow> ValidatePayload
        (sample_group\<lparr>gAlerts := [sample_alert\<lparr>aLabels := [(''pod'', ''p1''), (''alertname'', ''Down'')]\<rparr>]\<rparr>) 5
       = None"
  by (rule ValidatePayload_map_order)
    (simp add: same_alert_def same_map_def wf_map_def sample_alert_def)

section \<open>What the validator does not look at\<close>

text \<open>The maps of the group (group labels, common labels, common annotations) and the
  truncation count are never checked: an accepted payload stays accepted whatever they hold, so the
  4096-byte limit on labels and annotations does not bind the common ones.\<close>

lemma ValidatePayload_ignores_group_maps:
  "ValidatePayload (g\<lparr>gGroupLabels := gl, gCommonLabels := cl, gCommonAnnotations := ca, gTruncatedAlerts := t\<rparr>) m
   = ValidatePayload g m"
  by (simp add: ValidatePayload_def group_checks_def)

end
