(* ===== verification/StoreInterface.thy ===== *)
theory StoreInterface imports Alerts begin

text \<open>
  The persistence interfaces as the clients see them: \<open>notify.Store\<close> (\<open>internal/notify/store.go\<close>),
  what the dispatcher polls, and \<open>alerts.Store\<close> (\<open>internal/alerts/store.go\<close>), which adds \<open>Save\<close>.
  The contract is stated over an abstraction of the store: the map from the group keys that await
  delivery to their groups, and the set of all keys ever saved.  The environment \<open>'e\<close> holds
  whatever one call meets outside the program (clock, random ids, driver failures).
\<close>

locale notify_store =
  fixes get_pending :: "'e \<Rightarrow> int \<Rightarrow> 's \<Rightarrow> goerr + alert_group list"
    and mark_sent :: "'e \<Rightarrow> string \<Rightarrow> 's \<Rightarrow> goerr option \<times> 's"
    and pend :: "'s \<Rightarrow> string \<rightharpoonup> alert_group"
    and known :: "'s \<Rightarrow> string set"
    and inv :: "'s \<Rightarrow> bool"
  assumes pend_key: "inv s \<Longrightarrow> pend s k = Some g \<Longrightarrow> gGroupKey g = k \<and> k \<in> known s"
    and get_pending_sound:
      "inv s \<Longrightarrow> get_pending e n s = Inr gs \<Longrightarrow>
         distinct (map gGroupKey gs) \<and> (\<forall>g\<in>set gs. pend s (gGroupKey g) = Some g)"
    and get_pending_fills:
      "inv s \<Longrightarrow> get_pending e n s = Inr gs \<Longrightarrow> pend s k = Some g \<Longrightarrow> g \<notin> set gs \<Longrightarrow>
         0 \<le> n \<and> length gs = nat n"
    and get_pending_limit: "inv s \<Longrightarrow> get_pending e n s = Inr gs \<Longrightarrow> 0 \<le> n \<Longrightarrow> length gs \<le> nat n"
    and mark_sent_ok:
      "inv s \<Longrightarrow> mark_sent e k s = (None, s') \<Longrightarrow>
         inv s' \<and> k \<in> known s \<and> known s' = known s \<and> pend s' = (pend s)(k := None)"
    and mark_sent_err:
      "inv s \<Longrightarrow> mark_sent e k s = (Some err, s') \<Longrightarrow>
         inv s' \<and> known s' = known s \<and> (pend s' = pend s \<or> pend s' = (pend s)(k := None))"
begin

lemma get_pending_complete:
  assumes "inv s" "get_pending e n s = Inr gs" "n < 0 \<or> length gs < nat n"
  shows "pend s k = Some g \<longleftrightarrow> g \<in> set gs \<and> gGroupKey g = k"
proof
  assume p: "pend s k = Some g"
  with get_pending_fills [OF assms(1,2) p] assms(3) have "g \<in> set gs" by fastforce
  with pend_key [OF assms(1) p] show "g \<in> set gs \<and> gGroupKey g = k" by simp
next
  assume "g \<in> set gs \<and> gGroupKey g = k"
  with get_pending_sound [OF assms(1,2)] show "pend s k = Some g" by blast
qed

lemma mark_sent_frame:
  assumes "inv s" "mark_sent e k s = (r, s')" "k' \<noteq> k"
  shows "pend s' k' = pend s k'"
proof (cases r)
  case None
  with mark_sent_ok assms(1,2) have "pend s' = (pend s)(k := None)" by blast
  with assms(3) show ?thesis by simp
next
  case (Some err)
  with mark_sent_err assms(1,2) have "pend s' = pend s \<or> pend s' = (pend s)(k := None)" by blast
  with assms(3) show ?thesis by auto
qed

lemma mark_sent_inv: "inv s \<Longrightarrow> mark_sent e k s = (r, s') \<Longrightarrow> inv s'"
  using mark_sent_ok mark_sent_err by (cases r) blast+

lemma mark_sent_unknown: "inv s \<Longrightarrow> k \<notin> known s \<Longrightarrow> fst (mark_sent e k s) \<noteq> None"
  using mark_sent_ok by (metis prod.collapse)

lemma marked_not_polled:
  assumes "inv s" "mark_sent e k s = (None, s')" "get_pending e' n s' = Inr gs"
  shows "k \<notin> gGroupKey ` set gs"
proof -
  from mark_sent_ok [OF assms(1,2)] have "inv s'" "pend s' k = None" by simp_all
  with get_pending_sound [OF _ assms(3)] show ?thesis by fastforce
qed

end

locale alert_store = notify_store get_pending mark_sent pend known inv
  for get_pending :: "'e \<Rightarrow> int \<Rightarrow> 's \<Rightarrow> goerr + alert_group list"
    and mark_sent :: "'e \<Rightarrow> string \<Rightarrow> 's \<Rightarrow> goerr option \<times> 's"
    and pend :: "'s \<Rightarrow> string \<rightharpoonup> alert_group"
    and known :: "'s \<Rightarrow> string set"
    and inv :: "'s \<Rightarrow> bool" +
  fixes save :: "'e \<Rightarrow> alert_group \<Rightarrow> 's \<Rightarrow> goerr option \<times> 's"
    and storable :: "alert_group \<Rightarrow> bool"
  assumes save_ok:
      "inv s \<Longrightarrow> storable g \<Longrightarrow> save e g s = (None, s') \<Longrightarrow>
         inv s' \<and> known s' = insert (gGroupKey g) (known s) \<and> pend s' = (pend s)(gGroupKey g \<mapsto> g)"
    and save_err: "save e g s = (Some err, s') \<Longrightarrow> s' = s"
begin

lemma save_inv: "inv s \<Longrightarrow> storable g \<Longrightarrow> save e g s = (r, s') \<Longrightarrow> inv s'"
  using save_ok save_err by (cases r) blast+

lemma save_then_polled:
  assumes "inv s" "storable g" "save e g s = (None, s')"
    and "get_pending e' n s' = Inr gs" "n < 0 \<or> length gs < nat n"
  shows "g \<in> set gs"
proof (rule ccontr)
  assume "g \<notin> set gs"
  moreover from save_ok [OF assms(1-3)] have "inv s'" "pend s' (gGroupKey g) = Some g" by simp_all
  ultimately show False using get_pending_fills [OF _ assms(4)] assms(5) by fastforce
qed

lemma save_twice:
  assumes "inv s" "storable g" "save e g s = (None, s1)" "save e' g s1 = (None, s2)"
  shows "pend s2 = pend s1 \<and> known s2 = known s1"
  using save_ok [OF assms(1-3)] save_ok [OF _ assms(2,4)] by auto

end

end
