(* ===== verification/SqliteStore.thy ===== *)
theory SqliteStore imports StoreInterface begin

text \<open>
  Package \<open>internal/storage/sqlite\<close>: the tables of \<open>migrations/sqlite\<close> as lists of rows (in rowid
  order) and the operations of \<open>store.go\<close>, statement by statement.  Every statement can fail: the
  environment gives, for each statement of the operation, the error the driver returns, if any.
  A failed statement inside \<open>Save\<close> ends the operation with the transaction rolled back.

  What is outside the repository is a parameter: \<open>marshal\<close> and \<open>unmarshal\<close> are \<open>encoding/json\<close> on
  an alert group (with the payload column of type \<open>'p\<close>), \<open>e_ids\<close> the ids that
  \<open>lower(hex(randomblob(16)))\<close> produces (0 for the group, \<open>i + 1\<close> for the alert \<open>i\<close>), \<open>e_now\<close> the
  second that \<open>datetime('now')\<close> reads.
\<close>

section \<open>Tables\<close>

definition pendingStatus :: string where
  "pendingStatus = ''pending''"

definition sentStatus :: string where
  "sentStatus = ''sent''"

lemma pending_sent [simp]: "pendingStatus \<noteq> sentStatus" "sentStatus \<noteq> pendingStatus"
  by (simp_all add: pendingStatus_def sentStatus_def)

record 'p group_row =
  r_id :: string
  r_group_key :: string
  r_receiver :: string
  r_status :: string
  r_external_url :: string
  r_payload :: 'p
  r_received_at :: int
  r_notification_status :: string

record alert_row =
  ar_id :: string
  ar_group_id :: string
  ar_fingerprint :: string
  ar_status :: string
  ar_alertname :: string
  ar_severity :: string
  ar_starts_at :: string
  ar_ends_at :: "string option"

record 'p db =
  alert_groups :: "'p group_row list"
  alerts_table :: "alert_row list"
  health_check :: "(int \<times> int) list"

text \<open>The database right after the migrations.\<close>

definition migrated :: "int \<Rightarrow> 'p db" where
  "migrated t = \<lparr>alert_groups = [], alerts_table = [], health_check = [(1, t)]\<rparr>"

datatype stmt =
    MarshalPayload | BeginTx | UpsertGroup | DeleteAlerts | PrepareInsert | InsertAlert nat | CommitTx
  | QueryPending | ScanRow nat | UnmarshalRow nat | RowsErr | UpdateSent | UpdateHealth | RowsAffected

record env =
  e_now :: int
  e_ids :: "nat \<Rightarrow> string"
  e_fail :: "stmt \<Rightarrow> goerr option"

definition no_faults :: "stmt \<Rightarrow> goerr option" where
  "no_faults = (\<lambda>_. None)"

text \<open>A statement: the error the driver reports for it, wrapped with the code's message, or the value \<open>x\<close>.\<close>

definition run_stmt :: "env \<Rightarrow> stmt \<Rightarrow> fmtpart list \<Rightarrow> 'a \<Rightarrow> goerr + 'a" where
  "run_stmt e s msg x = (case e_fail e s of None \<Rightarrow> Inr x | Some err \<Rightarrow> Inl (Errorf msg err))"

lemma run_stmt_Inr [simp]: "run_stmt e s msg x = Inr y \<longleftrightarrow> e_fail e s = None \<and> x = y"
  by (auto simp: run_stmt_def split: option.splits)

lemma run_stmt_no_faults [simp]: "e_fail e = no_faults \<Longrightarrow> run_stmt e s msg x = Inr x"
  by (simp add: no_faults_def)

section \<open>Save\<close>

definition group_row_of :: "string \<Rightarrow> int \<Rightarrow> 'p \<Rightarrow> alert_group \<Rightarrow> 'p group_row" where
  "group_row_of rid now payload g =
     \<lparr>r_id = rid, r_group_key = gGroupKey g, r_receiver = gReceiver g, r_status = gStatus g,
      r_external_url = gExternalURL g, r_payload = payload, r_received_at = now,
      r_notification_status = pendingStatus\<rparr>"

text \<open>
  \<open>INSERT ... ON CONFLICT(group_key) DO UPDATE ... RETURNING id\<close>: a row with the group key keeps
  its place and its id and takes every other column from the new row; without one the new row is
  inserted, unless its id is taken (the primary key).
\<close>

definition upsert_group :: "'p group_row \<Rightarrow> 'p group_row list \<Rightarrow> goerr + 'p group_row list \<times> string" where
  "upsert_group new rows =
     (case find (\<lambda>r. r_group_key r = r_group_key new) rows of
        Some old \<Rightarrow>
          Inr (map (\<lambda>r. if r_group_key r = r_group_key new then new\<lparr>r_id := r_id r\<rparr> else r) rows, r_id old)
      | None \<Rightarrow>
          if r_id new \<in> r_id ` set rows then Inl (Foreign ''UNIQUE constraint failed: alert_groups.id'')
          else Inr (rows @ [new], r_id new))"

definition alert_row_of :: "string \<Rightarrow> string \<Rightarrow> alert \<Rightarrow> alert_row" where
  "alert_row_of rid gid a =
     \<lparr>ar_id = rid, ar_group_id = gid, ar_fingerprint = aFingerprint a, ar_status = aStatus a,
      ar_alertname = mget (aLabels a) ''alertname'', ar_severity = mget (aLabels a) ''severity'',
      ar_starts_at = format_store (aStartsAt a),
      ar_ends_at = (if IsZero (aEndsAt a) then None else Some (format_store (aEndsAt a)))\<rparr>"

fun insert_alerts :: "env \<Rightarrow> string \<Rightarrow> nat \<Rightarrow> alert list \<Rightarrow> alert_row list \<Rightarrow> goerr + alert_row list" where
  "insert_alerts e gid i [] tbl = Inr tbl"
| "insert_alerts e gid i (a # as) tbl =
     bindE (run_stmt e (InsertAlert i) [Lit ''sqlite insert alert['', Num (int i), Lit '']''] ())
       (\<lambda>_. if e_ids e (Suc i) \<in> ar_id ` set tbl
             then Inl (Errorf [Lit ''sqlite insert alert['', Num (int i), Lit '']'']
                         (Foreign ''UNIQUE constraint failed: alerts.id''))
             else insert_alerts e gid (Suc i) as (tbl @ [alert_row_of (e_ids e (Suc i)) gid a]))"

text \<open>The transaction: the new tables, or the error that ends it.\<close>

definition save_tx :: "env \<Rightarrow> 'p \<Rightarrow> alert_group \<Rightarrow> 'p db \<Rightarrow> goerr + 'p db" where
  "save_tx e payload g d =
     bindE (run_stmt e BeginTx [Lit ''sqlite begin tx''] ()) (\<lambda>_.
     bindE (run_stmt e UpsertGroup [Lit ''sqlite upsert alert_group''] ()) (\<lambda>_.
     bindE (case upsert_group (group_row_of (e_ids e 0) (e_now e) payload g) (alert_groups d) of
              Inl err \<Rightarrow> Inl (Errorf [Lit ''sqlite upsert alert_group''] err)
            | Inr r \<Rightarrow> Inr r) (\<lambda>(rows, gid).
     bindE (run_stmt e DeleteAlerts [Lit ''sqlite delete old alerts'']
              (filter (\<lambda>ar. ar_group_id ar \<noteq> gid) (alerts_table d))) (\<lambda>kept.
     bindE (run_stmt e PrepareInsert [Lit ''sqlite prepare alert insert''] ()) (\<lambda>_.
     bindE (insert_alerts e gid 0 (gAlerts g) kept) (\<lambda>tbl.
     run_stmt e CommitTx [Lit ''sqlite commit''] (d\<lparr>alert_groups := rows, alerts_table := tbl\<rparr>)))))))"

definition Save :: "(alert_group \<Rightarrow> 'p option) \<Rightarrow> env \<Rightarrow> alert_group \<Rightarrow> 'p db \<Rightarrow> goerr option \<times> 'p db" where
  "Save marshal e g d =
     (case marshal g of
        None \<Rightarrow> (Some (Errorf [Lit ''sqlite marshal payload''] (Foreign ''json'')), d)
      | Some payload \<Rightarrow>
          (case save_tx e payload g d of
             Inl err \<Rightarrow> (Some err, d)
           | Inr d' \<Rightarrow> (None, d')))"

section \<open>GetPending\<close>

text \<open>\<open>LIMIT n\<close>: a negative limit is no limit.\<close>

definition sql_limit :: "int \<Rightarrow> 'a list \<Rightarrow> 'a list" where
  "sql_limit n xs = (if n < 0 then xs else take (nat n) xs)"

definition is_pending :: "'p group_row \<Rightarrow> bool" where
  "is_pending r \<longleftrightarrow> r_notification_status r = pendingStatus"

definition select_pending :: "int \<Rightarrow> 'p group_row list \<Rightarrow> 'p group_row list" where
  "select_pending limit rows = sql_limit limit (sort_key r_received_at (filter is_pending rows))"

fun decode_rows :: "('p \<Rightarrow> alert_group option) \<Rightarrow> env \<Rightarrow> nat \<Rightarrow> 'p group_row list \<Rightarrow> goerr + alert_group list" where
  "decode_rows unmarshal e i [] = Inr []"
| "decode_rows unmarshal e i (r # rs) =
     bindE (run_stmt e (ScanRow i) [Lit ''sqlite scan pending row''] ()) (\<lambda>_.
     case unmarshal (r_payload r) of
       None \<Rightarrow> Inl (Errorf [Lit ''sqlite unmarshal payload for group_key='', Str (r_group_key r)] (Foreign ''json''))
     | Some g \<Rightarrow> bindE (decode_rows unmarshal e (Suc i) rs) (\<lambda>gs. Inr (g # gs)))"

definition GetPending :: "('p \<Rightarrow> alert_group option) \<Rightarrow> env \<Rightarrow> int \<Rightarrow> 'p db \<Rightarrow> goerr + alert_group list" where
  "GetPending unmarshal e limit d =
     bindE (run_stmt e QueryPending [Lit ''sqlite query pending''] (select_pending limit (alert_groups d))) (\<lambda>rows.
     bindE (decode_rows unmarshal e 0 rows) (\<lambda>gs.
     run_stmt e RowsErr [Lit ''sqlite rows iteration''] gs))"

section \<open>MarkSent, Check\<close>

definition mark_rows :: "string \<Rightarrow> 'p group_row list \<Rightarrow> 'p group_row list" where
  "mark_rows key = map (\<lambda>r. if r_group_key r = key then r\<lparr>r_notification_status := sentStatus\<rparr> else r)"

text \<open>
  The \<open>UPDATE\<close> commits on its own, before its row count is read; an error of \<open>RowsAffected\<close>
  therefore leaves the rows updated.
\<close>

definition MarkSent :: "env \<Rightarrow> string \<Rightarrow> 'p db \<Rightarrow> goerr option \<times> 'p db" where
  "MarkSent e key d =
     (case e_fail e UpdateSent of
        Some err \<Rightarrow> (Some (Errorf [Lit ''sqlite mark sent''] err), d)
      | None \<Rightarrow>
          (let n = length (filter (\<lambda>r. r_group_key r = key) (alert_groups d));
               d' = d\<lparr>alert_groups := mark_rows key (alert_groups d)\<rparr>
           in case e_fail e RowsAffected of
                Some err \<Rightarrow> (Some (Errorf [Lit ''sqlite rows affected''] err), d')
              | None \<Rightarrow>
                  if n = 0 then (Some (Errorf [Lit ''group_key='', Quo key] (Sentinel ErrNotFound)), d')
                  else (None, d')))"

definition store_Check :: "env \<Rightarrow> 'p db \<Rightarrow> goerr option \<times> 'p db" where
  "store_Check e d =
     (case e_fail e UpdateHealth of
        Some err \<Rightarrow> (Some (Errorf [Lit ''sqlite write check''] err), d)
      | None \<Rightarrow>
          (let rows = length (filter (\<lambda>(i, t). i = 1) (health_check d));
               d' = d\<lparr>health_check := map (\<lambda>(i, t). (i, if i = 1 then e_now e else t)) (health_check d)\<rparr>
           in case e_fail e RowsAffected of
                Some err \<Rightarrow> (Some (Errorf [Lit ''sqlite write check rows affected''] err), d')
              | None \<Rightarrow>
                  if rows \<noteq> 1
                  then (Some (Opaque [Lit ''sqlite write check: expected 1 row affected, got '', Num (int rows)]), d')
                  else (None, d')))"

definition store_Name :: string where
  "store_Name = ''sqlite''"

section \<open>What the statements do\<close>

abbreviation keys :: "'p group_row list \<Rightarrow> string set" where
  "keys rows \<equiv> r_group_key ` set rows"

lemma find_split:
  assumes "distinct (map f rows)" "find (\<lambda>r. f r = k) rows = Some old"
  shows "\<exists>us vs. rows = us @ old # vs \<and> f old = k \<and> k \<notin> f ` set us \<and> k \<notin> f ` set vs"
proof -
  from assms(2) have "old \<in> set rows" "f old = k" by (auto simp: find_Some_iff)
  then obtain us vs where "rows = us @ old # vs" by (meson split_list)
  with assms(1) \<open>f old = k\<close> show ?thesis by (intro exI [of _ us] exI [of _ vs]) auto
qed

lemma map_unless: "k \<notin> f ` set xs \<Longrightarrow> map (\<lambda>r. if f r = k then h r else r) xs = xs"
  by (induction xs) auto

lemma upsert_group_cases:
  assumes "distinct (map r_group_key rows)" "upsert_group new rows = Inr (rows', gid)"
  obtains (update) us old vs where "rows = us @ old # vs" "r_group_key old = r_group_key new"
      "r_group_key new \<notin> keys us" "r_group_key new \<notin> keys vs"
      "rows' = us @ new\<lparr>r_id := r_id old\<rparr> # vs" "gid = r_id old"
  | (insert) "r_group_key new \<notin> keys rows" "r_id new \<notin> r_id ` set rows" "rows' = rows @ [new]" "gid = r_id new"
proof (cases "find (\<lambda>r. r_group_key r = r_group_key new) rows")
  case None
  then have "r_group_key new \<notin> keys rows" by (auto simp: find_None_iff)
  with None assms(2) insert show ?thesis by (simp add: upsert_group_def split: if_splits)
next
  case (Some old)
  from find_split [OF assms(1) Some] obtain us vs where
    s: "rows = us @ old # vs" "r_group_key old = r_group_key new"
    "r_group_key new \<notin> keys us" "r_group_key new \<notin> keys vs" by blast
  with Some have "upsert_group new rows = Inr (us @ new\<lparr>r_id := r_id old\<rparr> # vs, r_id old)"
    by (simp add: upsert_group_def map_unless)
  from trans [OF this [symmetric] assms(2)]
  have "us @ new\<lparr>r_id := r_id old\<rparr> # vs = rows' \<and> r_id old = gid" unfolding sum.inject prod.inject .
  with s show ?thesis using update by blast
qed

lemma alert_row_of_simps [simp]: "ar_group_id (alert_row_of rid gid a) = gid" "ar_id (alert_row_of rid gid a) = rid"
  "(alert_row_of rid gid a)\<lparr>ar_id := rid'\<rparr> = alert_row_of rid' gid a"
  by (simp_all add: alert_row_of_def)

lemma insert_alerts_step:
  assumes "insert_alerts e gid i (a # as) tbl = Inr tbl'"
  shows "e_ids e (Suc i) \<notin> ar_id ` set tbl"
    and "insert_alerts e gid (Suc i) as (tbl @ [alert_row_of (e_ids e (Suc i)) gid a]) = Inr tbl'"
  using assms by (auto simp: bindE_Inr split: if_splits)

lemma insert_alerts_shape:
  "insert_alerts e gid i as tbl = Inr tbl' \<Longrightarrow>
     tbl' = tbl @ map (\<lambda>(j, a). alert_row_of (e_ids e (Suc j)) gid a) (enumerate i as)"
proof (induction as arbitrary: i tbl)
  case (Cons a as)
  from Cons.IH [OF insert_alerts_step(2) [OF Cons.prems]] show ?case by simp
qed simp

lemma insert_alerts_distinct:
  "insert_alerts e gid i as tbl = Inr tbl' \<Longrightarrow> distinct (map ar_id tbl) \<Longrightarrow> distinct (map ar_id tbl')"
proof (induction as arbitrary: i tbl)
  case (Cons a as)
  from insert_alerts_step(1) [OF Cons.prems(1)] Cons.prems(2)
  have "distinct (map ar_id (tbl @ [alert_row_of (e_ids e (Suc i)) gid a]))" by auto
  with insert_alerts_step(2) [OF Cons.prems(1)] show ?case by (rule Cons.IH)
qed simp

text \<open>The alert rows of one group, without their ids, are the group's alerts in order.\<close>

definition mirrors :: "alert_row list \<Rightarrow> string \<Rightarrow> alert list \<Rightarrow> bool" where
  "mirrors tbl gid as \<longleftrightarrow>
     map (\<lambda>ar. ar\<lparr>ar_id := []\<rparr>) (filter (\<lambda>ar. ar_group_id ar = gid) tbl) = map (alert_row_of [] gid) as"

lemma insert_alerts_mirrors:
  assumes "insert_alerts e gid 0 as (filter (\<lambda>ar. ar_group_id ar \<noteq> gid) tbl) = Inr tbl'"
  shows "mirrors tbl' gid as" and "gid' \<noteq> gid \<Longrightarrow> mirrors tbl' gid' bs = mirrors tbl gid' bs"
    and "ar_group_id ` set tbl' \<subseteq> insert gid (ar_group_id ` set tbl)"
    and "distinct (map ar_id tbl) \<Longrightarrow> distinct (map ar_id tbl')"
proof -
  let ?new = "map (\<lambda>(j, a). alert_row_of (e_ids e (Suc j)) gid a) (enumerate 0 as)"
  have t: "tbl' = filter (\<lambda>ar. ar_group_id ar \<noteq> gid) tbl @ ?new"
    using insert_alerts_shape [OF assms] .
  have g: "\<forall>ar\<in>set ?new. ar_group_id ar = gid" by auto
  have e: "map (\<lambda>ar. ar\<lparr>ar_id := []\<rparr>) ?new = map (alert_row_of [] gid) as"
    by (rule nth_equalityI) (simp_all add: nth_enumerate_eq)
  show "mirrors tbl' gid as" using g e by (simp add: mirrors_def t filter_id_conv)
  show "gid' \<noteq> gid \<Longrightarrow> mirrors tbl' gid' bs = mirrors tbl gid' bs"
  proof -
    assume n: "gid' \<noteq> gid"
    then have "filter (\<lambda>ar. ar_group_id ar = gid') ?new = []" using g by (auto simp: filter_empty_conv)
    moreover from n have "filter (\<lambda>ar. ar_group_id ar = gid') (filter (\<lambda>ar. ar_group_id ar \<noteq> gid) tbl)
      = filter (\<lambda>ar. ar_group_id ar = gid') tbl" by (auto intro!: filter_cong)
    ultimately show ?thesis by (simp add: mirrors_def t)
  qed
  show "ar_group_id ` set tbl' \<subseteq> insert gid (ar_group_id ` set tbl)" using t by auto
  show "distinct (map ar_id tbl) \<Longrightarrow> distinct (map ar_id tbl')"
    using insert_alerts_distinct [OF assms] by (simp add: distinct_map_filter)
qed

lemma upsert_group_effect:
  assumes "distinct (map r_group_key rows)" "distinct (map r_id rows)" "upsert_group new rows = Inr (rows', gid)"
  defines "new' \<equiv> new\<lparr>r_id := gid\<rparr>"
  shows "distinct (map r_group_key rows')" "distinct (map r_id rows')"
    and "r_id ` set rows' = insert gid (r_id ` set rows)"
    and "set rows' = insert new' {r \<in> set rows. r_group_key r \<noteq> r_group_key new}"
    and "r \<in> set rows \<Longrightarrow> r_group_key r \<noteq> r_group_key new \<Longrightarrow> r_id r \<noteq> gid"
proof -
  from assms(1,3) have "distinct (map r_group_key rows') \<and> distinct (map r_id rows')
      \<and> r_id ` set rows' = insert gid (r_id ` set rows)
      \<and> set rows' = insert new' {r \<in> set rows. r_group_key r \<noteq> r_group_key new}
      \<and> (\<forall>r\<in>set rows. r_group_key r \<noteq> r_group_key new \<longrightarrow> r_id r \<noteq> gid)"
  proof (cases rule: upsert_group_cases)
    case (update us old vs)
    with assms(1,2) show ?thesis unfolding new'_def by (auto simp: image_iff)
  next
    case insert
    with assms(1,2) show ?thesis unfolding new'_def by (auto simp: image_iff)
  qed
  then show "distinct (map r_group_key rows')" "distinct (map r_id rows')"
    and "r_id ` set rows' = insert gid (r_id ` set rows)"
    and "set rows' = insert new' {r \<in> set rows. r_group_key r \<noteq> r_group_key new}"
    and "r \<in> set rows \<Longrightarrow> r_group_key r \<noteq> r_group_key new \<Longrightarrow> r_id r \<noteq> gid"
    by blast+
qed

section \<open>The database invariant\<close>

text \<open>
  The constraints of the schema (unique group keys and ids, alert rows of existing groups) and what
  \<open>Save\<close> keeps between the columns: the payload decodes to a group with the key, receiver, status
  and URL of the row, and the rows of the table \<open>alerts\<close> mirror that group's alerts.
\<close>

definition row_ok :: "('p \<Rightarrow> alert_group option) \<Rightarrow> alert_row list \<Rightarrow> 'p group_row \<Rightarrow> bool" where
  "row_ok unmarshal tbl r \<longleftrightarrow>
     r_notification_status r \<in> {pendingStatus, sentStatus}
     \<and> (case unmarshal (r_payload r) of
          None \<Rightarrow> False
        | Some g \<Rightarrow> gGroupKey g = r_group_key r \<and> gReceiver g = r_receiver r \<and> gStatus g = r_status r
                    \<and> gExternalURL g = r_external_url r \<and> mirrors tbl (r_id r) (gAlerts g))"

definition db_wf :: "('p \<Rightarrow> alert_group option) \<Rightarrow> 'p db \<Rightarrow> bool" where
  "db_wf unmarshal d \<longleftrightarrow>
     distinct (map r_group_key (alert_groups d)) \<and> distinct (map r_id (alert_groups d))
     \<and> distinct (map ar_id (alerts_table d))
     \<and> ar_group_id ` set (alerts_table d) \<subseteq> r_id ` set (alert_groups d)
     \<and> list_all (row_ok unmarshal (alerts_table d)) (alert_groups d)"

text \<open>A group that \<open>encoding/json\<close> reads back as it was written (or refuses to write).\<close>

definition storable :: "(alert_group \<Rightarrow> 'p option) \<Rightarrow> ('p \<Rightarrow> alert_group option) \<Rightarrow> alert_group \<Rightarrow> bool" where
  "storable marshal unmarshal g \<longleftrightarrow> (case marshal g of None \<Rightarrow> True | Some p \<Rightarrow> unmarshal p = Some g)"

lemma save_tx_Inr:
  assumes "save_tx e payload g d = Inr d'"
  obtains rows gid tbl where
    "upsert_group (group_row_of (e_ids e 0) (e_now e) payload g) (alert_groups d) = Inr (rows, gid)"
    "insert_alerts e gid 0 (gAlerts g) (filter (\<lambda>ar. ar_group_id ar \<noteq> gid) (alerts_table d)) = Inr tbl"
    "d' = d\<lparr>alert_groups := rows, alerts_table := tbl\<rparr>"
  using assms by (auto simp: save_tx_def bindE_Inr split: sum.splits prod.splits)

lemma migrated_wf: "db_wf unmarshal (migrated t)"
  by (simp add: db_wf_def migrated_def)

lemma group_row_of_simps [simp]:
  "r_group_key (group_row_of rid now p g) = gGroupKey g" "r_payload (group_row_of rid now p g) = p"
  "r_receiver (group_row_of rid now p g) = gReceiver g" "r_status (group_row_of rid now p g) = gStatus g"
  "r_external_url (group_row_of rid now p g) = gExternalURL g" "r_received_at (group_row_of rid now p g) = now"
  "r_notification_status (group_row_of rid now p g) = pendingStatus" "r_id (group_row_of rid now p g) = rid"
  "(group_row_of rid now p g)\<lparr>r_id := rid'\<rparr> = group_row_of rid' now p g"
  by (simp_all add: group_row_of_def)

lemma save_tx_effect:
  assumes "db_wf unmarshal d" "unmarshal payload = Some g" "save_tx e payload g d = Inr d'"
  obtains gid where "db_wf unmarshal d'"
    "set (alert_groups d') = insert (group_row_of gid (e_now e) payload g)
       {r \<in> set (alert_groups d). r_group_key r \<noteq> gGroupKey g}"
    "mirrors (alerts_table d') gid (gAlerts g)" "health_check d' = health_check d"
proof -
  from save_tx_Inr [OF assms(3)] obtain rows gid tbl where
    up: "upsert_group (group_row_of (e_ids e 0) (e_now e) payload g) (alert_groups d) = Inr (rows, gid)"
    and ins: "insert_alerts e gid 0 (gAlerts g) (filter (\<lambda>ar. ar_group_id ar \<noteq> gid) (alerts_table d)) = Inr tbl"
    and d': "d' = d\<lparr>alert_groups := rows, alerts_table := tbl\<rparr>" .
  from assms(1) have wf: "distinct (map r_group_key (alert_groups d))" "distinct (map r_id (alert_groups d))"
    "distinct (map ar_id (alerts_table d))" "ar_group_id ` set (alerts_table d) \<subseteq> r_id ` set (alert_groups d)"
    "list_all (row_ok unmarshal (alerts_table d)) (alert_groups d)"
    by (simp_all add: db_wf_def)
  note u = upsert_group_effect [OF wf(1,2) up, unfolded group_row_of_simps]
  note i = insert_alerts_mirrors [OF ins]
  have "row_ok unmarshal tbl (group_row_of gid (e_now e) payload g)"
    using assms(2) i(1) by (simp add: row_ok_def)
  moreover have "row_ok unmarshal tbl r"
    if "r \<in> set (alert_groups d)" "r_group_key r \<noteq> gGroupKey g" for r
  proof -
    from that wf(5) have "row_ok unmarshal (alerts_table d) r" by (auto simp: list_all_iff)
    moreover from u(5) that have "r_id r \<noteq> gid" by blast
    ultimately show ?thesis using i(2) by (simp add: row_ok_def split: option.splits)
  qed
  ultimately have "list_all (row_ok unmarshal tbl) rows" by (auto simp: list_all_iff u(4))
  moreover have "ar_group_id ` set tbl \<subseteq> r_id ` set rows" unfolding u(3) using i(3) wf(4) by (meson insert_mono order_trans)
  ultimately have "db_wf unmarshal d'" using u(1,2) i(4) [OF wf(3)] by (simp add: db_wf_def d')
  then show ?thesis using that [of gid] u(4) i(1) by (simp add: d')
qed

section \<open>The abstraction: which groups await delivery\<close>

definition pending_map :: "('p \<Rightarrow> alert_group option) \<Rightarrow> 'p db \<Rightarrow> string \<rightharpoonup> alert_group" where
  "pending_map unmarshal d k =
     (case find (\<lambda>r. r_group_key r = k \<and> is_pending r) (alert_groups d) of
        None \<Rightarrow> None | Some r \<Rightarrow> unmarshal (r_payload r))"

definition known_keys :: "'p db \<Rightarrow> string set" where
  "known_keys d = keys (alert_groups d)"

lemma unique_row:
  "db_wf unmarshal d \<Longrightarrow> r \<in> set (alert_groups d) \<Longrightarrow> r' \<in> set (alert_groups d) \<Longrightarrow>
     r_group_key r = r_group_key r' \<Longrightarrow> r = r'"
  unfolding db_wf_def by (meson distinct_map inj_onD)

lemma pending_map_iff:
  assumes "db_wf unmarshal d"
  shows "pending_map unmarshal d k = Some g \<longleftrightarrow>
           (\<exists>r\<in>set (alert_groups d). r_group_key r = k \<and> is_pending r \<and> unmarshal (r_payload r) = Some g)"
proof (cases "find (\<lambda>r. r_group_key r = k \<and> is_pending r) (alert_groups d)")
  case None
  then have "pending_map unmarshal d k = None" by (simp add: pending_map_def)
  with None show ?thesis by (auto simp: find_None_iff)
next
  case (Some r)
  then have "r \<in> set (alert_groups d)" "r_group_key r = k" "is_pending r" by (auto simp: find_Some_iff)
  with Some unique_row [OF assms] show ?thesis by (auto simp: pending_map_def)
qed

lemma row_decodes:
  assumes "db_wf unmarshal d" "r \<in> set (alert_groups d)"
  obtains g where "unmarshal (r_payload r) = Some g" "gGroupKey g = r_group_key r"
  using assms by (auto simp: db_wf_def list_all_iff row_ok_def split: option.splits)

lemma is_pending_group_row_of [simp]: "is_pending (group_row_of rid now p g)"
  by (simp add: is_pending_def)

lemma pending_map_save:
  assumes "db_wf unmarshal d" "unmarshal payload = Some g" "save_tx e payload g d = Inr d'"
  shows "pending_map unmarshal d' = (pending_map unmarshal d)(gGroupKey g \<mapsto> g)"
proof (rule map_ext_Some)
  from save_tx_effect [OF assms] obtain gid where wf: "db_wf unmarshal d'"
    and rows: "set (alert_groups d') = insert (group_row_of gid (e_now e) payload g)
       {r \<in> set (alert_groups d). r_group_key r \<noteq> gGroupKey g}" .
  fix k g'
  show "pending_map unmarshal d' k = Some g' \<longleftrightarrow> ((pending_map unmarshal d)(gGroupKey g \<mapsto> g)) k = Some g'"
    unfolding pending_map_iff [OF wf] rows using assms(2)
    by (auto simp: pending_map_iff [OF assms(1)])
qed

lemma mark_rows_set: "set (mark_rows k rows) = (\<lambda>r. if r_group_key r = k then r\<lparr>r_notification_status := sentStatus\<rparr> else r) ` set rows"
  by (simp add: mark_rows_def)

lemma mark_rows_cols [simp]:
  "map r_group_key (mark_rows k rows) = map r_group_key rows" "map r_id (mark_rows k rows) = map r_id rows"
  by (auto simp: mark_rows_def)

lemma mark_rows_wf:
  assumes "db_wf unmarshal d"
  shows "db_wf unmarshal (d\<lparr>alert_groups := mark_rows k (alert_groups d)\<rparr>)"
proof -
  have "r_id ` set (mark_rows k (alert_groups d)) = r_id ` set (alert_groups d)"
    by (metis mark_rows_cols(2) list.set_map)
  moreover have "list_all (row_ok unmarshal (alerts_table d)) (mark_rows k (alert_groups d))"
    using assms by (auto simp: db_wf_def list_all_iff mark_rows_set row_ok_def split: option.splits)
  ultimately show ?thesis using assms by (simp add: db_wf_def)
qed

lemma mark_rows_pending:
  "(\<exists>r\<in>set (mark_rows k rows). r_group_key r = k' \<and> is_pending r \<and> P (r_payload r))
   \<longleftrightarrow> k' \<noteq> k \<and> (\<exists>r\<in>set rows. r_group_key r = k' \<and> is_pending r \<and> P (r_payload r))"
proof -
  have "is_pending (r\<lparr>r_notification_status := sentStatus\<rparr>) = False" for r :: "'a group_row"
    by (simp add: is_pending_def)
  then show ?thesis unfolding mark_rows_set bex_simps by (cases "k' = k") auto
qed

lemma pending_map_mark:
  assumes "db_wf unmarshal d"
  shows "pending_map unmarshal (d\<lparr>alert_groups := mark_rows k (alert_groups d)\<rparr>) = (pending_map unmarshal d)(k := None)"
proof (rule map_ext_Some)
  fix k' g
  have "pending_map unmarshal (d\<lparr>alert_groups := mark_rows k (alert_groups d)\<rparr>) k' = Some g
        \<longleftrightarrow> k' \<noteq> k \<and> pending_map unmarshal d k' = Some g"
    using mark_rows_pending [of k "alert_groups d" k' "\<lambda>p. unmarshal p = Some g"]
    by (simp add: pending_map_iff [OF mark_rows_wf [OF assms]] pending_map_iff [OF assms])
  then show "pending_map unmarshal (d\<lparr>alert_groups := mark_rows k (alert_groups d)\<rparr>) k' = Some g
        \<longleftrightarrow> ((pending_map unmarshal d)(k := None)) k' = Some g" by simp
qed

lemma known_keys_mark: "known_keys (d\<lparr>alert_groups := mark_rows k (alert_groups d)\<rparr>) = known_keys d"
proof -
  have "keys (mark_rows k (alert_groups d)) = keys (alert_groups d)"
    by (simp only: set_map [symmetric] mark_rows_cols)
  then show ?thesis by (simp add: known_keys_def)
qed

lemma MarkSent_cases:
  assumes "MarkSent e k d = (r, d')"
  obtains "r \<noteq> None" "d' = d" | "d' = d\<lparr>alert_groups := mark_rows k (alert_groups d)\<rparr>" "r = None \<longrightarrow> k \<in> known_keys d"
proof (cases "e_fail e UpdateSent")
  case None
  have k: "filter (\<lambda>r. r_group_key r = k) (alert_groups d) \<noteq> [] \<Longrightarrow> k \<in> known_keys d"
    by (auto simp: known_keys_def filter_empty_conv)
  from None assms have "d' = d\<lparr>alert_groups := mark_rows k (alert_groups d)\<rparr>"
    and "r = None \<longrightarrow> filter (\<lambda>r. r_group_key r = k) (alert_groups d) \<noteq> []"
    by (auto simp: MarkSent_def Let_def split: option.splits if_splits)
  with k that(2) show ?thesis by blast
next
  case (Some err)
  with assms that(1) show ?thesis by (auto simp: MarkSent_def)
qed

section \<open>Selecting and decoding the pending rows\<close>

lemma decode_rows_Inr:
  "decode_rows unmarshal e i rs = Inr gs \<Longrightarrow> map (\<lambda>r. unmarshal (r_payload r)) rs = map Some gs"
  by (induction rs arbitrary: i gs) (auto simp: bindE_Inr split: option.splits)

lemma GetPending_Inr:
  assumes "GetPending unmarshal e n d = Inr gs"
  shows "map (\<lambda>r. unmarshal (r_payload r)) (select_pending n (alert_groups d)) = map Some gs"
  using assms by (auto simp: GetPending_def bindE_Inr dest: decode_rows_Inr)

lemma set_sql_limit: "set (sql_limit n xs) \<subseteq> set xs"
  by (auto simp: sql_limit_def dest: in_set_takeD)

lemma set_select_pending: "r \<in> set (select_pending n rows) \<Longrightarrow> r \<in> set rows \<and> is_pending r"
  using set_sql_limit [of n "sort_key r_received_at (filter is_pending rows)"] by (auto simp: select_pending_def)

lemma distinct_sql_limit: "distinct (map f xs) \<Longrightarrow> distinct (map f (sql_limit n xs))"
  by (simp add: sql_limit_def distinct_take flip: take_map)

lemma distinct_sort_key_map: "distinct (map f (sort_key h xs)) = distinct (map f xs)"
  by (metis mset_eq_imp_distinct_iff mset_map mset_sort)

lemma distinct_select_pending:
  "distinct (map r_group_key rows) \<Longrightarrow> distinct (map r_group_key (select_pending n rows))"
  unfolding select_pending_def
  by (intro distinct_sql_limit) (simp add: distinct_sort_key_map distinct_map_filter)

lemma select_pending_fills:
  assumes "r \<in> set rows" "is_pending r" "r \<notin> set (select_pending n rows)"
  shows "0 \<le> n" "length (select_pending n rows) = nat n"
proof -
  let ?s = "sort_key r_received_at (filter is_pending rows)"
  from assms(1,2) have "r \<in> set ?s" by simp
  with assms(3) have "0 \<le> n \<and> nat n \<le> length ?s"
    by (cases "n < 0"; cases "length ?s \<le> nat n") (auto simp: select_pending_def sql_limit_def)
  then show "0 \<le> n" "length (select_pending n rows) = nat n" by (auto simp: select_pending_def sql_limit_def)
qed

lemma GetPending_sound:
  assumes "db_wf unmarshal d" "GetPending unmarshal e n d = Inr gs"
  shows "map gGroupKey gs = map r_group_key (select_pending n (alert_groups d))"
    and "\<forall>g\<in>set gs. pending_map unmarshal d (gGroupKey g) = Some g"
proof -
  let ?rs = "select_pending n (alert_groups d)"
  note m = GetPending_Inr [OF assms(2)]
  then have len: "length gs = length ?rs" by (metis length_map)
  have at: "i < length ?rs \<Longrightarrow> unmarshal (r_payload (?rs ! i)) = Some (gs ! i)
     \<and> gGroupKey (gs ! i) = r_group_key (?rs ! i) \<and> ?rs ! i \<in> set (alert_groups d) \<and> is_pending (?rs ! i)" for i
  proof -
    assume i: "i < length ?rs"
    with m len have u: "unmarshal (r_payload (?rs ! i)) = Some (gs ! i)" by (metis nth_map)
    from set_select_pending [OF nth_mem [OF i]] have r: "?rs ! i \<in> set (alert_groups d)" "is_pending (?rs ! i)" by simp_all
    from row_decodes [OF assms(1) r(1)] u have "gGroupKey (gs ! i) = r_group_key (?rs ! i)" by auto
    with u r show ?thesis by simp
  qed
  show "map gGroupKey gs = map r_group_key ?rs" by (rule nth_equalityI) (simp_all add: len at)
  show "\<forall>g\<in>set gs. pending_map unmarshal d (gGroupKey g) = Some g"
  proof
    fix g
    assume "g \<in> set gs"
    then obtain i where "i < length ?rs" "g = gs ! i" using len by (metis in_set_conv_nth)
    with at show "pending_map unmarshal d (gGroupKey g) = Some g"
      unfolding pending_map_iff [OF assms(1)] by metis
  qed
qed

section \<open>The store fulfils the contract of its clients\<close>

interpretation sqlite_store: alert_store
  "GetPending unmarshal" MarkSent "pending_map unmarshal" known_keys "db_wf unmarshal"
  "Save marshal" "storable marshal unmarshal"
  for marshal :: "alert_group \<Rightarrow> 'p option" and unmarshal :: "'p \<Rightarrow> alert_group option"
proof unfold_locales
  fix d d' :: "'p db" and e n k g gs err
  show "gGroupKey g = k \<and> k \<in> known_keys d" if "db_wf unmarshal d" "pending_map unmarshal d k = Some g"
  proof -
    from that obtain r where r: "r \<in> set (alert_groups d)" "r_group_key r = k" "unmarshal (r_payload r) = Some g"
      by (auto simp: pending_map_iff)
    with row_decodes [OF that(1) r(1)] show ?thesis by (auto simp: known_keys_def)
  qed
  show "distinct (map gGroupKey gs) \<and> (\<forall>g\<in>set gs. pending_map unmarshal d (gGroupKey g) = Some g)"
    if "db_wf unmarshal d" "GetPending unmarshal e n d = Inr gs"
  proof -
    from that(1) have "distinct (map r_group_key (select_pending n (alert_groups d)))"
      by (simp add: db_wf_def distinct_select_pending)
    with GetPending_sound [OF that] show ?thesis by simp
  qed
  show "0 \<le> n \<and> length gs = nat n"
    if "db_wf unmarshal d" "GetPending unmarshal e n d = Inr gs" "pending_map unmarshal d k = Some g" "g \<notin> set gs"
  proof -
    from that obtain r where r: "r \<in> set (alert_groups d)" "is_pending r" "unmarshal (r_payload r) = Some g"
      by (auto simp: pending_map_iff)
    have m: "map (\<lambda>r. unmarshal (r_payload r)) (select_pending n (alert_groups d)) = map Some gs"
      by (rule GetPending_Inr [OF that(2)])
    have "r \<notin> set (select_pending n (alert_groups d))"
    proof
      assume "r \<in> set (select_pending n (alert_groups d))"
      then have "Some g \<in> set (map Some gs)" using r(3) unfolding m [symmetric] by force
      with that(4) show False by auto
    qed
    from select_pending_fills [OF r(1,2) this] m show ?thesis by (metis length_map)
  qed
  show "length gs \<le> nat n" if "db_wf unmarshal d" "GetPending unmarshal e n d = Inr gs" "0 \<le> n"
  proof -
    from GetPending_Inr [OF that(2)] have "length gs = length (select_pending n (alert_groups d))" by (metis length_map)
    with that(3) show ?thesis by (simp add: select_pending_def sql_limit_def)
  qed
  show "db_wf unmarshal d' \<and> k \<in> known_keys d \<and> known_keys d' = known_keys d
        \<and> pending_map unmarshal d' = (pending_map unmarshal d)(k := None)"
    if "db_wf unmarshal d" "MarkSent e k d = (None, d')"
    using that(2)
    by (cases rule: MarkSent_cases) (use that(1) in \<open>simp_all add: mark_rows_wf pending_map_mark known_keys_mark\<close>)
  show "db_wf unmarshal d' \<and> known_keys d' = known_keys d
        \<and> (pending_map unmarshal d' = pending_map unmarshal d \<or> pending_map unmarshal d' = (pending_map unmarshal d)(k := None))"
    if "db_wf unmarshal d" "MarkSent e k d = (Some err, d')"
    using that(2)
    by (cases rule: MarkSent_cases) (use that(1) in \<open>simp_all add: mark_rows_wf pending_map_mark known_keys_mark\<close>)
  show "db_wf unmarshal d' \<and> known_keys d' = insert (gGroupKey g) (known_keys d)
        \<and> pending_map unmarshal d' = (pending_map unmarshal d)(gGroupKey g \<mapsto> g)"
    if "db_wf unmarshal d" "storable marshal unmarshal g" "Save marshal e g d = (None, d')"
  proof -
    from that obtain p where p: "unmarshal p = Some g" "save_tx e p g d = Inr d'"
      by (auto simp: Save_def storable_def split: option.splits sum.splits)
    from save_tx_effect [OF that(1) p] obtain gid where "db_wf unmarshal d'"
      "set (alert_groups d') = insert (group_row_of gid (e_now e) p g)
         {r \<in> set (alert_groups d). r_group_key r \<noteq> gGroupKey g}" .
    with pending_map_save [OF that(1) p] show ?thesis by (auto simp: known_keys_def)
  qed
  show "d' = d" if "Save marshal e g d = (Some err, d')"
    using that by (auto simp: Save_def split: option.splits sum.splits)
qed

section \<open>Properties of the operations\<close>

definition ok_env :: env where
  "ok_env = \<lparr>e_now = 100, e_ids = (\<lambda>i. replicate (Suc i) CHR ''a''), e_fail = no_faults\<rparr>"

definition sample_db :: "alert_group db" where
  "sample_db = \<lparr>alert_groups = [group_row_of ''a'' 100 sample_group sample_group],
                alerts_table = [alert_row_of ''aa'' ''a'' sample_alert], health_check = [(1, 0)]\<rparr>"

lemma Save_sample: "Save Some ok_env sample_group (migrated 0) = (None, sample_db)"
  by (simp add: Save_def save_tx_def migrated_def upsert_group_def ok_env_def sample_group_def sample_db_def
      group_row_of_def run_stmt_def no_faults_def numeral_2_eq_2)

lemma storable_Some [simp]: "storable Some Some g"
  by (simp add: storable_def)

lemma sample_db_wf: "db_wf Some sample_db"
  using sqlite_store.save_ok [OF migrated_wf storable_Some Save_sample] by blast

text \<open>C13: \<open>Save\<close> is all or nothing.  When any statement fails, at whatever point of the transaction, the
  database is as before.  When it succeeds the schema's constraints and the agreement between the tables
  hold again, the group is pending under its key with a row stamped now whose alert rows mirror its
  alerts, and every row of another key is untouched.\<close>

theorem Save_all_or_nothing:
  assumes "Save marshal e g d = (res, d')" "db_wf unmarshal d" "storable marshal unmarshal g"
  shows "(res \<noteq> None \<longrightarrow> d' = d)
         \<and> (res = None \<longrightarrow>
              db_wf unmarshal d' \<and> pending_map unmarshal d' = (pending_map unmarshal d)(gGroupKey g \<mapsto> g)
              \<and> {r \<in> set (alert_groups d'). r_group_key r \<noteq> gGroupKey g} = {r \<in> set (alert_groups d). r_group_key r \<noteq> gGroupKey g}
              \<and> (\<exists>r\<in>set (alert_groups d'). r_group_key r = gGroupKey g \<and> is_pending r \<and> r_received_at r = e_now e
                    \<and> mirrors (alerts_table d') (r_id r) (gAlerts g)))"
proof (cases res)
  case (Some err)
  with assms(1) sqlite_store.save_err show ?thesis by blast
next
  case None
  with assms obtain p where p: "unmarshal p = Some g" "save_tx e p g d = Inr d'"
    by (auto simp: Save_def storable_def split: option.splits sum.splits)
  from save_tx_effect [OF assms(2) p] obtain gid where "db_wf unmarshal d'"
    and rows: "set (alert_groups d') = insert (group_row_of gid (e_now e) p g)
       {r \<in> set (alert_groups d). r_group_key r \<noteq> gGroupKey g}"
    and m: "mirrors (alerts_table d') gid (gAlerts g)" .
  moreover have "{r \<in> set (alert_groups d'). r_group_key r \<noteq> gGroupKey g} = {r \<in> set (alert_groups d). r_group_key r \<noteq> gGroupKey g}"
    unfolding rows by auto
  moreover have "\<exists>r\<in>set (alert_groups d'). r_group_key r = gGroupKey g \<and> is_pending r \<and> r_received_at r = e_now e
      \<and> mirrors (alerts_table d') (r_id r) (gAlerts g)"
    using m unfolding rows by (intro bexI [of _ "group_row_of gid (e_now e) p g"]) simp_all
  ultimately show ?thesis using None pending_map_save [OF assms(2) p] by simp
qed

theorem Save_all_or_nothing_witness:
  "db_wf Some sample_db \<and> pending_map Some sample_db = (pending_map Some (migrated 0))(gGroupKey sample_group \<mapsto> sample_group)
   \<and> (\<exists>r\<in>set (alert_groups sample_db). r_group_key r = gGroupKey sample_group \<and> is_pending r \<and> r_received_at r = e_now ok_env
        \<and> mirrors (alerts_table sample_db) (r_id r) (gAlerts sample_group))"
  using Save_all_or_nothing [OF Save_sample migrated_wf storable_Some] by blast

lemma insert_alerts_succeeds:
  "e_fail e = no_faults \<Longrightarrow> inj (e_ids e) \<Longrightarrow> (\<And>j. i \<le> j \<Longrightarrow> e_ids e (Suc j) \<notin> ar_id ` set tbl) \<Longrightarrow>
     \<exists>tbl'. insert_alerts e gid i as tbl = Inr tbl'"
proof (induction as arbitrary: i tbl)
  case (Cons a as)
  have "e_ids e (Suc j) \<notin> ar_id ` set (tbl @ [alert_row_of (e_ids e (Suc i)) gid a])" if "Suc i \<le> j" for j
    using Cons.prems(3) [of j] that injD [OF Cons.prems(2), of "Suc j" "Suc i"] by auto
  from Cons.IH [OF Cons.prems(1,2) this] Cons.prems(1) Cons.prems(3) [of i] show ?case by simp
qed simp

text \<open>\<open>Save\<close> succeeds whenever the driver reports no failure, the payload can be written as JSON and
  the random ids are new: an upsert is never refused for a key that is already there.\<close>

lemma Save_succeeds:
  assumes "e_fail e = no_faults" "marshal g = Some p" "inj (e_ids e)"
    and "e_ids e 0 \<notin> r_id ` set (alert_groups d)" "\<And>i. e_ids e (Suc i) \<notin> ar_id ` set (alerts_table d)"
  shows "\<exists>d'. Save marshal e g d = (None, d')"
proof -
  obtain rows gid where u: "upsert_group (group_row_of (e_ids e 0) (e_now e) p g) (alert_groups d) = Inr (rows, gid)"
  proof (cases "find (\<lambda>r. r_group_key r = gGroupKey g) (alert_groups d)")
    case None
    with assms(4) that show ?thesis by (simp add: upsert_group_def group_row_of_def)
  next
    case (Some r)
    with that show ?thesis by (simp add: upsert_group_def)
  qed
  have "\<exists>tbl. insert_alerts e gid 0 (gAlerts g) (filter (\<lambda>ar. ar_group_id ar \<noteq> gid) (alerts_table d)) = Inr tbl"
    by (rule insert_alerts_succeeds) (use assms in auto)
  with u assms(1,2) show ?thesis by (auto simp: Save_def save_tx_def)
qed

lemma ok_env_ids: "inj (e_ids ok_env)"
  by (rule injI) (simp add: ok_env_def replicate_eq_replicate)

text \<open>C34: A successful poll returns the pending groups oldest first, as many as the limit allows, and
  none of the pending groups it leaves for later was received before one it returns.\<close>

theorem GetPending_oldest_first:
  assumes "db_wf unmarshal d" "GetPending unmarshal e n d = Inr gs" "0 \<le> n"
  shows "\<exists>rs. map gGroupKey gs = map r_group_key rs \<and> set rs \<subseteq> {r \<in> set (alert_groups d). is_pending r}
           \<and> sorted (map r_received_at rs)
           \<and> length rs = min (nat n) (length (filter is_pending (alert_groups d)))
           \<and> (\<forall>r\<in>set rs. \<forall>r'\<in>set (alert_groups d). is_pending r' \<and> r' \<notin> set rs \<longrightarrow> r_received_at r \<le> r_received_at r')"
proof -
  let ?s = "sort_key r_received_at (filter is_pending (alert_groups d))"
  let ?rs = "select_pending n (alert_groups d)"
  have rs: "?rs = take (nat n) ?s" using assms(3) by (simp add: select_pending_def sql_limit_def)
  have whole: "?s = ?rs @ drop (nat n) ?s" unfolding rs by (rule append_take_drop_id [symmetric])
  have "sorted (map r_received_at (?rs @ drop (nat n) ?s))" unfolding whole [symmetric] by simp
  then have srt: "sorted (map r_received_at ?rs)"
    and le: "\<And>x y. x \<in> set ?rs \<Longrightarrow> y \<in> set (drop (nat n) ?s) \<Longrightarrow> r_received_at x \<le> r_received_at y"
    unfolding map_append sorted_append by simp_all
  have rest: "r' \<in> set (drop (nat n) ?s)" if "r' \<in> set (alert_groups d)" "is_pending r'" "r' \<notin> set ?rs" for r'
  proof -
    from that have "r' \<in> set (?rs @ drop (nat n) ?s)" unfolding whole [symmetric] by simp
    with that(3) show ?thesis by simp
  qed
  have len: "length ?rs = min (nat n) (length (filter is_pending (alert_groups d)))"
    unfolding rs by simp
  have sub: "set ?rs \<subseteq> {r \<in> set (alert_groups d). is_pending r}"
    using set_select_pending by fast
  show ?thesis
    by (intro exI [of _ ?rs] conjI GetPending_sound(1) [OF assms(1,2)] sub srt len) (use le rest in blast)
qed

theorem GetPending_oldest_first_witness:
  "\<exists>rs. map gGroupKey [sample_group] = map r_group_key rs \<and> set rs \<subseteq> {r \<in> set (alert_groups sample_db). is_pending r}
     \<and> sorted (map r_received_at rs)
     \<and> length rs = min (nat 10) (length (filter is_pending (alert_groups sample_db)))
     \<and> (\<forall>r\<in>set rs. \<forall>r'\<in>set (alert_groups sample_db). is_pending r' \<and> r' \<notin> set rs \<longrightarrow> r_received_at r \<le> r_received_at r')"
  by (rule GetPending_oldest_first [OF sample_db_wf, of ok_env])
    (simp_all add: GetPending_def sample_db_def ok_env_def select_pending_def sql_limit_def)

lemma decode_rows_fails:
  "r \<in> set rs \<Longrightarrow> unmarshal (r_payload r) = None \<Longrightarrow> \<exists>err. decode_rows unmarshal e i rs = Inl err"
  using decode_rows_Inr [of unmarshal e i rs] by (cases "decode_rows unmarshal e i rs") (auto, metis image_eqI list.set_map option.distinct(1) imageE)

text \<open>C36: One row whose payload does not decode makes the whole poll fail, and it does so on every poll
  while it is among the oldest pending rows: no group of the batch is delivered.\<close>

theorem GetPending_poisoned:
  assumes "r \<in> set (select_pending n (alert_groups d))" "unmarshal (r_payload r) = None"
  shows "\<exists>err. GetPending unmarshal e n d = Inl err"
proof (cases "GetPending unmarshal e n d")
  case (Inr gs)
  then obtain gs' where "decode_rows unmarshal e 0 (select_pending n (alert_groups d)) = Inr gs'"
    by (auto simp: GetPending_def bindE_Inr)
  with decode_rows_fails [of r "select_pending n (alert_groups d)" unmarshal e 0] assms show ?thesis by simp
qed blast

theorem GetPending_poisoned_witness:
  "\<exists>err. GetPending (\<lambda>g. if gGroupKey g = ''k1'' then None else Some g) ok_env 10 sample_db = Inl err"
  by (rule GetPending_poisoned [where r = "group_row_of ''a'' 100 sample_group sample_group"])
    (simp_all add: sample_db_def select_pending_def sql_limit_def, simp add: sample_group_def)

lemma mark_rows_unknown: "k \<notin> keys rows \<Longrightarrow> mark_rows k rows = rows"
  by (simp add: mark_rows_def map_unless)

lemma MarkSent_clean:
  assumes "e_fail e = no_faults" "db_wf unmarshal d"
  shows "if k \<in> known_keys d
         then fst (MarkSent e k d) = None \<and> db_wf unmarshal (snd (MarkSent e k d))
              \<and> pending_map unmarshal (snd (MarkSent e k d)) = (pending_map unmarshal d)(k := None)
         else \<exists>err. MarkSent e k d = (Some err, d) \<and> errors_is err ErrNotFound"
proof (cases "k \<in> known_keys d")
  case True
  then have "filter (\<lambda>r. r_group_key r = k) (alert_groups d) \<noteq> []"
    by (auto simp: known_keys_def filter_empty_conv)
  with True assms show ?thesis
    by (simp add: MarkSent_def no_faults_def Let_def mark_rows_wf pending_map_mark)
next
  case False
  then have "filter (\<lambda>r. r_group_key r = k) (alert_groups d) = []"
    by (auto simp: known_keys_def filter_empty_conv)
  with False assms show ?thesis
    by (simp add: MarkSent_def no_faults_def Let_def mark_rows_unknown known_keys_def)
qed

lemma MarkSent_ok:
  "e_fail e = no_faults \<Longrightarrow> db_wf unmarshal d \<Longrightarrow> k \<in> known_keys d \<Longrightarrow>
     fst (MarkSent e k d) = None \<and> db_wf unmarshal (snd (MarkSent e k d))
     \<and> pending_map unmarshal (snd (MarkSent e k d)) = (pending_map unmarshal d)(k := None)"
  using MarkSent_clean [of e unmarshal d k] by simp

text \<open>C35: Without driver failures \<open>MarkSent\<close> takes a known group off the pending ones and touches no other
  group; for an unknown key it reports \<open>ErrNotFound\<close> and changes nothing.\<close>

theorem MarkSent_spec:
  assumes "e_fail e = no_faults" "db_wf unmarshal d"
  shows "if k \<in> known_keys d
         then fst (MarkSent e k d) = None \<and> db_wf unmarshal (snd (MarkSent e k d))
              \<and> pending_map unmarshal (snd (MarkSent e k d)) = (pending_map unmarshal d)(k := None)
         else \<exists>err. MarkSent e k d = (Some err, d) \<and> errors_is err ErrNotFound"
  by (rule MarkSent_clean [OF assms])

theorem MarkSent_spec_witness:
  "if ''k1'' \<in> known_keys sample_db
   then fst (MarkSent ok_env ''k1'' sample_db) = None \<and> db_wf Some (snd (MarkSent ok_env ''k1'' sample_db))
        \<and> pending_map Some (snd (MarkSent ok_env ''k1'' sample_db)) = (pending_map Some sample_db)(''k1'' := None)
   else \<exists>err. MarkSent ok_env ''k1'' sample_db = (Some err, sample_db) \<and> errors_is err ErrNotFound"
  by (rule MarkSent_spec) (simp_all add: ok_env_def sample_db_wf)

text \<open>The readiness check passes on a migrated database, and a missing health row fails it.\<close>

lemma store_Check_migrated: "e_fail e = no_faults \<Longrightarrow> store_Check e (migrated t) = (None, migrated (e_now e))"
  by (simp add: store_Check_def migrated_def no_faults_def)

lemma store_Check_missing:
  "e_fail e = no_faults \<Longrightarrow> 1 \<notin> fst ` set (health_check d) \<Longrightarrow> fst (store_Check e d) \<noteq> None"
proof -
  assume "e_fail e = no_faults" "1 \<notin> fst ` set (health_check d)"
  then have "filter (\<lambda>(i, t). i = 1) (health_check d) = []" by (force simp: filter_empty_conv)
  with \<open>e_fail e = no_faults\<close> show ?thesis by (simp add: store_Check_def no_faults_def)
qed

end
