(* ===== verification/GoJson.thy ===== *)
theory GoJson imports GoStrings begin

text \<open>
  The part of \<open>encoding/json\<close> that writes the strings, objects and numbers of the relay's own
  responses and requests: strings are escaped the way \<open>json.Marshal\<close> does it (HTML characters
  included, invalid UTF-8 replaced), map keys are sorted.
\<close>

section \<open>UTF-8\<close>

definition byte :: "char \<Rightarrow> nat" where
  "byte c = of_char c"

definition in_range :: "nat \<Rightarrow> nat \<Rightarrow> char \<Rightarrow> bool" where
  "in_range lo hi c \<longleftrightarrow> lo \<le> byte c \<and> byte c \<le> hi"

abbreviation continuation :: "char \<Rightarrow> bool" where
  "continuation \<equiv> in_range 0x80 0xBF"

text \<open>
  The bytes of the code point a string starts with, as \<open>utf8.DecodeRune\<close> finds it; 0 for an
  invalid encoding, which \<open>DecodeRune\<close> reports as \<open>RuneError\<close> of width one.
\<close>

definition wide :: "char \<Rightarrow> string \<Rightarrow> nat" where
  "wide b s =
     (case s of
        b1 # b2 # b3 # _ \<Rightarrow>
          (if in_range 0xC2 0xDF b \<and> continuation b1 then 2
           else if in_range 0xE0 0xEF b \<and> in_range (if byte b = 0xE0 then 0xA0 else 0x80) (if byte b = 0xED then 0x9F else 0xBF) b1
                   \<and> continuation b2 then 3
           else if in_range 0xF0 0xF4 b \<and> in_range (if byte b = 0xF0 then 0x90 else 0x80) (if byte b = 0xF4 then 0x8F else 0xBF) b1
                   \<and> continuation b2 \<and> continuation b3 then 4
           else 0)
      | [b1, b2] \<Rightarrow>
          (if in_range 0xC2 0xDF b \<and> continuation b1 then 2
           else if in_range 0xE0 0xEF b \<and> in_range (if byte b = 0xE0 then 0xA0 else 0x80) (if byte b = 0xED then 0x9F else 0xBF) b1
                   \<and> continuation b2 then 3
           else 0)
      | [b1] \<Rightarrow> (if in_range 0xC2 0xDF b \<and> continuation b1 then 2 else 0)
      | [] \<Rightarrow> 0)"

definition rune_width :: "string \<Rightarrow> nat" where
  "rune_width s = (case s of [] \<Rightarrow> 0 | b # t \<Rightarrow> if byte b < 0x80 then 1 else wide b t)"

lemma wide_bytes:
  assumes "wide b t = n" "n \<noteq> 0" "0x80 \<le> byte b"
  shows "n \<le> Suc (length t)" and "1 < n" and "list_all (\<lambda>c. 0x80 \<le> byte c) (take n (b # t))"
proof -
  from assms have "n \<le> Suc (length t) \<and> 1 < n \<and> list_all (\<lambda>c. 0x80 \<le> byte c) (take n (b # t))"
    by (auto simp: wide_def in_range_def numeral_eq_Suc split: list.splits if_splits)
  then show "n \<le> Suc (length t)" and "1 < n" and "list_all (\<lambda>c. 0x80 \<le> byte c) (take n (b # t))" by blast+
qed

section \<open>Strings\<close>

definition hex_digit :: "nat \<Rightarrow> char" where
  "hex_digit n = (if n < 10 then char_of (48 + n) else char_of (87 + n))"

definition backslash :: char where
  "backslash = CHR 0x5C"

definition quote_char :: char where
  "quote_char = CHR 0x22"

definition unicode_escape :: "nat \<Rightarrow> string" where
  "unicode_escape n =
     [backslash, CHR ''u'', hex_digit (n div 4096 mod 16), hex_digit (n div 256 mod 16),
      hex_digit (n div 16 mod 16), hex_digit (n mod 16)]"

definition json_ascii :: "char \<Rightarrow> string" where
  "json_ascii c =
     (if c = backslash \<or> c = quote_char then [backslash, c]
      else if c = CHR 0x08 then [backslash, CHR ''b'']
      else if c = CHR 0x0C then [backslash, CHR ''f'']
      else if c = CHR 0x0A then [backslash, CHR ''n'']
      else if c = CHR 0x0D then [backslash, CHR ''r'']
      else if c = CHR 0x09 then [backslash, CHR ''t'']
      else if byte c < 0x20 \<or> c \<in> {CHR ''<'', CHR ''>'', CHR ''&''} then unicode_escape (byte c)
      else [c])"

definition json_wide :: "string \<Rightarrow> string" where
  "json_wide r =
     (if r = [CHR 0xE2, CHR 0x80, CHR 0xA8] then unicode_escape 0x2028
      else if r = [CHR 0xE2, CHR 0x80, CHR 0xA9] then unicode_escape 0x2029
      else r)"

function json_body :: "string \<Rightarrow> string" where
  "json_body [] = []"
| "json_body (c # s) =
     (if byte c < 0x80 then json_ascii c @ json_body s
      else let n = wide c s in
        (if n = 0 then unicode_escape 0xFFFD @ json_body s
         else json_wide (take n (c # s)) @ json_body (drop n (c # s))))"
  by pat_completeness auto
termination
  by (relation "measure length") (auto simp: drop_Cons split: nat.splits)

declare json_body.simps [simp del]

definition json_string :: "string \<Rightarrow> string" where
  "json_string s = quote_char # json_body s @ [quote_char]"

section \<open>Objects and numbers\<close>

definition json_object :: "(string \<times> string) list \<Rightarrow> string" where
  "json_object kvs = ''{'' @ Join (map (\<lambda>(k, v). json_string k @ '':'' @ v) kvs) '','' @ ''}''"

text \<open>\<open>json.Marshal\<close> of a \<open>map[string]string\<close>: the entries by ascending key.\<close>

definition json_string_map :: "gomap \<Rightarrow> string" where
  "json_string_map m = json_object (map (\<lambda>(k, v). (k, json_string v)) (sort_key fst m))"

section \<open>A string literal cannot be left from inside\<close>

text \<open>Reading a literal the way any JSON reader does: up to the first quote that no backslash precedes.\<close>

fun scan_literal :: "string \<Rightarrow> (string \<times> string) option" where
  "scan_literal [] = None"
| "scan_literal (c # s) =
     (if c = quote_char then Some ([], s)
      else if c = backslash then
        (case s of [] \<Rightarrow> None
         | d # t \<Rightarrow> map_option (\<lambda>(b, r). (c # d # b, r)) (scan_literal t))
      else map_option (\<lambda>(b, r). (c # b, r)) (scan_literal s))"

text \<open>Pieces that the scanner passes whole.\<close>

definition passes :: "string \<Rightarrow> bool" where
  "passes p \<longleftrightarrow> (\<forall>s. scan_literal (p @ s) = map_option (\<lambda>(b, r). (p @ b, r)) (scan_literal s))"

lemma passes_Nil [simp]: "passes []"
  by (simp add: passes_def option.map_id0 case_prod_unfold option.map_ident)

lemma passes_append: "passes p \<Longrightarrow> passes q \<Longrightarrow> passes (p @ q)"
  by (simp add: passes_def option.map_comp comp_def case_prod_unfold)

lemma passes_plain: "c \<noteq> quote_char \<Longrightarrow> c \<noteq> backslash \<Longrightarrow> passes [c]"
  by (simp add: passes_def)

lemma passes_escape: "passes [backslash, c]"
  by (simp add: passes_def backslash_def quote_char_def)

lemma passes_list: "list_all (\<lambda>c. c \<noteq> quote_char \<and> c \<noteq> backslash) p \<Longrightarrow> passes p"
proof (induction p)
  case (Cons c p)
  then have "passes ([c] @ p)" by (intro passes_append passes_plain) auto
  then show ?case by simp
qed simp

lemma passes_scan: "passes p \<Longrightarrow> scan_literal (p @ quote_char # s) = Some (p, s)"
  by (simp add: passes_def)

lemma byte_special: "byte quote_char = 0x22" "byte backslash = 0x5C"
  by (simp_all add: byte_def quote_char_def backslash_def)

lemma wide_plain: "list_all (\<lambda>c. 0x80 \<le> byte c) r \<Longrightarrow> list_all (\<lambda>c. c \<noteq> quote_char \<and> c \<noteq> backslash) r"
  by (auto simp: list_all_iff byte_special)

lemma byte_char_of: "n < 256 \<Longrightarrow> byte (char_of n) = n"
  by (simp add: byte_def)

lemma hex_digits_plain: "list_all (\<lambda>n. hex_digit n \<noteq> quote_char \<and> hex_digit n \<noteq> backslash) [0..<16]"
  by code_simp

lemma hex_digit_plain: "n < 16 \<Longrightarrow> hex_digit n \<noteq> quote_char \<and> hex_digit n \<noteq> backslash"
  using hex_digits_plain unfolding list_all_iff set_upt by simp

lemma passes_unicode: "passes (unicode_escape n)"
proof -
  have "passes ([backslash, CHR ''u''] @ [hex_digit (n div 4096 mod 16), hex_digit (n div 256 mod 16),
      hex_digit (n div 16 mod 16), hex_digit (n mod 16)])"
    by (intro passes_append passes_escape passes_list) (simp add: hex_digit_plain)
  then show ?thesis by (simp add: unicode_escape_def)
qed

lemma passes_json_ascii: "passes (json_ascii c)"
  by (simp add: json_ascii_def passes_escape passes_unicode passes_plain del: char.inject)

lemma passes_json_wide: "list_all (\<lambda>c. 0x80 \<le> byte c) r \<Longrightarrow> passes (json_wide r)"
  by (simp add: json_wide_def passes_unicode passes_list wide_plain)

lemma passes_json_body: "passes (json_body s)"
proof (induction s rule: json_body.induct)
  case 1
  then show ?case by (simp add: json_body.simps)
next
  case (2 c s)
  show ?case
  proof (cases "byte c < 0x80")
    case True
    with 2 show ?thesis by (subst json_body.simps) (simp add: passes_append passes_json_ascii)
  next
    case False
    show ?thesis
    proof (cases "wide c s = 0")
      case True
      with False 2 show ?thesis by (subst json_body.simps) (simp add: passes_append passes_unicode)
    next
      case w: False
      with False have "list_all (\<lambda>c. 0x80 \<le> byte c) (take (wide c s) (c # s))"
        using wide_bytes(3) [of c s "wide c s"] by simp
      with w False 2 show ?thesis
        by (subst json_body.simps) (simp add: Let_def passes_append passes_json_wide)
    qed
  qed
qed

text \<open>Whatever the string, a reader of the encoded literal finds exactly its body, and then the rest.\<close>

lemma json_string_scan: "scan_literal (tl (json_string s) @ rest) = Some (json_body s, rest)"
  using passes_scan [OF passes_json_body] by (simp add: json_string_def)

end
