(* ===== verification/JsonReader.thy ===== *)
theory JsonReader imports GoJson begin

text \<open>
  A reader for the JSON the relay writes - objects, strings and numbers - after RFC 8259, with which the
  round trips of the written bodies are stated: what a client or the chat service gets back.
\<close>

section \<open>String literals\<close>

fun hex_value :: "char \<Rightarrow> nat option" where
  "hex_value c =
     (let n = byte c
      in if 48 \<le> n \<and> n \<le> 57 then Some (n - 48)
         else if 97 \<le> n \<and> n \<le> 102 then Some (n - 87)
         else if 65 \<le> n \<and> n \<le> 70 then Some (n - 55)
         else None)"

declare hex_value.simps [simp del]

definition hex4 :: "char \<Rightarrow> char \<Rightarrow> char \<Rightarrow> char \<Rightarrow> nat option" where
  "hex4 a b c d =
     (case (hex_value a, hex_value b, hex_value c, hex_value d) of
        (Some x, Some y, Some z, Some w) \<Rightarrow> Some (x * 4096 + y * 256 + z * 16 + w)
      | _ \<Rightarrow> None)"

text \<open>The UTF-8 encoding of a code point of the basic plane that is not a surrogate.\<close>

definition utf8 :: "nat \<Rightarrow> string" where
  "utf8 n =
     (if n < 0x80 then [char_of n]
      else if n < 0x800 then [char_of (0xC0 + n div 64), char_of (0x80 + n mod 64)]
      else [char_of (0xE0 + n div 4096), char_of (0x80 + n div 64 mod 64), char_of (0x80 + n mod 64)])"

definition simple_escape :: "char \<Rightarrow> char option" where
  "simple_escape d = map_of
     [(quote_char, quote_char), (backslash, backslash), (CHR ''/'', CHR ''/''), (CHR ''b'', CHR 0x08), (CHR ''f'', CHR 0x0C),
      (CHR ''n'', CHR 0x0A), (CHR ''r'', CHR 0x0D), (CHR ''t'', CHR 0x09)] d"

definition before :: "string \<Rightarrow> (string \<times> 'a) option \<Rightarrow> (string \<times> 'a) option" where
  "before v = map_option (\<lambda>(b, r). (v @ b, r))"

lemma before_simps [simp]: "before v None = None" "before v (Some (b, r)) = Some (v @ b, r)" "before [] x = x"
  by (auto simp: before_def option.map_id0 case_prod_unfold option.map_ident)

lemma before_before [simp]: "before u (before v x) = before (u @ v) x"
  by (cases x) (auto simp: before_def)

text \<open>The text after an opening quote up to the closing one; pairs of surrogates, which the relay never
  writes, are not read.\<close>

fun read_string :: "string \<Rightarrow> (string \<times> string) option" where
  "read_string [] = None"
| "read_string (c # s) =
     (if c = quote_char then Some ([], s)
      else if byte c < 0x20 then None
      else if c = backslash then
        (case s of
           [] \<Rightarrow> None
         | d # t \<Rightarrow>
             if d = CHR ''u'' then
               (case t of
                  h1 # h2 # h3 # h4 # r \<Rightarrow>
                    (case hex4 h1 h2 h3 h4 of
                       Some n \<Rightarrow> if 0xD800 \<le> n \<and> n < 0xE000 then None else before (utf8 n) (read_string r)
                     | None \<Rightarrow> None)
                | _ \<Rightarrow> None)
             else (case simple_escape d of Some x \<Rightarrow> before [x] (read_string t) | None \<Rightarrow> None))
      else before [c] (read_string s))"

section \<open>Values\<close>

datatype json = JStr string | JNum string | JObj "(string \<times> json) list"

text \<open>One value, and the members of an object after its opening brace; the fuel bounds nesting and members.\<close>

fun read_value :: "nat \<Rightarrow> string \<Rightarrow> (json \<times> string) option"
  and read_members :: "nat \<Rightarrow> string \<Rightarrow> ((string \<times> json) list \<times> string) option" where
  "read_value 0 s = None"
| "read_value (Suc k) s =
     (case s of
        [] \<Rightarrow> None
      | c # t \<Rightarrow>
          if c = quote_char then map_option (\<lambda>(v, r). (JStr v, r)) (read_string t)
          else if c = CHR ''{'' then
            (if t \<noteq> [] \<and> hd t = CHR ''}'' then Some (JObj [], tl t)
             else map_option (\<lambda>(ms, r). (JObj ms, r)) (read_members k t))
          else
            (let num = takeWhile (\<lambda>c. c \<in> num_chars) s
             in if num = [] then None else Some (JNum num, drop (length num) s)))"
| "read_members 0 s = None"
| "read_members (Suc k) s =
     (case s of
        [] \<Rightarrow> None
      | c # t \<Rightarrow>
          if c \<noteq> quote_char then None
          else
            (case read_string t of
               Some (key, d # r) \<Rightarrow>
                 if d \<noteq> CHR '':'' then None
                 else
                   (case read_value k r of
                      Some (v, e # r') \<Rightarrow>
                        if e = CHR ''}'' then Some ([(key, v)], r')
                        else if e = CHR '','' then map_option (\<lambda>(ms, r). ((key, v) # ms, r)) (read_members k r')
                        else None
                    | _ \<Rightarrow> None)
             | _ \<Rightarrow> None))"

definition read_json :: "string \<Rightarrow> json option" where
  "read_json s = (case read_value (length s) s of Some (j, []) \<Rightarrow> Some j | _ \<Rightarrow> None)"

section \<open>Reading back strings\<close>

text \<open>What a text becomes on the way: invalid bytes are replaced by U+FFFD, everything else is kept.\<close>

function valid_text :: "string \<Rightarrow> string" where
  "valid_text [] = []"
| "valid_text (c # s) =
     (if byte c < 0x80 then c # valid_text s
      else let n = wide c s in
        (if n = 0 then [CHR 0xEF, CHR 0xBF, CHR 0xBD] @ valid_text s
         else take n (c # s) @ valid_text (drop n (c # s))))"
  by pat_completeness auto
termination
  by (relation "measure length") (auto simp: drop_Cons split: nat.splits)

declare valid_text.simps [simp del]

lemma valid_text_ascii: "list_all (\<lambda>c. byte c < 0x80) s \<Longrightarrow> valid_text s = s"
  by (induction s) (simp_all add: valid_text.simps)

definition reads :: "string \<Rightarrow> string \<Rightarrow> bool" where
  "reads p v \<longleftrightarrow> (\<forall>s. read_string (p @ s) = before v (read_string s))"

lemma reads_append: "reads p v \<Longrightarrow> reads q u \<Longrightarrow> reads (p @ q) (v @ u)"
  by (simp add: reads_def)

lemma hex_value_digit: "n < 16 \<Longrightarrow> hex_value (hex_digit n) = Some n"
proof -
  assume "n < 16"
  then have "byte (hex_digit n) = (if n < 10 then 48 + n else 87 + n)" by (simp add: hex_digit_def byte_char_of)
  with \<open>n < 16\<close> show ?thesis by (simp add: hex_value.simps Let_def)
qed

lemma hex_digits_sum: "(n :: nat) = a * 16 + x \<Longrightarrow> a = b * 16 + y \<Longrightarrow> b = c * 16 + z \<Longrightarrow> c * 4096 + z * 256 + y * 16 + x = n"
  by simp

lemma hex4_digits:
  assumes "n < 65536"
  shows "hex4 (hex_digit (n div 4096 mod 16)) (hex_digit (n div 256 mod 16)) (hex_digit (n div 16 mod 16)) (hex_digit (n mod 16)) = Some n"
proof -
  have d: "n div 256 = n div 16 div 16" "n div 4096 = n div 16 div 16 div 16" by (simp_all add: div_mult2_eq [symmetric])
  have "n div 4096 < 16" using assms by simp
  then have "n div 4096 mod 16 = n div 4096" by simp
  moreover have "n div 4096 * 4096 + n div 256 mod 16 * 256 + n div 16 mod 16 * 16 + n mod 16 = n"
    unfolding d by (rule hex_digits_sum) (rule div_mult_mod_eq [symmetric])+
  ultimately have "n div 4096 mod 16 * 4096 + n div 256 mod 16 * 256 + n div 16 mod 16 * 16 + n mod 16 = n" by metis
  then show ?thesis by (simp add: hex4_def hex_value_digit del: mod_less)
qed

lemma reads_unicode:
  assumes "n < 65536" "\<not> (0xD800 \<le> n \<and> n < 0xE000)"
  shows "reads (unicode_escape n) (utf8 n)"
  unfolding reads_def
proof
  fix s
  have u: "backslash \<noteq> quote_char" "\<not> byte backslash < 0x20" by (simp_all add: byte_special) (simp add: backslash_def quote_char_def)
  show "read_string (unicode_escape n @ s) = before (utf8 n) (read_string s)"
    unfolding unicode_escape_def append_Cons append_Nil read_string.simps(2) [of backslash] if_not_P [OF u(1)] if_not_P [OF u(2)]
    using assms by (simp only: refl if_True list.case hex4_digits option.case if_False)
qed

lemma reads_plain: "c \<noteq> quote_char \<Longrightarrow> c \<noteq> backslash \<Longrightarrow> 0x20 \<le> byte c \<Longrightarrow> reads [c] [c]"
  by (simp add: reads_def)

lemma reads_list: "list_all (\<lambda>c. 0x80 \<le> byte c) p \<Longrightarrow> reads p p"
proof (induction p)
  case (Cons c p)
  then have "reads ([c] @ p) ([c] @ p)" using wide_plain [of "[c]"] by (intro reads_append reads_plain) auto
  then show ?case by simp
qed (simp add: reads_def)

lemma reads_escape: "simple_escape d = Some x \<Longrightarrow> d \<noteq> CHR ''u'' \<Longrightarrow> reads [backslash, d] [x]"
  unfolding reads_def append_Cons append_Nil read_string.simps(2) [of backslash]
  using byte_special(2) by (simp add: read_string.simps(1)) (simp add: backslash_def quote_char_def)

lemma reads_json_ascii:
  assumes "byte c < 0x80"
  shows "reads (json_ascii c) [c]"
proof -
  have u: "utf8 (byte c) = [c]" using assms by (simp add: utf8_def byte_def)
  from assms have "reads (unicode_escape (byte c)) (utf8 (byte c))" by (intro reads_unicode) auto
  moreover have "reads [backslash, d] [x]"
    if "(d, x) \<in> {(quote_char, quote_char), (backslash, backslash), (CHR ''b'', CHR 0x08), (CHR ''f'', CHR 0x0C),
      (CHR ''n'', CHR 0x0A), (CHR ''r'', CHR 0x0D), (CHR ''t'', CHR 0x09)}" for d x
    using that by (intro reads_escape) (auto simp: simple_escape_def quote_char_def backslash_def)
  ultimately show ?thesis
    by (auto simp: json_ascii_def u reads_plain simp del: char.inject)
qed

lemma utf8_char:
  assumes "0x800 \<le> n" "n < 0x10000" "byte a = 0xE0 + n div 4096" "byte b = 0x80 + n div 64 mod 64" "byte c = 0x80 + n mod 64"
  shows "utf8 n = [a, b, c]"
proof -
  have "char_of (byte x) = x" for x by (simp add: byte_def)
  from this [of a] this [of b] this [of c] assms show ?thesis by (simp add: utf8_def)
qed

lemma utf8_separators:
  "utf8 0x2028 = [CHR 0xE2, CHR 0x80, CHR 0xA8]" "utf8 0x2029 = [CHR 0xE2, CHR 0x80, CHR 0xA9]"
  "utf8 0xFFFD = [CHR 0xEF, CHR 0xBF, CHR 0xBD]"
  by (rule utf8_char; simp add: byte_def)+

lemma reads_separators:
  "reads (unicode_escape 0x2028) [CHR 0xE2, CHR 0x80, CHR 0xA8]" "reads (unicode_escape 0x2029) [CHR 0xE2, CHR 0x80, CHR 0xA9]"
  "reads (unicode_escape 0xFFFD) [CHR 0xEF, CHR 0xBF, CHR 0xBD]"
  unfolding utf8_separators [symmetric] by (rule reads_unicode; simp)+

lemma reads_json_wide: "list_all (\<lambda>c. 0x80 \<le> byte c) r \<Longrightarrow> reads (json_wide r) r"
  unfolding json_wide_def by (auto intro: reads_separators reads_list simp del: list.inject char.inject)

lemma reads_json_body: "reads (json_body s) (valid_text s)"
proof (induction s rule: json_body.induct)
  case 1
  then show ?case by (simp add: json_body.simps valid_text.simps reads_def)
next
  case (2 c s)
  show ?case
  proof (cases "byte c < 0x80")
    case True
    with 2 reads_append [OF reads_json_ascii] show ?thesis
      by (subst json_body.simps, subst valid_text.simps) fastforce
  next
    case False
    show ?thesis
    proof (cases "wide c s = 0")
      case True
      with False 2 reads_append [OF reads_separators(3)] show ?thesis
        by (subst json_body.simps, subst valid_text.simps) fastforce
    next
      case w: False
      with False have "list_all (\<lambda>c. 0x80 \<le> byte c) (take (wide c s) (c # s))"
        using wide_bytes(3) [of c s "wide c s"] by simp
      from reads_append [OF reads_json_wide [OF this]] w False 2 show ?thesis
        by (subst json_body.simps, subst valid_text.simps) (simp add: Let_def)
    qed
  qed
qed

lemma read_json_string: "read_string (json_body s @ quote_char # r) = Some (valid_text s, r)"
  using reads_json_body [of s] by (simp add: reads_def)

section \<open>Reading back objects\<close>

text \<open>With fuel \<open>n\<close> or more, the text reads as the value, whatever of an enclosing object follows it.\<close>

definition reads_as :: "nat \<Rightarrow> string \<Rightarrow> json \<Rightarrow> bool" where
  "reads_as n v j \<longleftrightarrow> (\<forall>m\<ge>n. \<forall>r. (r = [] \<or> hd r \<in> {CHR '','', CHR ''}''}) \<longrightarrow> read_value m (v @ r) = Some (j, r))"

lemma reads_asD:
  "reads_as n v j \<Longrightarrow> n \<le> m \<Longrightarrow> r = [] \<or> hd r = CHR '','' \<or> hd r = CHR ''}'' \<Longrightarrow> read_value m (v @ r) = Some (j, r)"
  by (auto simp: reads_as_def)

lemma reads_as_string: "reads_as 1 (json_string s) (JStr (valid_text s))"
  by (auto simp: reads_as_def json_string_def read_json_string Suc_le_eq gr0_conv_Suc)

lemma reads_as_number: "reads_as 1 (itoa i) (JNum (itoa i))"
proof -
  obtain c t where i: "itoa i = c # t" using itoa_not_Nil [of i] by (cases "itoa i") auto
  have chars: "set (itoa i) \<subseteq> num_chars" by (rule itoa_chars)
  then have c: "c \<noteq> quote_char" "c \<noteq> CHR ''{''" using i by (auto simp: num_chars_def digit_chars_def quote_char_def)
  have "CHR '','' \<notin> num_chars \<and> CHR ''}'' \<notin> num_chars" by (auto simp: num_chars_def digit_chars_def)
  then have "takeWhile (\<lambda>c. c \<in> num_chars) (itoa i @ r) = itoa i"
    if "r = [] \<or> hd r \<in> {CHR '','', CHR ''}''}" for r
    using chars that by (cases r) (auto simp: takeWhile_append2 subset_iff takeWhile_eq_all_conv)
  then have num: "takeWhile (\<lambda>c. c \<in> num_chars) (c # t @ r) = c # t" if "r = [] \<or> hd r \<in> {CHR '','', CHR ''}''}" for r
    using that unfolding i by simp
  show ?thesis
    unfolding reads_as_def i append_Cons
  proof (intro allI impI)
    fix m :: nat and r :: string assume m: "1 \<le> m" and r: "r = [] \<or> hd r \<in> {CHR '','', CHR ''}''}"
    then obtain k where "m = Suc k" by (cases m) auto
    with c show "read_value m (c # t @ r) = Some (JNum (c # t), r)"
      by (simp only: read_value.simps list.case if_False Let_def num [OF r]) simp
  qed
qed

fun members_text :: "(string \<times> string) list \<Rightarrow> string" where
  "members_text [] = []"
| "members_text [(k, v)] = json_string k @ '':'' @ v"
| "members_text ((k, v) # kvs) = json_string k @ '':'' @ v @ '','' @ members_text kvs"

lemma json_object_members: "json_object kvs = ''{'' @ members_text kvs @ ''}''"
proof -
  have "Join (map (\<lambda>(k, v). json_string k @ '':'' @ v) kvs) '','' = members_text kvs"
    by (induction kvs rule: members_text.induct) simp_all
  then show ?thesis by (simp add: json_object_def)
qed

lemma read_members_text:
  assumes "list_all2 (\<lambda>(k, v) (k', j). k' = valid_text k \<and> reads_as n v j) kvs ms" "kvs \<noteq> []" "n + length kvs \<le> m"
  shows "read_members m (members_text kvs @ CHR ''}'' # r) = Some (ms, r)"
  using assms
proof (induction kvs arbitrary: ms m rule: members_text.induct)
  case (2 k v)
  then obtain j where ms: "ms = [(valid_text k, j)]" "reads_as n v j" by (auto simp: list_all2_Cons1)
  from 2 obtain m' where "m = Suc m'" "n \<le> m'" by (cases m) auto
  with reads_asD [OF ms(2), of m' "CHR ''}'' # r"] ms(1) show ?case by (simp add: json_string_def read_json_string)
next
  case (3 k v kv kvs)
  then obtain j ms' where ms: "ms = (valid_text k, j) # ms'" "reads_as n v j"
      "list_all2 (\<lambda>(k, v) (k', j). k' = valid_text k \<and> reads_as n v j) (kv # kvs) ms'"
    by (auto simp: list_all2_Cons1)
  from 3 obtain m' where m: "m = Suc m'" "n + length (kv # kvs) \<le> m'" by (cases m) auto
  from "3.IH" [OF ms(3) _ m(2)] reads_asD [OF ms(2), of m' "CHR '','' # members_text (kv # kvs) @ CHR ''}'' # r"] m ms(1)
  show ?case by (simp add: json_string_def read_json_string)
qed simp

lemma members_text_start: "kvs \<noteq> [] \<Longrightarrow> \<exists>t. members_text kvs = quote_char # t"
  by (cases kvs rule: members_text.cases) (auto simp: json_string_def)

lemma reads_as_object:
  assumes "list_all2 (\<lambda>(k, v) (k', j). k' = valid_text k \<and> reads_as n v j) kvs ms"
  shows "reads_as (Suc (n + length kvs)) (json_object kvs) (JObj ms)"
  unfolding reads_as_def
proof (intro allI impI)
  fix m r assume m: "Suc (n + length kvs) \<le> m"
  then obtain m' where m': "m = Suc m'" "n + length kvs \<le> m'" by (cases m) auto
  show "read_value m (json_object kvs @ r) = Some (JObj ms, r)"
  proof (cases "kvs = []")
    case True
    with assms m' show ?thesis by (simp add: json_object_members quote_char_def)
  next
    case False
    obtain t where t: "members_text kvs = quote_char # t" using members_text_start [OF False] by blast
    have "read_members m' (quote_char # t @ CHR ''}'' # r) = Some (ms, r)"
      using read_members_text [OF assms False m'(2), of r] t by simp
    then show ?thesis using m' t by (simp add: json_object_members del: read_members.simps) (simp add: quote_char_def)
  qed
qed

lemma members_text_length: "3 * length kvs \<le> length (members_text kvs)"
  by (induction kvs rule: members_text.induct) (simp_all add: json_string_def)

lemma json_object_length: "n \<le> 2 + 3 * length kvs \<Longrightarrow> n \<le> length (json_object kvs)"
  using members_text_length [of kvs] by (simp add: json_object_members)

lemma reads_as_mono: "reads_as n v j \<Longrightarrow> n \<le> m \<Longrightarrow> reads_as m v j"
  by (auto simp: reads_as_def)

lemma reads_as_members:
  "list_all2 (\<lambda>(k, v) (k', j). k' = valid_text k \<and> reads_as n v j) kvs ms \<Longrightarrow> Suc (n + length kvs) \<le> m \<Longrightarrow>
     reads_as m (json_object kvs) (JObj ms)"
  by (rule reads_as_mono [OF reads_as_object])

lemma read_json_reads: "reads_as n s j \<Longrightarrow> n \<le> length s \<Longrightarrow> read_json s = Some j"
  using reads_asD [of n s j "length s" "[]"] by (simp add: read_json_def)

end
