(* ===== verification/HttpMiddleware.thy ===== *)
theory HttpMiddleware imports GoPrelude begin

text \<open>
  Package \<open>internal/server/middleware\<close>.  A handler is the list of the calls it makes on its
  \<open>http.ResponseWriter\<close>, whether it returned or panicked, and the program state after it.  The
  \<open>responseWriter\<close> of the logging middleware turns the calls made on it into calls on the writer it
  wraps.  The response is read off the calls that reach the outermost writer, twice: \<open>response\<close> is what the program
  composed (the first status wins, a write without one sends 200), \<open>received\<close> what \<open>net/http\<close> makes of it for the
  client (no body for \<open>HEAD\<close> and for some statuses, informational statuses passed on).  The two agree for
  all requests but \<open>HEAD\<close> and all statuses that this program sends.
\<close>

section \<open>Handlers\<close>

datatype action =
    SetHeader string string
  | WriteHeader int
  | WriteBody string
  | ResetStatus int
  | LogRequest int nat

datatype panic_value = PanicString string | PanicError string | PanicOther string

datatype outcome = Returned | Panicked panic_value

type_synonym ('r, 's) handler = "'r \<Rightarrow> 's \<Rightarrow> action list \<times> outcome \<times> 's"

type_synonym ('r, 's) middleware = "('r, 's) handler \<Rightarrow> ('r, 's) handler"

section \<open>The response\<close>

record client =
  c_headers :: "string \<rightharpoonup> string"
  c_status :: "(int \<times> (string \<rightharpoonup> string)) option"
  c_body :: string

definition new_client :: client where
  "new_client = \<lparr>c_headers = Map.empty, c_status = None, c_body = []\<rparr>"

definition send_header :: "int \<Rightarrow> client \<Rightarrow> client" where
  "send_header code c = (if c_status c = None then c\<lparr>c_status := Some (code, c_headers c)\<rparr> else c)"

fun client_step :: "client \<Rightarrow> action \<Rightarrow> client" where
  "client_step c (SetHeader k v) = c\<lparr>c_headers := (c_headers c)(k \<mapsto> v)\<rparr>"
| "client_step c (WriteHeader code) = send_header code c"
| "client_step c (WriteBody b) = (let c' = send_header 200 c in c'\<lparr>c_body := c_body c' @ b\<rparr>)"
| "client_step c (ResetStatus code) = c"
| "client_step c (LogRequest status bytes) = c"

text \<open>When the handler has returned, \<open>net/http\<close> sends the header if nothing did.\<close>

definition response :: "action list \<Rightarrow> client" where
  "response as = send_header 200 (foldl client_step new_client as)"

definition status_of :: "client \<Rightarrow> int option" where
  "status_of c = map_option fst (c_status c)"

definition header_of :: "client \<Rightarrow> string \<Rightarrow> string option" where
  "header_of c k = (case c_status c of None \<Rightarrow> None | Some (code, h) \<Rightarrow> h k)"

text \<open>
  What \<open>net/http\<close> sends to the client, for a request with method \<open>m\<close>: an informational status does not end the
  headers; after 204 and 304 (and 101) no body may follow and \<open>Write\<close> takes nothing; the body for \<open>HEAD\<close> is
  eaten, but \<open>Write\<close> says it took it.  Connections that break and a \<open>Content-Length\<close> set by a handler, which none
  of the program's does, are left out.
\<close>

definition informational :: "int \<Rightarrow> bool" where
  "informational code \<longleftrightarrow> 100 \<le> code \<and> code \<le> 199 \<and> code \<noteq> 101"

definition bodyless :: "int \<Rightarrow> bool" where
  "bodyless code \<longleftrightarrow> (100 \<le> code \<and> code \<le> 199) \<or> code = 204 \<or> code = 304"

definition final_status :: "int \<Rightarrow> int" where
  "final_status code = (if informational code then 200 else code)"

fun net_step :: "string \<Rightarrow> client \<Rightarrow> action \<Rightarrow> client" where
  "net_step m c (SetHeader k v) = c\<lparr>c_headers := (c_headers c)(k \<mapsto> v)\<rparr>"
| "net_step m c (WriteHeader code) = (if informational code then c else send_header code c)"
| "net_step m c (WriteBody b) =
     (let c' = send_header 200 c
      in c'\<lparr>c_body := c_body c' @ (if m = ''HEAD'' \<or> bodyless (fst (the (c_status c'))) then [] else b)\<rparr>)"
| "net_step m c (ResetStatus code) = c"
| "net_step m c (LogRequest status bytes) = c"

definition received :: "string \<Rightarrow> action list \<Rightarrow> client" where
  "received m as = send_header 200 (foldl (net_step m) new_client as)"

text \<open>What its \<open>Write\<close> reports for a chunk, when the program's writer has sent the status \<open>status\<close>.\<close>

definition net_write :: "int \<Rightarrow> nat \<Rightarrow> string \<Rightarrow> nat" where
  "net_write status n b = (if bodyless (final_status status) then 0 else length b)"

lemma status_stays: "c_status c = Some x \<Longrightarrow> c_status (foldl client_step c as) = Some x"
proof (induction as arbitrary: c)
  case (Cons a as)
  then have "c_status (client_step c a) = Some x" by (cases a) (simp_all add: send_header_def Let_def)
  with Cons.IH show ?case by simp
qed simp

lemma received_fold:
  assumes "m \<noteq> ''HEAD''" "\<And>x. c_status (foldl client_step c as) = Some x \<Longrightarrow> 200 \<le> fst x \<and> \<not> bodyless (fst x)"
  shows "foldl (net_step m) c as = foldl client_step c as"
  using assms(2)
proof (induction as arbitrary: c)
  case (Cons a as)
  have sent: "200 \<le> fst x \<and> \<not> bodyless (fst x)" if "c_status (client_step c a) = Some x" for x
    using Cons.prems [of x] status_stays [OF that] by simp
  have "net_step m c a = client_step c a"
    using sent assms(1) by (cases a; cases "c_status c") (auto simp: send_header_def Let_def informational_def)
  with Cons show ?case by simp
qed simp

text \<open>For other requests than \<open>HEAD\<close> and statuses with a body the client receives what the program composed.\<close>

lemma received_response:
  assumes "m \<noteq> ''HEAD''" "status_of (response as) = Some code" "200 \<le> code" "\<not> bodyless code"
  shows "received m as = response as"
proof -
  have "200 \<le> fst x \<and> \<not> bodyless (fst x)" if "c_status (foldl client_step new_client as) = Some x" for x
    using assms(2-4) that by (simp add: response_def status_of_def send_header_def)
  from received_fold [OF assms(1) this] show ?thesis by (simp add: received_def response_def)
qed

section \<open>Chain\<close>

text \<open>The loop wraps from the last middleware of the list to the first.\<close>

fun chain_loop :: "('r, 's) middleware list \<Rightarrow> nat \<Rightarrow> ('r, 's) handler \<Rightarrow> ('r, 's) handler" where
  "chain_loop ms 0 nx = nx"
| "chain_loop ms (Suc i) nx = chain_loop ms i ((ms ! i) nx)"

definition Chain :: "('r, 's) middleware list \<Rightarrow> ('r, 's) middleware" where
  "Chain ms = chain_loop ms (length ms)"

section \<open>The buffering response writer\<close>

record rw =
  rw_status :: int
  rw_bytes :: nat
  rw_wroteHeader :: bool
  rw_headerSent :: bool

definition new_rw :: rw where
  "new_rw = \<lparr>rw_status = 200, rw_bytes = 0, rw_wroteHeader = False, rw_headerSent = False\<rparr>"

definition rw_WriteHeader :: "int \<Rightarrow> rw \<Rightarrow> rw" where
  "rw_WriteHeader code w = (if \<not> rw_wroteHeader w then w\<lparr>rw_status := code, rw_wroteHeader := True\<rparr> else w)"

definition flushHeader :: "rw \<Rightarrow> rw \<times> action list" where
  "flushHeader w =
     (if \<not> rw_headerSent w then
        (let w' = (if \<not> rw_wroteHeader w then w\<lparr>rw_status := 200, rw_wroteHeader := True\<rparr> else w)
         in (w'\<lparr>rw_headerSent := True\<rparr>, [WriteHeader (rw_status w')]))
      else (w, []))"

text \<open>\<open>acc\<close> is what the wrapped writer reports: how many bytes of a chunk it took, after the status sent and the bytes so far.\<close>

definition rw_Write :: "(int \<Rightarrow> nat \<Rightarrow> string \<Rightarrow> nat) \<Rightarrow> string \<Rightarrow> rw \<Rightarrow> rw \<times> action list" where
  "rw_Write acc b w =
     (let (w', as) = flushHeader w
      in (w'\<lparr>rw_bytes := rw_bytes w' + acc (rw_status w') (rw_bytes w') b\<rparr>, as @ [WriteBody b]))"

definition rw_ResetStatus :: "int \<Rightarrow> rw \<Rightarrow> rw" where
  "rw_ResetStatus code w = (if \<not> rw_headerSent w then w\<lparr>rw_status := code, rw_wroteHeader := True\<rparr> else w)"

fun rw_step :: "(int \<Rightarrow> nat \<Rightarrow> string \<Rightarrow> nat) \<Rightarrow> rw \<Rightarrow> action \<Rightarrow> rw \<times> action list" where
  "rw_step acc w (SetHeader k v) = (w, [SetHeader k v])"
| "rw_step acc w (WriteHeader code) = (rw_WriteHeader code w, [])"
| "rw_step acc w (WriteBody b) = rw_Write acc b w"
| "rw_step acc w (ResetStatus code) = (rw_ResetStatus code w, [])"
| "rw_step acc w (LogRequest status bytes) = (w, [LogRequest status bytes])"

fun rw_run :: "(int \<Rightarrow> nat \<Rightarrow> string \<Rightarrow> nat) \<Rightarrow> rw \<Rightarrow> action list \<Rightarrow> rw \<times> action list" where
  "rw_run acc w [] = (w, [])"
| "rw_run acc w (a # as) =
     (let (w1, out1) = rw_step acc w a; (w2, out2) = rw_run acc w1 as in (w2, out1 @ out2))"

section \<open>The two middlewares\<close>

text \<open>A panic that nothing below recovered leaves \<open>Logging\<close> before it flushes or logs.\<close>

definition Logging :: "(int \<Rightarrow> nat \<Rightarrow> string \<Rightarrow> nat) \<Rightarrow> ('r, 's) middleware" where
  "Logging acc nx r s =
     (case nx r s of
        (as, Returned, s') \<Rightarrow>
          (let (w, out) = rw_run acc new_rw as; (w', out') = flushHeader w
           in (out @ out' @ [LogRequest (rw_status w') (rw_bytes w')], Returned, s'))
      | (as, Panicked v, s') \<Rightarrow> (snd (rw_run acc new_rw as), Panicked v, s'))"

definition internal_error :: string where
  "internal_error = ''Internal Server Error'' @ [CHR 0x0A]"

definition recovery_actions :: "action list" where
  "recovery_actions =
     [ResetStatus 500, SetHeader ''Content-Type'' ''text/plain'', WriteHeader 500, WriteBody internal_error]"

definition Recovery :: "('r, 's) middleware" where
  "Recovery nx r s =
     (case nx r s of
        (as, Returned, s') \<Rightarrow> (as, Returned, s')
      | (as, Panicked v, s') \<Rightarrow> (as @ recovery_actions, Returned, s'))"

section \<open>Chain order\<close>

lemma chain_loop_foldr: "i \<le> length ms \<Longrightarrow> chain_loop ms i nx = foldr (\<lambda>m h. m h) (take i ms) nx"
  by (induction i arbitrary: "nx") (auto simp: take_Suc_conv_app_nth)

lemma Chain_foldr: "Chain ms nx = foldr (\<lambda>m h. m h) ms nx"
  by (simp add: Chain_def chain_loop_foldr)

text \<open>The first middleware of the list is the outermost one.\<close>

lemma Chain_outermost_first: "Chain (m # ms) nx = m (Chain ms nx) \<and> Chain [] nx = nx"
  by (simp add: Chain_foldr)

section \<open>What reaches the wrapped writer\<close>

fun is_body :: "action \<Rightarrow> bool" where
  "is_body (WriteBody b) = True"
| "is_body _ = False"

fun is_header :: "action \<Rightarrow> bool" where
  "is_header (WriteHeader c) = True"
| "is_header _ = False"

fun bodies :: "action list \<Rightarrow> string" where
  "bodies [] = []"
| "bodies (WriteBody b # as) = b @ bodies as"
| "bodies (_ # as) = bodies as"

text \<open>
  The header calls the wrapped writer sees: none while the header is held back, one when it is
  released, none after; once it is released the status is fixed.
\<close>

definition rw_ok :: "rw \<Rightarrow> bool" where
  "rw_ok w \<longleftrightarrow> (rw_headerSent w \<longrightarrow> rw_wroteHeader w)"

definition released :: "rw \<Rightarrow> rw \<Rightarrow> action list \<Rightarrow> bool" where
  "released w w' out \<longleftrightarrow>
     (if rw_headerSent w then rw_headerSent w' \<and> rw_status w' = rw_status w \<and> filter is_header out = []
      else if rw_headerSent w' then filter is_header out = [WriteHeader (rw_status w')]
      else filter is_header out = [])"

lemma flushHeader_released:
  "rw_ok w \<Longrightarrow> flushHeader w = (w', out) \<Longrightarrow> rw_ok w' \<and> released w w' out \<and> rw_headerSent w' \<and> rw_bytes w' = rw_bytes w"
  by (auto simp: flushHeader_def Let_def rw_ok_def released_def split: if_splits)

lemma rw_step_released: "rw_ok w \<Longrightarrow> rw_step acc w a = (w', out) \<Longrightarrow> rw_ok w' \<and> released w w' out"
proof (cases a)
  case (WriteBody b)
  obtain w1 out1 where f: "flushHeader w = (w1, out1)" by (meson surj_pair)
  assume "rw_ok w" "rw_step acc w a = (w', out)"
  with WriteBody f flushHeader_released [OF _ f] show ?thesis
    by (auto simp: rw_Write_def rw_ok_def released_def)
qed (auto simp: rw_WriteHeader_def rw_ResetStatus_def rw_ok_def released_def split: if_splits)

lemma released_trans:
  "released w w1 out1 \<Longrightarrow> released w1 w2 out2 \<Longrightarrow> released w w2 (out1 @ out2)"
  by (auto simp: released_def split: if_splits)

lemma rw_run_released: "rw_ok w \<Longrightarrow> rw_run acc w as = (w', out) \<Longrightarrow> rw_ok w' \<and> released w w' out"
proof (induction as arbitrary: w w' out)
  case Nil
  then show ?case by (simp add: released_def)
next
  case (Cons a as)
  obtain w1 out1 where s: "rw_step acc w a = (w1, out1)" by (meson surj_pair)
  obtain w2 out2 where r: "rw_run acc w1 as = (w2, out2)" by (meson surj_pair)
  from Cons.prems(2) s r have eq: "w' = w2" "out = out1 @ out2" by simp_all
  note s' = rw_step_released [OF Cons.prems(1) s]
  with Cons.IH [OF _ r] have "rw_ok w2" "released w1 w2 out2" by simp_all
  with s' released_trans show ?case unfolding eq by blast
qed

lemma rw_step_bodies: "rw_step acc w a = (w', out) \<Longrightarrow> bodies out = bodies [a]"
  by (cases a) (auto simp: rw_Write_def flushHeader_def Let_def split: if_splits)

lemma bodies_append [simp]: "bodies (as @ bs) = bodies as @ bodies bs"
  by (induction as rule: bodies.induct) auto

lemma rw_run_bodies: "rw_run acc w as = (w', out) \<Longrightarrow> bodies out = bodies as"
proof (induction as arbitrary: w w' out)
  case (Cons a as)
  obtain w1 out1 where s: "rw_step acc w a = (w1, out1)" by (meson surj_pair)
  obtain w2 out2 where r: "rw_run acc w1 as = (w2, out2)" by (meson surj_pair)
  from Cons.prems s r have "out = out1 @ out2" by simp
  with rw_step_bodies [OF s] Cons.IH [OF r] have "bodies out = bodies [a] @ bodies as" by simp
  also have "\<dots> = bodies (a # as)" by (cases a) auto
  finally show ?case .
qed simp

lemma rw_run_append:
  "rw_run acc w (as @ bs) =
     (let (w1, o1) = rw_run acc w as; (w2, o2) = rw_run acc w1 bs in (w2, o1 @ o2))"
  by (induction as arbitrary: w) (auto simp: Let_def split: prod.splits)

section \<open>What the client receives\<close>

lemma client_body: "c_body (foldl client_step c as) = c_body c @ bodies as"
  by (induction as arbitrary: c rule: bodies.induct) (auto simp: send_header_def Let_def)

text \<open>The writer and the client agree on whether a status was sent, and on which.\<close>

definition coupled :: "rw \<Rightarrow> client \<Rightarrow> bool" where
  "coupled w c \<longleftrightarrow>
     (case c_status c of None \<Rightarrow> \<not> rw_headerSent w | Some (code, h) \<Rightarrow> rw_headerSent w \<and> code = rw_status w)"

lemma coupled_new: "coupled new_rw new_client"
  by (simp add: coupled_def new_rw_def new_client_def)

lemma flushHeader_coupled:
  "coupled w c \<Longrightarrow> flushHeader w = (w', out) \<Longrightarrow> coupled w' (foldl client_step c out)"
  by (auto simp: coupled_def flushHeader_def send_header_def Let_def split: if_splits option.splits)

lemma rw_step_coupled:
  assumes "rw_ok w" "coupled w c" "rw_step acc w a = (w', out)"
  shows "coupled w' (foldl client_step c out)"
proof (cases a)
  case (WriteBody b)
  obtain w1 out1 where f: "flushHeader w = (w1, out1)" by (meson surj_pair)
  have "coupled w1 (foldl client_step c out1)" by (rule flushHeader_coupled [OF assms(2) f])
  moreover have "rw_headerSent w1" using flushHeader_released [OF assms(1) f] by simp
  ultimately show ?thesis using assms(3) WriteBody f
    by (auto simp: rw_Write_def coupled_def send_header_def Let_def split: option.splits)
qed (use assms in \<open>auto simp: coupled_def rw_ok_def rw_WriteHeader_def rw_ResetStatus_def split: if_splits option.splits\<close>)

lemma rw_run_coupled:
  "rw_ok w \<Longrightarrow> coupled w c \<Longrightarrow> rw_run acc w as = (w', out) \<Longrightarrow> coupled w' (foldl client_step c out)"
proof (induction as arbitrary: w w' c out)
  case (Cons a as)
  obtain w1 out1 where s: "rw_step acc w a = (w1, out1)" by (meson surj_pair)
  obtain w2 out2 where r: "rw_run acc w1 as = (w2, out2)" by (meson surj_pair)
  from Cons.prems(3) s r have eq: "w' = w2" "out = out1 @ out2" by simp_all
  from rw_step_released [OF Cons.prems(1) s] have "rw_ok w1" by simp
  from Cons.IH [OF this rw_step_coupled [OF Cons.prems(1,2) s] r] show ?case by (simp add: eq)
qed simp

lemma new_rw_ok: "rw_ok new_rw"
  by (simp add: rw_ok_def new_rw_def)

lemmas new_rw_run = rw_run_released [OF new_rw_ok] rw_run_coupled [OF new_rw_ok coupled_new]

lemma coupled_response: "coupled w c \<Longrightarrow> rw_headerSent w \<Longrightarrow> send_header 200 c = c \<and> status_of c = Some (rw_status w)"
  by (auto simp: coupled_def send_header_def status_of_def split: option.splits)

text \<open>The same for the client of \<open>net/http\<close>: it sees the final status, and unless it asked with \<open>HEAD\<close>, it has
  as many bytes as the writer counted.\<close>

definition net_coupled :: "string \<Rightarrow> rw \<Rightarrow> client \<Rightarrow> bool" where
  "net_coupled m w c \<longleftrightarrow>
     (case c_status c of
        None \<Rightarrow> \<not> rw_headerSent w \<or> informational (rw_status w)
      | Some (code, h) \<Rightarrow> rw_headerSent w \<and> code = final_status (rw_status w))"

lemma net_coupled_frame [simp]:
  "net_coupled m (w\<lparr>rw_bytes := n\<rparr>) c = net_coupled m w c" "net_coupled m w (c\<lparr>c_body := b\<rparr>) = net_coupled m w c"
  by (simp_all add: net_coupled_def split: option.split)

lemma net_coupled_new: "net_coupled m new_rw new_client"
  by (simp add: net_coupled_def new_rw_def new_client_def)

lemma flushHeader_net:
  "net_coupled m w c \<Longrightarrow> flushHeader w = (w', out) \<Longrightarrow>
     net_coupled m w' (foldl (net_step m) c out) \<and> c_body (foldl (net_step m) c out) = c_body c \<and> rw_headerSent w' \<and> rw_bytes w' = rw_bytes w"
  by (auto simp: net_coupled_def flushHeader_def send_header_def final_status_def Let_def split: if_splits option.splits)

lemma net_header: "net_coupled m w c \<Longrightarrow> rw_headerSent w \<Longrightarrow>
    c_status (send_header 200 c) \<noteq> None \<and> fst (the (c_status (send_header 200 c))) = final_status (rw_status w)
    \<and> net_coupled m w (send_header 200 c)"
  by (auto simp: net_coupled_def send_header_def final_status_def split: option.splits)

lemma rw_step_net:
  assumes "rw_ok w" "net_coupled m w c" "rw_step net_write w a = (w', out)"
  shows "net_coupled m w' (foldl (net_step m) c out) \<and> (m \<noteq> ''HEAD'' \<and> rw_bytes w = length (c_body c) \<longrightarrow> rw_bytes w' = length (c_body (foldl (net_step m) c out)))
    \<and> (m = ''HEAD'' \<longrightarrow> c_body (foldl (net_step m) c out) = c_body c)"
proof (cases a)
  case (WriteBody b)
  obtain w1 out1 where f: "flushHeader w = (w1, out1)" by (meson surj_pair)
  note fl = flushHeader_net [OF assms(2) f]
  from fl net_header [of m w1 "foldl (net_step m) c out1"] have
    h: "fst (the (c_status (send_header 200 (foldl (net_step m) c out1)))) = final_status (rw_status w1)"
      "net_coupled m w1 (send_header 200 (foldl (net_step m) c out1))" by simp_all
  have body: "c_body (send_header 200 x) = c_body x" for x by (simp add: send_header_def)
  from assms(3) WriteBody f have w': "w' = w1\<lparr>rw_bytes := rw_bytes w1 + net_write (rw_status w1) (rw_bytes w1) b\<rparr>"
      "out = out1 @ [WriteBody b]" by (simp_all add: rw_Write_def)
  with fl h show ?thesis by (cases "m = ''HEAD''") (simp_all add: w' body net_write_def Let_def)
qed (use assms in \<open>auto simp: net_coupled_def rw_ok_def rw_WriteHeader_def rw_ResetStatus_def split: if_splits option.splits\<close>)

lemma rw_run_net:
  "rw_ok w \<Longrightarrow> net_coupled m w c \<Longrightarrow> rw_run net_write w as = (w', out) \<Longrightarrow>
     net_coupled m w' (foldl (net_step m) c out) \<and> (m \<noteq> ''HEAD'' \<and> rw_bytes w = length (c_body c) \<longrightarrow> rw_bytes w' = length (c_body (foldl (net_step m) c out)))
     \<and> (m = ''HEAD'' \<longrightarrow> c_body (foldl (net_step m) c out) = c_body c)"
proof (induction as arbitrary: w w' c out)
  case (Cons a as)
  obtain w1 out1 where s: "rw_step net_write w a = (w1, out1)" by (meson surj_pair)
  obtain w2 out2 where r: "rw_run net_write w1 as = (w2, out2)" by (meson surj_pair)
  from Cons.prems(3) s r have eq: "w' = w2" "out = out1 @ out2" by simp_all
  from rw_step_released [OF Cons.prems(1) s] have "rw_ok w1" by simp
  note step = rw_step_net [OF Cons.prems(1,2) s]
  from Cons.IH [OF \<open>rw_ok w1\<close> step [THEN conjunct1] r] step show ?case by (simp add: eq)
qed simp

lemma net_status_stays: "c_status c = Some x \<Longrightarrow> c_status (foldl (net_step m) c as) = Some x"
proof (induction as arbitrary: c)
  case (Cons a as)
  then have "c_status (net_step m c a) = Some x" by (cases a) (simp_all add: send_header_def Let_def)
  with Cons.IH show ?case by simp
qed simp

text \<open>Other clients than those of \<open>HEAD\<close> have all that was written, or nothing if the status has no body.\<close>

lemma net_body:
  "m \<noteq> ''HEAD'' \<Longrightarrow> c_status (send_header 200 (foldl (net_step m) c as)) = Some x \<Longrightarrow>
     c_body (foldl (net_step m) c as) = c_body c @ (if bodyless (fst x) then [] else bodies as)"
proof (induction as arbitrary: c)
  case (Cons a as)
  note ih = Cons.IH [OF Cons.prems(1), of "net_step m c a"] 
  show ?case
  proof (cases a)
    case (WriteBody b)
    have some: "c_status (net_step m c a) \<noteq> None" by (simp add: WriteBody send_header_def Let_def)
    then obtain y where y: "c_status (net_step m c a) = Some y" by blast
    with net_status_stays [OF this] Cons.prems(2) have "y = x" by (simp add: send_header_def)
    with y have "fst (the (c_status (send_header 200 c))) = fst x" by (simp add: WriteBody Let_def)
    with ih Cons.prems show ?thesis by (simp add: WriteBody Let_def send_header_def)
  qed (use ih Cons.prems in \<open>auto simp: send_header_def split: if_splits\<close>)
qed simp

lemma Logging_Returned:
  assumes "nx r s = (as, Returned, s')" "rw_run acc new_rw as = (w, o1)" "flushHeader w = (w', o2)"
  shows "Logging acc nx r s = (o1 @ o2 @ [LogRequest (rw_status w') (rw_bytes w')], Returned, s')"
    and "response (o1 @ o2 @ [LogRequest st n]) = foldl client_step new_client (o1 @ o2)"
    and "status_of (foldl client_step new_client (o1 @ o2)) = Some (rw_status w')"
    and "filter is_header (o1 @ o2) = [WriteHeader (rw_status w')]"
    and "c_body (foldl client_step new_client (o1 @ o2)) = bodies as"
    and "rw_bytes w' = rw_bytes w"
proof -
  note run = new_rw_run [OF assms(2)]
  then have ok: "rw_ok w" by simp
  note fl = flushHeader_released [OF ok assms(3)]
  have c: "coupled w' (foldl client_step new_client (o1 @ o2))"
    using flushHeader_coupled [OF run(2) assms(3)] by simp
  note resp = coupled_response [OF c]
  show "Logging acc nx r s = (o1 @ o2 @ [LogRequest (rw_status w') (rw_bytes w')], Returned, s')"
    by (simp add: Logging_def assms)
  show "response (o1 @ o2 @ [LogRequest st n]) = foldl client_step new_client (o1 @ o2)"
    using resp fl by (simp add: response_def)
  show "status_of (foldl client_step new_client (o1 @ o2)) = Some (rw_status w')" using resp fl by simp
  show "filter is_header (o1 @ o2) = [WriteHeader (rw_status w')]"
    using released_trans [of new_rw w o1 w' o2] run fl by (simp add: released_def new_rw_def)
  have "bodies o2 = []" using assms(3) by (auto simp: flushHeader_def Let_def split: if_splits)
  then show "c_body (foldl client_step new_client (o1 @ o2)) = bodies as"
    using rw_run_bodies [OF assms(2)] client_body [of new_client "o1 @ o2"] by (simp add: new_client_def)
  show "rw_bytes w' = rw_bytes w" using fl by simp
qed

text \<open>C39: What \<open>Logging\<close> logs is what happened.  Whatever the handler does, a request that \<open>Logging\<close> lets through
  has its status passed to \<open>net/http\<close> exactly once, and it is the status that is logged and that the client gets (unless it is an
  informational one, which \<open>net/http\<close> follows with 200).  The byte count it logs is the number of body bytes the
  client received, except for \<open>HEAD\<close>: there the client receives none, but the bytes the handler wrote are logged all the same.\<close>

theorem Logging_faithful:
  assumes "Logging net_write nx r s = (out, Returned, s')"
  shows "\<exists>o1 st n. out = o1 @ [LogRequest st n] \<and> filter is_header out = [WriteHeader st]
           \<and> status_of (received m out) = Some (final_status st)
           \<and> c_body (received m out) = (if m = ''HEAD'' \<or> bodyless (final_status st) then [] else bodies (fst (nx r s)))
           \<and> n = (if bodyless (final_status st) then 0 else length (bodies (fst (nx r s))))
           \<and> (m \<noteq> ''HEAD'' \<longrightarrow> n = length (c_body (received m out)))"
proof -
  obtain as where n: "nx r s = (as, Returned, s')"
    using assms by (auto simp: Logging_def split: prod.splits outcome.splits)
  obtain w o1 where r: "rw_run net_write new_rw as = (w, o1)" by (meson surj_pair)
  obtain w' o2 where f: "flushHeader w = (w', o2)" by (meson surj_pair)
  note L = Logging_Returned [where nx = nx, OF n r f]
  from L(1) assms have out: "out = o1 @ o2 @ [LogRequest (rw_status w') (rw_bytes w')]" by simp
  have all: "bodies (o1 @ o2) = bodies as"
    using L(5) client_body [of new_client "o1 @ o2"] by (simp add: new_client_def)
  have seen: "status_of (received m out) = Some (final_status (rw_status w'))
      \<and> c_body (received m out) = c_body (foldl (net_step m) new_client (o1 @ o2))
      \<and> (m \<noteq> ''HEAD'' \<longrightarrow> rw_bytes w' = length (c_body (received m out))) \<and> (m = ''HEAD'' \<longrightarrow> c_body (received m out) = [])" for m
  proof -
    note run = rw_run_net [OF new_rw_ok net_coupled_new [of m] r]
    note fl = flushHeader_net [OF run [THEN conjunct1] f]
    let ?c = "foldl (net_step m) new_client (o1 @ o2)"
    from fl net_header [of m w' ?c] have "fst (the (c_status (send_header 200 ?c))) = final_status (rw_status w')" "c_status (send_header 200 ?c) \<noteq> None"
      by simp_all
    then have "status_of (received m out) = Some (final_status (rw_status w'))" by (auto simp: out received_def status_of_def)
    moreover have "c_body (received m out) = c_body ?c" by (simp add: out received_def send_header_def)
    ultimately show ?thesis using run fl by (cases "m = ''HEAD''") (simp_all add: new_client_def new_rw_def)
  qed
  have body: "c_body (received m out) = (if bodyless (final_status (rw_status w')) then [] else bodies as)" if m: "m \<noteq> ''HEAD''" for m
  proof -
    from seen [of m] obtain x where x: "c_status (send_header 200 (foldl (net_step m) new_client (o1 @ o2))) = Some x" "fst x = final_status (rw_status w')"
      by (auto simp: out received_def status_of_def)
    from net_body [OF m x(1)] x(2) seen [of m] all show ?thesis by (simp add: new_client_def)
  qed
  have "rw_bytes w' = (if bodyless (final_status (rw_status w')) then 0 else length (bodies as))"
  proof -
    have "rw_bytes w' = length (c_body (received ''GET'' out))" using seen [of "''GET''"] by simp
    also have "\<dots> = length (if bodyless (final_status (rw_status w')) then [] else bodies as)" using body [of "''GET''"] by simp
    finally show ?thesis by simp
  qed
  with seen [of m] body [of m] L(4) n show ?thesis
    unfolding out by (intro exI [of _ "o1 @ o2"] exI [of _ "rw_status w'"] exI [of _ "rw_bytes w'"]) auto
qed

definition demo_handler :: "(unit, unit) handler" where
  "demo_handler r s = ([WriteHeader 404, WriteHeader 200, WriteBody ''gone''], Returned, s)"

theorem Logging_faithful_witness:
  "fst (Logging net_write demo_handler () ()) = [WriteHeader 404, WriteBody ''gone'', LogRequest 404 4]
   \<and> status_of (received ''HEAD'' [WriteHeader 404, WriteBody ''gone'', LogRequest 404 4]) = Some 404
   \<and> c_body (received ''HEAD'' [WriteHeader 404, WriteBody ''gone'', LogRequest 404 4]) = []"
proof -
  let ?out = "[WriteHeader 404, WriteBody ''gone'', LogRequest 404 4]"
  have run: "Logging net_write demo_handler () () = (?out, Returned, ())"
    by (simp add: Logging_def demo_handler_def rw_WriteHeader_def rw_Write_def flushHeader_def new_rw_def net_write_def
        final_status_def informational_def bodyless_def Let_def)
  from Logging_faithful [OF run, of "''HEAD''"] have "status_of (received ''HEAD'' ?out) = Some (final_status 404)" "c_body (received ''HEAD'' ?out) = []"
    by auto
  with run show ?thesis by (simp add: final_status_def informational_def)
qed

section \<open>Panics\<close>

lemma no_body_headers:
  "\<not> rw_headerSent w \<Longrightarrow> bodies as = [] \<Longrightarrow> list_all (\<lambda>a. \<not> is_body a) as \<Longrightarrow> rw_run acc w as = (w', out) \<Longrightarrow>
     \<not> rw_headerSent w'"
proof (induction as arbitrary: w w' out)
  case (Cons a as)
  obtain w1 out1 where s: "rw_step acc w a = (w1, out1)" by (meson surj_pair)
  obtain w2 out2 where r: "rw_run acc w1 as = (w2, out2)" by (meson surj_pair)
  from Cons.prems s r have "w' = w2" "bodies as = []" by (cases a, auto)+
  moreover have "\<not> rw_headerSent w1"
    using s Cons.prems(1,3) by (cases a) (auto simp: rw_WriteHeader_def rw_ResetStatus_def split: if_splits)
  ultimately show ?case using Cons.IH [OF _ _ _ r] Cons.prems(3) by simp
qed simp

text \<open>C38: A handler that panics before it has written any body is answered with a complete 500
  response, even if it had already chosen another status.\<close>

theorem panic_before_body_is_500:
  assumes "nx r s = (as, Panicked v, s')" "list_all (\<lambda>a. \<not> is_body a) as"
    and "Chain [Logging acc, Recovery] nx r s = (out, oc, s'')"
  shows "oc = Returned \<and> s'' = s' \<and> status_of (response out) = Some 500
         \<and> c_body (response out) = internal_error \<and> header_of (response out) ''Content-Type'' = Some ''text/plain''"
proof -
  have no: "bodies as = []" using assms(2) by (induction as rule: bodies.induct) auto
  obtain w o1 where r: "rw_run acc new_rw as = (w, o1)" by (meson surj_pair)
  have ns: "\<not> rw_headerSent w" using no_body_headers [OF _ no assms(2) r] by (simp add: new_rw_def)
  let ?as = "as @ recovery_actions"
  have n: "Recovery nx r s = (?as, Returned, s')" by (simp add: Recovery_def assms(1))
  let ?o = "o1 @ [SetHeader ''Content-Type'' ''text/plain'', WriteHeader 500, WriteBody internal_error]"
  obtain w' where run: "rw_run acc new_rw ?as = (w', ?o)" and w': "rw_headerSent w'"
    using ns r by (simp add: rw_run_append recovery_actions_def rw_ResetStatus_def rw_WriteHeader_def
        rw_Write_def flushHeader_def Let_def)
  have f: "flushHeader w' = (w', [])" using w' by (simp add: flushHeader_def)
  note L = Logging_Returned [where nx = "Recovery nx", OF n run f]
  have out: "out = ?o @ [] @ [LogRequest (rw_status w') (rw_bytes w')]" "oc = Returned" "s'' = s'"
    using assms(3) L(1) by (simp_all add: Chain_foldr)
  have "c_status (foldl client_step new_client o1) = None"
    using new_rw_run(2) [OF r] ns by (auto simp: coupled_def split: option.splits)
  then show ?thesis using L(2,5) no client_body [of new_client o1]
    unfolding out by (simp add: status_of_def header_of_def send_header_def Let_def recovery_actions_def)
qed

definition panicking_handler :: "(unit, unit) handler" where
  "panicking_handler r s = ([WriteHeader 200], Panicked (PanicString ''boom''), s)"

theorem panic_before_body_is_500_witness:
  "Returned = Returned \<and> () = ()
   \<and> status_of (response (fst (Chain [Logging net_write, Recovery] panicking_handler () ()))) = Some 500
   \<and> c_body (response (fst (Chain [Logging net_write, Recovery] panicking_handler () ()))) = internal_error
   \<and> header_of (response (fst (Chain [Logging net_write, Recovery] panicking_handler () ()))) ''Content-Type''
     = Some ''text/plain''"
proof (rule panic_before_body_is_500 [where r = "()" and s = "()" and s' = "()" and acc = net_write
      and nx = panicking_handler and as = "[WriteHeader 200]" and v = "PanicString ''boom''"])
  show "Chain [Logging net_write, Recovery] panicking_handler () ()
        = (fst (Chain [Logging net_write, Recovery] panicking_handler () ()), Returned, ())"
    by (simp add: Chain_foldr Logging_def Recovery_def panicking_handler_def split: prod.splits)
qed (simp_all add: panicking_handler_def)

text \<open>After a body was written the status that went with it stands, and the error text is
  appended to what the client already has; the chain itself never lets a panic through.\<close>

lemma panic_after_body_keeps_status:
  assumes "nx r s = (as, Panicked v, s')" "rw_run acc new_rw as = (w, o1)" "rw_headerSent w"
    and "Chain [Logging acc, Recovery] nx r s = (out, oc, s'')"
  shows "oc = Returned \<and> status_of (response out) = Some (rw_status w)
         \<and> c_body (response out) = bodies as @ internal_error"
proof -
  let ?as = "as @ recovery_actions"
  have n: "Recovery nx r s = (?as, Returned, s')" by (simp add: Recovery_def assms(1))
  let ?o = "o1 @ [SetHeader ''Content-Type'' ''text/plain'', WriteBody internal_error]"
  have "rw_ok w" using new_rw_run(1) [OF assms(2)] by simp
  then obtain w' where run: "rw_run acc new_rw ?as = (w', ?o)" and w': "rw_headerSent w'" "rw_status w' = rw_status w"
    using assms(2,3) by (simp add: rw_run_append recovery_actions_def rw_ResetStatus_def rw_WriteHeader_def
        rw_ok_def rw_Write_def flushHeader_def Let_def)
  have f: "flushHeader w' = (w', [])" using w' by (simp add: flushHeader_def)
  note L = Logging_Returned [where nx = "Recovery nx", OF n run f]
  have out: "out = ?o @ [] @ [LogRequest (rw_status w') (rw_bytes w')]" "oc = Returned"
    using assms(4) L(1) by (simp_all add: Chain_foldr)
  show ?thesis using L(2,3,5) w'(2) unfolding out by (simp add: recovery_actions_def)
qed

end
