(* ===== verification/AlertService.thy ===== *)
theory AlertService imports SqliteStore JsonReader HttpMiddleware begin

text \<open>
  Package \<open>internal/alerts\<close>, the operations: \<open>Service.Receive\<close> (\<open>service.go\<close>) and the webhook handler
  (\<open>handler.go\<close>).  The store is the \<open>save\<close> operation of the interface; \<open>decode\<close> is the JSON decoder
  of the standard library reading a body through \<open>http.MaxBytesReader\<close> with the given limit.
\<close>

section \<open>Service.Receive\<close>

definition Receive ::
  "('e \<Rightarrow> alert_group \<Rightarrow> 's \<Rightarrow> goerr option \<times> 's) \<Rightarrow> int \<Rightarrow> 'e \<Rightarrow> alert_group \<Rightarrow> 's \<Rightarrow> goerr option \<times> 's" where
  "Receive save maxAlerts e g s =
     (case ValidatePayload g maxAlerts of
        Some err \<Rightarrow> (Some err, s)
      | None \<Rightarrow>
          (case save e g s of
             (Some err, s') \<Rightarrow> (Some (Errorf [Lit ''save alert group''] err), s')
           | (None, s') \<Rightarrow> (None, s')))"

lemma Receive_None:
  "Receive save m e g s = (None, s') \<longleftrightarrow> valid_payload g m \<and> save e g s = (None, s')"
  by (auto simp: Receive_def ValidatePayload_accepts [symmetric] split: option.splits prod.splits)

lemma Receive_Some:
  "Receive save m e g s = (Some err, s') \<longleftrightarrow>
     ValidatePayload g m = Some err \<and> s' = s
     \<or> valid_payload g m \<and> (\<exists>err'. save e g s = (Some err', s') \<and> err = Errorf [Lit ''save alert group''] err')"
  by (auto simp: Receive_def ValidatePayload_accepts [symmetric] split: option.splits prod.splits)

section \<open>The webhook handler\<close>

record request =
  rq_method :: string
  rq_path :: string
  rq_content_type :: string
  rq_body :: string

datatype decode_result = Decoded alert_group | BodyTooLarge | BadJSON

definition json_content :: action where
  "json_content = SetHeader ''Content-Type'' ''application/json''"

definition ok_body :: string where
  "ok_body = ''{\"status\":\"ok\"}''"

definition writeError :: "int \<Rightarrow> string \<Rightarrow> action list" where
  "writeError code message =
     [json_content, WriteHeader code, WriteBody (json_string_map [(''error'', message)])]"

definition receive_error :: "(string \<Rightarrow> string) \<Rightarrow> goerr \<Rightarrow> action list" where
  "receive_error q err =
     (if errors_is err ErrInvalidPayload then writeError 400 (error_text q err)
      else if errors_is err ErrPayloadTooLarge then writeError 413 (error_text q err)
      else writeError 500 ''internal server error'')"

definition HandleWebhook ::
  "(string \<Rightarrow> string) \<Rightarrow> (int \<Rightarrow> string \<Rightarrow> decode_result) \<Rightarrow> (alert_group \<Rightarrow> 's \<Rightarrow> goerr option \<times> 's) \<Rightarrow> int
   \<Rightarrow> (request, 's) handler" where
  "HandleWebhook q decode receive maxBodySize r s =
     (if \<not> prefix ''application/json'' (rq_content_type r) then
        (writeError 415 ''Content-Type must be application/json'', Returned, s)
      else
        (case decode maxBodySize (rq_body r) of
           BodyTooLarge \<Rightarrow> (writeError 413 ''request body too large'', Returned, s)
         | BadJSON \<Rightarrow> (writeError 400 ''invalid JSON payload'', Returned, s)
         | Decoded g \<Rightarrow>
             (case receive g s of
                (Some err, s') \<Rightarrow> (receive_error q err, Returned, s')
              | (None, s') \<Rightarrow> ([json_content, WriteHeader 200, WriteBody ok_body], Returned, s'))))"

section \<open>Responses\<close>

definition reply :: "int \<Rightarrow> string \<Rightarrow> action list" where
  "reply code b = [json_content, WriteHeader code, WriteBody b]"

lemma status_reply [simp]: "status_of (response (reply code b)) = Some code"
  by (simp add: response_def reply_def json_content_def new_client_def send_header_def status_of_def)

lemma body_reply [simp]: "c_body (response (reply code b)) = b"
  by (simp add: response_def reply_def json_content_def new_client_def send_header_def)

lemma writeError_reply: "writeError code m = reply code (json_string_map [(''error'', m)])"
  by (simp add: writeError_def reply_def)

definition error_status :: "goerr \<Rightarrow> int" where
  "error_status err =
     (if errors_is err ErrInvalidPayload then 400 else if errors_is err ErrPayloadTooLarge then 413 else 500)"

lemma status_receive_error [simp]: "status_of (response (receive_error q err)) = Some (error_status err)"
  by (simp add: receive_error_def error_status_def writeError_reply)

section \<open>The receiver behind the handler\<close>

text \<open>
  \<open>Receiver\<close> of \<open>handler.go\<close>: \<open>took g s s'\<close> says that the receiver made the group \<open>g\<close> its own when it
  went from \<open>s\<close> to \<open>s'\<close>; a group it refused left no trace.
\<close>

locale webhook_receiver =
  fixes receive :: "alert_group \<Rightarrow> 's \<Rightarrow> goerr option \<times> 's"
    and took :: "alert_group \<Rightarrow> 's \<Rightarrow> 's \<Rightarrow> bool"
  assumes receive_ok: "receive g s = (None, s') \<Longrightarrow> took g s s'"
    and receive_err: "receive g s = (Some err, s') \<Longrightarrow> s' = s"
begin

lemma handler_returns: "\<exists>as s'. HandleWebhook q decode receive m r s = (as, Returned, s')"
  by (auto simp: HandleWebhook_def split: decode_result.splits prod.splits option.splits)

lemma acknowledged:
  assumes "HandleWebhook q decode receive m r s = (as, oc, s')" "status_of (response as) = Some 200"
  shows "\<exists>g. decode m (rq_body r) = Decoded g \<and> receive g s = (None, s') \<and> took g s s'"
  using assms receive_ok
  by (auto simp: HandleWebhook_def writeError_reply error_status_def
      split: if_splits decode_result.splits prod.splits option.splits)

lemma refused:
  assumes "HandleWebhook q decode receive m r s = (as, oc, s')" "status_of (response as) \<noteq> Some 200"
  shows "s' = s"
  using assms receive_err
  by (auto simp: HandleWebhook_def reply_def [symmetric] split: if_splits decode_result.splits prod.splits option.splits)

lemma statuses:
  assumes "HandleWebhook q decode receive m r s = (as, oc, s')"
  shows "status_of (response as) \<in> {Some 200, Some 400, Some 413, Some 415, Some 500}"
  using assms
  by (auto simp: HandleWebhook_def writeError_reply error_status_def reply_def [symmetric]
      split: if_splits decode_result.splits prod.splits option.splits)

end

text \<open>Any implementation of the store interface gives a receiver.\<close>

context alert_store begin

lemma receive_err_unchanged: "Receive save m e g s = (Some err, s') \<Longrightarrow> s' = s"
  using save_err by (auto simp: Receive_Some)

lemma receive_makes_pending:
  assumes "Receive save m e g s = (None, s')" "inv s" "storable g"
  shows "inv s' \<and> valid_payload g m \<and> pend s' = (pend s)(gGroupKey g \<mapsto> g)"
  using assms save_ok by (auto simp: Receive_None)

end

definition sqlite_took ::
  "(alert_group \<Rightarrow> 'p option) \<Rightarrow> ('p \<Rightarrow> alert_group option) \<Rightarrow> int \<Rightarrow> alert_group \<Rightarrow> 'p db \<Rightarrow> 'p db \<Rightarrow> bool" where
  "sqlite_took marshal unmarshal m g d d' \<longleftrightarrow>
     (db_wf unmarshal d \<and> storable marshal unmarshal g \<longrightarrow>
        db_wf unmarshal d' \<and> valid_payload g m \<and> pending_map unmarshal d' = (pending_map unmarshal d)(gGroupKey g \<mapsto> g))"

interpretation relay_receiver: webhook_receiver "Receive (Save marshal) m e" "sqlite_took marshal unmarshal m"
  for marshal :: "alert_group \<Rightarrow> 'p option" and unmarshal :: "'p \<Rightarrow> alert_group option" and m e
proof unfold_locales
  fix g d d' err
  show "sqlite_took marshal unmarshal m g d d'" if "Receive (Save marshal) m e g d = (None, d')"
    using sqlite_store.receive_makes_pending [OF that, where unmarshal = unmarshal] by (simp add: sqlite_took_def)
  show "d' = d" if "Receive (Save marshal) m e g d = (Some err, d')"
    using sqlite_store.receive_err_unchanged [OF that] .
qed

section \<open>Properties\<close>

text \<open>The webhook is answered with 200 only when its group was decoded, passed validation and is
  now stored as pending with exactly the received content, replacing only what the same group key held
  before.\<close>

lemma webhook_ack_means_pending:
  assumes "HandleWebhook q decode (Receive (Save marshal) maxAlerts e) maxBody r d = (as, oc, d')"
    and "status_of (response as) = Some 200"
    and "db_wf unmarshal d" and "\<And>g. decode maxBody (rq_body r) = Decoded g \<Longrightarrow> storable marshal unmarshal g"
  shows "\<exists>g. decode maxBody (rq_body r) = Decoded g \<and> valid_payload g maxAlerts \<and> db_wf unmarshal d'
             \<and> pending_map unmarshal d' = (pending_map unmarshal d)(gGroupKey g \<mapsto> g)"
  using relay_receiver.acknowledged [OF assms(1,2), where unmarshal = unmarshal] assms(3,4)
  by (auto simp: sqlite_took_def)

definition fixed_env :: env where
  "fixed_env = \<lparr>e_now = 100, e_ids = (\<lambda>i. replicate (Suc i) CHR ''a''), e_fail = no_faults\<rparr>"

definition demo_request :: request where
  "demo_request = \<lparr>rq_method = ''POST'', rq_path = ''/api/v1/alerts'', rq_content_type = ''application/json'', rq_body = ''x''\<rparr>"

lemma save_sample:
  "Save Some fixed_env sample_group (migrated 0) =
     (None, \<lparr>alert_groups = [group_row_of ''a'' 100 sample_group sample_group],
             alerts_table = [alert_row_of ''aa'' ''a'' sample_alert], health_check = [(1, 0)]\<rparr>)"
  by (simp add: Save_def save_tx_def migrated_def upsert_group_def fixed_env_def sample_group_def
      group_row_of_def run_stmt_def no_faults_def numeral_2_eq_2)

lemma handle_sample:
  "HandleWebhook q (\<lambda>_ _. Decoded sample_group) (Receive (Save Some) 5 fixed_env) 1024 demo_request (migrated 0)
   = (reply 200 ok_body, Returned, snd (Save Some fixed_env sample_group (migrated 0)))"
  by (simp add: HandleWebhook_def demo_request_def Receive_def validate_sample_group save_sample reply_def)

text \<open>It is answered with 200 whenever the media type is right, the group was decoded and passed validation, and \<open>Save\<close>
  returned without an error, and in no other case.\<close>

lemma webhook_ack_iff:
  assumes "HandleWebhook q decode (Receive (Save marshal) maxAlerts e) maxBody r d = (as, oc, d')"
  shows "status_of (response as) = Some 200 \<longleftrightarrow>
     prefix ''application/json'' (rq_content_type r)
     \<and> (\<exists>g. decode maxBody (rq_body r) = Decoded g \<and> valid_payload g maxAlerts \<and> fst (Save marshal e g d) = None)"
proof (cases "prefix ''application/json'' (rq_content_type r)")
  case True
  show ?thesis
  proof (cases "decode maxBody (rq_body r)")
    case (Decoded g)
    obtain res d1 where rec: "Receive (Save marshal) maxAlerts e g d = (res, d1)" by (meson surj_pair)
    have "res = None \<longleftrightarrow> valid_payload g maxAlerts \<and> fst (Save marshal e g d) = None"
    proof
      assume "res = None"
      with rec show "valid_payload g maxAlerts \<and> fst (Save marshal e g d) = None" by (simp add: Receive_None)
    next
      assume "valid_payload g maxAlerts \<and> fst (Save marshal e g d) = None"
      then have "Receive (Save marshal) maxAlerts e g d = (None, snd (Save marshal e g d))" unfolding Receive_None by (metis prod.collapse)
      with rec show "res = None" by simp
    qed
    with assms True Decoded rec show ?thesis
      by (cases res) (auto simp: HandleWebhook_def error_status_def reply_def [symmetric] split: if_splits)
  qed (use assms True in \<open>auto simp: HandleWebhook_def writeError_reply\<close>)
qed (use assms in \<open>auto simp: HandleWebhook_def writeError_reply\<close>)

text \<open>Every other answer leaves the store exactly as it was, and the only statuses there are are
  200, 400, 413, 415 and 500.\<close>

lemma webhook_refusal_leaves_store:
  assumes "HandleWebhook q decode (Receive (Save marshal) maxAlerts e) maxBody r d = (as, oc, d')"
  shows "oc = Returned \<and> status_of (response as) \<in> {Some 200, Some 400, Some 413, Some 415, Some 500}
         \<and> (status_of (response as) \<noteq> Some 200 \<longrightarrow> d' = d)"
  using relay_receiver.statuses [OF assms] relay_receiver.refused [OF assms]
    relay_receiver.handler_returns [of q decode marshal maxAlerts e maxBody r d] assms by auto

text \<open>A payload the validator rejects is answered with a 4xx status (400 or 413), never with 500:
  a 500 means that the store failed on a valid payload.\<close>

lemma webhook_500_means_store_failure:
  assumes "HandleWebhook q decode (Receive (Save marshal) maxAlerts e) maxBody r d = (as, oc, d')"
    and "status_of (response as) = Some 500"
  shows "\<exists>g err. decode maxBody (rq_body r) = Decoded g \<and> valid_payload g maxAlerts
           \<and> fst (Save marshal e g d) = Some err"
proof -
  from assms obtain g err where d: "decode maxBody (rq_body r) = Decoded g"
    and r: "Receive (Save marshal) maxAlerts e g d = (Some err, d')" and s: "error_status err = 500"
    by (auto simp: HandleWebhook_def writeError_reply reply_def [symmetric]
        split: if_splits decode_result.splits prod.splits option.splits)
  from s have "ValidatePayload g maxAlerts \<noteq> Some err"
    using ValidatePayload_class [of g maxAlerts] by (auto simp: error_status_def client_error_def split: if_splits)
  with r d show ?thesis by (auto simp: Receive_Some)
qed

text \<open>C40: Whatever an error message quotes from the payload, the client reads the error response as one JSON
  object with the message as its one member, invalid UTF-8 replaced: no payload can add members or end the
  object.\<close>

theorem error_body_well_formed:
  "read_json (c_body (response (writeError code message))) = Some (JObj [(''error'', JStr (valid_text message))])"
proof -
  have "c_body (response (writeError code message)) = json_object [(''error'', json_string message)]"
    by (simp add: writeError_reply json_string_map_def)
  moreover have "reads_as 3 (json_object [(''error'', json_string message)]) (JObj [(''error'', JStr (valid_text message))])"
    using reads_as_string [of message] by (intro reads_as_members [of 1]) (simp_all add: valid_text_ascii byte_def)
  ultimately show ?thesis by (simp add: read_json_reads json_object_length)
qed

end
