(* ===== verification/Server.thy ===== *)
theory Server imports AlertService begin

text \<open>
  Package \<open>internal/server\<close>: the three service handlers (\<open>health.go\<close>) and the routes and middlewares
  \<open>New\<close> puts together (\<open>server.go\<close>), with \<open>Start\<close>, \<open>Shutdown\<close>, \<open>Ready\<close> and \<open>Addr\<close>.  A checker is its name and
  its \<open>Check\<close>, an operation on the program state; \<open>sleep\<close> is the passing of time, and
  \<open>nomatch\<close> is what the request multiplexer of \<open>net/http\<close> answers when no pattern matches.
\<close>

section \<open>Health handlers\<close>

type_synonym 's checker = "string \<times> ('s \<Rightarrow> goerr option \<times> 's)"

definition HandleHealthz :: "('r, 's) handler" where
  "HandleHealthz r s = ([json_content, WriteHeader 200, WriteBody ok_body], Returned, s)"

fun run_checks :: "'s checker list \<Rightarrow> gomap \<Rightarrow> 's \<Rightarrow> gomap \<times> 's" where
  "run_checks [] failed s = (failed, s)"
| "run_checks ((name, check) # cs) failed s =
     (case check s of
        (Some err, s') \<Rightarrow> run_checks cs (AList.update name ''unhealthy'' failed) s'
      | (None, s') \<Rightarrow> run_checks cs failed s')"

text \<open>\<open>json.Marshal\<close> of the map with the keys \<open>checks\<close> and \<open>status\<close>, in this order.\<close>

definition unready_body :: "gomap \<Rightarrow> string" where
  "unready_body failed = json_object [(''checks'', json_string_map failed), (''status'', json_string ''error'')]"

definition HandleReadyz :: "'s checker list \<Rightarrow> ('r, 's) handler" where
  "HandleReadyz checkers r s =
     (let (failed, s') = run_checks checkers [] s
      in if 0 < length failed then ([json_content, WriteHeader 503, WriteBody (unready_body failed)], Returned, s')
         else ([json_content, WriteHeader 200, WriteBody ok_body], Returned, s'))"

definition HandlePreStop :: "(int \<Rightarrow> 's \<Rightarrow> 's) \<Rightarrow> int \<Rightarrow> ('r, 's) handler" where
  "HandlePreStop sleep delay r s =
     (let s' = sleep delay s in ([json_content, WriteHeader 200, WriteBody ok_body], Returned, s'))"

section \<open>Routing\<close>

text \<open>A pattern \<open>METHOD /path\<close>: the exact path, and \<open>GET\<close> also stands for \<open>HEAD\<close>.\<close>

type_synonym 's route = "string \<times> string \<times> (request, 's) handler"

definition route_matches :: "request \<Rightarrow> 's route \<Rightarrow> bool" where
  "route_matches r rt =
     (case rt of (m, p, h) \<Rightarrow>
        rq_path r = p \<and> (rq_method r = m \<or> m = ''GET'' \<and> rq_method r = ''HEAD''))"

definition ServeMux :: "(request, 's) handler \<Rightarrow> 's route list \<Rightarrow> (request, 's) handler" where
  "ServeMux nomatch routes r s =
     (case find (route_matches r) routes of
        Some (m, p, h) \<Rightarrow> h r s
      | None \<Rightarrow> nomatch r s)"

definition routes ::
  "(int \<Rightarrow> 's \<Rightarrow> 's) \<Rightarrow> int \<Rightarrow> (request, 's) handler option \<Rightarrow> 's checker list \<Rightarrow> 's route list" where
  "routes sleep preStopDelay alertHandler checkers =
     [(''GET'', ''/healthz'', HandleHealthz), (''GET'', ''/readyz'', HandleReadyz checkers)]
     @ (case alertHandler of None \<Rightarrow> [] | Some h \<Rightarrow> [(''POST'', ''/api/v1/alerts'', h)])
     @ (if 0 < preStopDelay then [(''GET'', ''/lifecycle/pre-stop'', HandlePreStop sleep preStopDelay)] else [])"

record server_config =
  srv_Port :: int
  srv_ShutdownTimeout :: int
  srv_PreStopDelay :: int

definition New ::
  "(int \<Rightarrow> nat \<Rightarrow> string \<Rightarrow> nat) \<Rightarrow> (request, 's) handler \<Rightarrow> (int \<Rightarrow> 's \<Rightarrow> 's) \<Rightarrow> server_config
   \<Rightarrow> (request, 's) handler option \<Rightarrow> 's checker list \<Rightarrow> (request, 's) handler" where
  "New acc nomatch sleep cfg alertHandler checkers =
     Chain [Logging acc, Recovery] (ServeMux nomatch (routes sleep (srv_PreStopDelay cfg) alertHandler checkers))"

section \<open>Life cycle\<close>

text \<open>
  \<open>sv_ready\<close> is whether the channel \<open>ready\<close> is closed; closing it a second time panics, which is the
  result \<open>None\<close>.  \<open>listen\<close> is \<open>Listen\<close> of the library as a function of the address, giving the address it
  listens on; \<open>serve\<close> and \<open>shutdown\<close> are the results of \<open>http.Server\<close>'s methods of these names.
\<close>

datatype serve_result = ServerClosedErr | ServeNil | ServeErr goerr

record server =
  sv_cfg :: server_config
  sv_listener :: "string option"
  sv_ready :: bool

definition new_server :: "server_config \<Rightarrow> server" where
  "new_server cfg = \<lparr>sv_cfg = cfg, sv_listener = None, sv_ready = False\<rparr>"

definition close_ready :: "server \<Rightarrow> server option" where
  "close_ready sv = (if sv_ready sv then None else Some (sv\<lparr>sv_ready := True\<rparr>))"

definition Start :: "(string \<Rightarrow> goerr + string) \<Rightarrow> serve_result \<Rightarrow> server \<Rightarrow> (goerr option \<times> server) option" where
  "Start listen serve sv =
     (let addr = '':'' @ itoa (srv_Port (sv_cfg sv))
      in case listen addr of
           Inl err \<Rightarrow> map_option (Pair (Some err)) (close_ready sv)
         | Inr ln \<Rightarrow>
             map_option (Pair (case serve of ServerClosedErr \<Rightarrow> None | ServeNil \<Rightarrow> None | ServeErr err \<Rightarrow> Some err))
               (close_ready (sv\<lparr>sv_listener := Some ln\<rparr>)))"

definition Shutdown :: "goerr option \<Rightarrow> server \<Rightarrow> goerr option \<times> server" where
  "Shutdown shutdown sv = (case shutdown of Some err \<Rightarrow> (Some err, sv) | None \<Rightarrow> (None, sv))"

definition Ready :: "server \<Rightarrow> bool" where
  "Ready sv = sv_ready sv"

definition Addr :: "server \<Rightarrow> string" where
  "Addr sv = (case sv_listener sv of None \<Rightarrow> [] | Some addr \<Rightarrow> addr)"

section \<open>The interface of a checker\<close>

text \<open>
  \<open>Checker\<close> of \<open>health.go\<close>: \<open>healthy s\<close> is the condition the component promises to report, and no check
  may break the invariant of the state it inspects.
\<close>

locale checker =
  fixes check :: "'s \<Rightarrow> goerr option \<times> 's"
    and healthy :: "'s \<Rightarrow> bool"
    and inv :: "'s \<Rightarrow> bool"
  assumes check_iff: "fst (check s) = None \<longleftrightarrow> healthy s"
    and check_inv: "inv s \<Longrightarrow> inv (snd (check s))"
begin

lemma run_checks_step:
  "run_checks ((name, check) # cs) failed s =
     run_checks cs (if healthy s then failed else AList.update name ''unhealthy'' failed) (snd (check s))"
  using check_iff [of s] by (auto split: prod.splits option.splits)

lemma readyz_only:
  "HandleReadyz [(name, check)] r s =
     ((if healthy s then reply 200 ok_body else reply 503 (unready_body [(name, ''unhealthy'')])),
      Returned, snd (check s))"
  by (simp add: HandleReadyz_def run_checks_step reply_def del: run_checks.simps(2))

lemma readyz_inv: "inv s \<Longrightarrow> HandleReadyz [(name, check)] r s = (as, oc, s') \<Longrightarrow> inv s'"
  using check_inv by (auto simp: readyz_only)

end

definition store_healthy :: "env \<Rightarrow> 'p db \<Rightarrow> bool" where
  "store_healthy e d \<longleftrightarrow>
     e_fail e UpdateHealth = None \<and> e_fail e RowsAffected = None
     \<and> length (filter (\<lambda>(i, t). i = 1) (health_check d)) = 1"

lemma store_Check_frame [simp]:
  "alert_groups (snd (store_Check e d)) = alert_groups d" "alerts_table (snd (store_Check e d)) = alerts_table d"
  by (auto simp: store_Check_def Let_def split: option.splits)

lemma store_Check_keeps [simp]:
  "db_wf unmarshal (snd (store_Check e d)) = db_wf unmarshal d"
  "pending_map unmarshal (snd (store_Check e d)) = pending_map unmarshal d"
  by (simp_all add: db_wf_def fun_eq_iff pending_map_def)

interpretation store_checker: checker "store_Check e" "store_healthy e"
  "\<lambda>d. db_wf unmarshal d \<and> pending_map unmarshal d = m"
  for e and unmarshal :: "'p \<Rightarrow> alert_group option" and m
proof unfold_locales
  show "fst (store_Check e d) = None \<longleftrightarrow> store_healthy e d" for d :: "'p db"
    by (auto simp: store_Check_def store_healthy_def Let_def split: option.splits)
qed simp

section \<open>Readiness\<close>

text \<open>What each checker says when all are asked in turn, and the state they leave.\<close>

fun ask :: "'s checker list \<Rightarrow> 's \<Rightarrow> (string \<times> bool) list \<times> 's" where
  "ask [] s = ([], s)"
| "ask ((name, check) # cs) s =
     (let (res, s1) = check s; (as, s2) = ask cs s1 in ((name, res = None) # as, s2))"

definition failed_names :: "(string \<times> bool) list \<Rightarrow> string set" where
  "failed_names as = {n. (n, False) \<in> set as}"

lemma run_checks_ask:
  "ask cs s = (as, s2) \<Longrightarrow> run_checks cs failed s = (failed', s') \<Longrightarrow>
     s' = s2 \<and> fst ` set failed' = fst ` set failed \<union> failed_names as
     \<and> (wf_map failed \<longrightarrow> wf_map failed')
     \<and> (snd ` set failed \<subseteq> {''unhealthy''} \<longrightarrow> snd ` set failed' \<subseteq> {''unhealthy''})"
proof (induction cs arbitrary: s failed as)
  case Nil
  then show ?case by (simp add: failed_names_def)
next
  case (Cons c cs)
  obtain name check where c: "c = (name, check)" by (cases c)
  obtain res s1 where chk: "check s = (res, s1)" by (cases "check s")
  from Cons.prems(1) c chk obtain as1 where rest: "ask cs s1 = (as1, s2)" and as: "as = (name, res = None) # as1"
    by (auto split: prod.splits)
  show ?case
  proof (cases res)
    case None
    with Cons.prems(2) c chk have "run_checks cs failed s1 = (failed', s')" by simp
    from Cons.IH [OF rest this] None show ?thesis by (simp add: as failed_names_def)
  next
    case (Some err)
    with Cons.prems(2) c chk have r: "run_checks cs (AList.update name ''unhealthy'' failed) s1 = (failed', s')" by simp
    have vals: "snd ` set (AList.update name ''unhealthy'' failed) \<subseteq> {''unhealthy''}"
      if "snd ` set failed \<subseteq> {''unhealthy''}"
      using that by (induction failed) (auto split: if_splits)
    have names: "fst ` set (AList.update name ''unhealthy'' failed) = insert name (fst ` set failed)"
      using dom_update [of name "''unhealthy''" failed] by simp
    from Cons.IH [OF rest r] Some vals show ?thesis
      by (auto simp: as failed_names_def names wf_map_def distinct_update)
  qed
qed

text \<open>The readiness probe asks every checker once, in order, also after one has failed.  It answers
  200 exactly when all of them pass; otherwise it answers 503 and its body names exactly the checkers
  that failed, each once, and nothing of their error texts.\<close>

lemma readyz_reports:
  assumes "ask checkers s = (as, s2)" "HandleReadyz checkers r s = (acts, oc, s')"
  shows "oc = Returned \<and> s' = s2
         \<and> status_of (response acts) = Some (if failed_names as = {} then 200 else 503)
         \<and> (failed_names as = {} \<longrightarrow> c_body (response acts) = ok_body)
         \<and> (failed_names as \<noteq> {} \<longrightarrow>
              (\<exists>failed. c_body (response acts) = unready_body failed \<and> wf_map failed
                  \<and> fst ` set failed = failed_names as \<and> snd ` set failed \<subseteq> {''unhealthy''}))"
proof -
  obtain failed s1 where run: "run_checks checkers [] s = (failed, s1)" by (meson surj_pair)
  from run_checks_ask [OF assms(1) run]
  have f: "s1 = s2" "fst ` set failed = failed_names as" "wf_map failed" "snd ` set failed \<subseteq> {''unhealthy''}"
    by (simp_all add: wf_map_def)
  then have empty: "failed = [] \<longleftrightarrow> failed_names as = {}" by auto
  have acts: "acts = (if failed = [] then reply 200 ok_body else reply 503 (unready_body failed))"
    "oc = Returned" "s' = s1"
    using assms(2) run by (auto simp: HandleReadyz_def reply_def split: if_splits)
  then show ?thesis using f empty by auto
qed

section \<open>The assembled server\<close>

lemma Logging_Recovery_reply:
  assumes "h r s = (reply code b, Returned, s')"
  shows "Chain [Logging acc, Recovery] h r s = (reply code b @ [LogRequest code (acc code 0 b)], Returned, s')"
  by (simp add: Chain_foldr Recovery_def Logging_def assms reply_def json_content_def new_rw_def rw_WriteHeader_def
      rw_Write_def flushHeader_def Let_def)

lemma response_log [simp]: "response (as @ [LogRequest st n]) = response as"
  by (simp add: response_def)

lemma route_alerts:
  assumes "rq_method r = ''POST''" "rq_path r = ''/api/v1/alerts''"
  shows "ServeMux nomatch (routes sleep delay (Some h) checkers) r = h r"
  by (rule ext) (simp add: ServeMux_def routes_def route_matches_def assms)

lemma route_readyz:
  assumes "rq_method r = ''GET''" "rq_path r = ''/readyz''"
  shows "ServeMux nomatch (routes sleep delay ah checkers) r = HandleReadyz checkers r"
  by (rule ext) (simp add: ServeMux_def routes_def route_matches_def assms)

lemma HandleWebhook_is_reply:
  "\<exists>code b s'. HandleWebhook q decode receive m r s = (reply code b, Returned, s')"
  unfolding HandleWebhook_def
  by (auto simp: writeError_reply reply_def [symmetric] receive_error_def split: decode_result.split prod.split option.split)

lemma server_webhook:
  assumes "New acc nomatch sleep cfg (Some (HandleWebhook q decode receive m)) checkers r s = (as, oc, s')"
    and "rq_method r = ''POST''" "rq_path r = ''/api/v1/alerts''"
  obtains as' where "HandleWebhook q decode receive m r s = (as', Returned, s')" "oc = Returned" "response as = response as'"
proof -
  obtain code b s2 where h: "HandleWebhook q decode receive m r s = (reply code b, Returned, s2)"
    using HandleWebhook_is_reply [of q decode receive m r s] by auto
  then have m: "ServeMux nomatch (routes sleep (srv_PreStopDelay cfg) (Some (HandleWebhook q decode receive m)) checkers) r s
      = (reply code b, Returned, s2)" by (simp add: route_alerts assms(2,3))
  from assms(1) Logging_Recovery_reply [where h = "ServeMux _ _", OF m] have "s' = s2" "oc = Returned" "as = reply code b @ [LogRequest code (acc code 0 b)]"
    by (simp_all add: New_def)
  with h that show ?thesis by simp
qed

text \<open>C7: Through the whole server - multiplexer, recovery and logging included - a webhook request always
  gets an answer.  It is 200 exactly when the media type is JSON, the body was decoded to a valid group and \<open>Save\<close> for that
  group returned without an error; after a 200 that group is pending in the store as received, and nothing else about
  what is pending has changed.  With any other status the store is as it was.\<close>

theorem server_webhook_end_to_end:
  assumes "New acc nomatch sleep cfg (Some (HandleWebhook q decode (Receive (Save marshal) maxAlerts e) maxBody))
             checkers r d = (as, oc, d')"
    and "rq_method r = ''POST''" "rq_path r = ''/api/v1/alerts''"
    and "db_wf unmarshal d" "\<And>g. decode maxBody (rq_body r) = Decoded g \<Longrightarrow> storable marshal unmarshal g"
  shows "oc = Returned \<and> db_wf unmarshal d'
         \<and> (status_of (response as) = Some 200 \<longleftrightarrow>
              prefix ''application/json'' (rq_content_type r)
              \<and> (\<exists>g. decode maxBody (rq_body r) = Decoded g \<and> valid_payload g maxAlerts \<and> fst (Save marshal e g d) = None))
         \<and> (if status_of (response as) = Some 200
            then \<exists>g. decode maxBody (rq_body r) = Decoded g \<and> valid_payload g maxAlerts
                     \<and> pending_map unmarshal d' = (pending_map unmarshal d)(gGroupKey g \<mapsto> g)
            else d' = d)"
proof -
  obtain as' where h: "HandleWebhook q decode (Receive (Save marshal) maxAlerts e) maxBody r d = (as', Returned, d')"
    and oc: "oc = Returned" and resp: "response as = response as'"
    by (rule server_webhook [OF assms(1-3)])
  have "db_wf unmarshal d'
         \<and> (if status_of (response as) = Some 200
            then \<exists>g. decode maxBody (rq_body r) = Decoded g \<and> valid_payload g maxAlerts
                     \<and> pending_map unmarshal d' = (pending_map unmarshal d)(gGroupKey g \<mapsto> g)
            else d' = d)"
  proof (cases "status_of (response as') = Some 200")
    case True
    from relay_receiver.acknowledged [OF h True, where unmarshal = unmarshal] assms(4,5) True oc resp
    show ?thesis by (auto simp: sqlite_took_def)
  next
    case False
    with relay_receiver.refused [OF h] assms(4) oc resp show ?thesis by simp
  qed
  with oc webhook_ack_iff [OF h] resp show ?thesis by simp
qed

definition demo_nomatch :: "(request, 's) handler" where
  "demo_nomatch r s = (reply 404 ''404 page not found'', Returned, s)"

definition demo_server_config :: server_config where
  "demo_server_config = \<lparr>srv_Port = 8080, srv_ShutdownTimeout = 15000000000, srv_PreStopDelay = 0\<rparr>"

theorem server_webhook_end_to_end_witness:
  "Returned = Returned \<and> db_wf Some (snd (Save Some fixed_env sample_group (migrated 0)))
   \<and> (status_of (response (reply 200 ok_body @ [LogRequest 200 15])) = Some 200 \<longleftrightarrow>
        prefix ''application/json'' (rq_content_type demo_request)
        \<and> (\<exists>g. Decoded sample_group = Decoded g \<and> valid_payload g 5 \<and> fst (Save Some fixed_env g (migrated 0)) = None))
   \<and> (if status_of (response (reply 200 ok_body @ [LogRequest 200 15])) = Some 200
      then \<exists>g. Decoded sample_group = Decoded g \<and> valid_payload g 5
               \<and> pending_map Some (snd (Save Some fixed_env sample_group (migrated 0)))
                 = (pending_map Some (migrated 0))(gGroupKey g \<mapsto> g)
      else snd (Save Some fixed_env sample_group (migrated 0)) = migrated 0)"
proof (rule server_webhook_end_to_end [where r = demo_request and decode = "\<lambda>_ _. Decoded sample_group" and acc = net_write
      and nomatch = demo_nomatch and sleep = "\<lambda>_ s. s" and cfg = demo_server_config and q = "\<lambda>s. s" and maxBody = 1024 and checkers = "[]"])
  have "ServeMux demo_nomatch (routes (\<lambda>_ s. s) (srv_PreStopDelay demo_server_config) (Some (HandleWebhook (\<lambda>s. s) (\<lambda>_ _. Decoded sample_group)
      (Receive (Save Some) 5 fixed_env) 1024)) []) demo_request (migrated 0)
    = (reply 200 ok_body, Returned, snd (Save Some fixed_env sample_group (migrated 0)))"
    using handle_sample [of "\<lambda>s. s"] by (simp add: route_alerts demo_request_def)
  from Logging_Recovery_reply [where h = "ServeMux _ _", OF this]
  show "New net_write demo_nomatch (\<lambda>_ s. s) demo_server_config (Some (HandleWebhook (\<lambda>s. s) (\<lambda>_ _. Decoded sample_group)
      (Receive (Save Some) 5 fixed_env) 1024)) [] demo_request (migrated 0)
    = (reply 200 ok_body @ [LogRequest 200 15], Returned, snd (Save Some fixed_env sample_group (migrated 0)))"
    by (simp add: New_def ok_body_def net_write_def final_status_def informational_def bodyless_def)
qed (simp_all add: demo_request_def migrated_wf storable_def)

text \<open>
  A new server that starts does not panic, and whoever waits for \<open>Ready\<close> is woken in both outcomes of \<open>Listen\<close>:
  \<open>Addr\<close> is empty exactly when it failed, as \<open>Ready\<close> documents.  The port of the configuration is the one listened on.
\<close>

lemma Start_signals:
  assumes "\<And>addr. listen addr \<noteq> Inr []"
  shows "\<exists>r sv. Start listen serve (new_server cfg) = Some (r, sv) \<and> Ready sv \<and> \<not> Ready (new_server cfg)
    \<and> (Addr sv = [] \<longleftrightarrow> (\<exists>err. listen ('':'' @ itoa (srv_Port cfg)) = Inl err \<and> r = Some err))"
  using assms [of "'':'' @ itoa (srv_Port cfg)"]
  by (auto simp: Start_def new_server_def close_ready_def Ready_def Addr_def Let_def split: sum.splits)

lemma Start_twice_panics: "Ready sv \<Longrightarrow> Start listen serve sv = None"
  by (simp add: Start_def close_ready_def Ready_def Let_def split: sum.split)

end
