(* ===== verification/Dispatcher.thy ===== *)
theory Dispatcher imports NotifyQueue GoTime Server begin

text \<open>
  Package \<open>internal/notify\<close>: notifications, the workers and the dispatcher.  The goroutines that
  \<open>Dispatcher.Run\<close> starts are interleaved steps on one state: the dispatcher's own position in
  \<open>Run\<close>, \<open>poll\<close>, \<open>fanOutAndCollect\<close> and \<open>shutdown\<close>, one worker per channel, the queues between
  them, the result channel and the store.  Each step is a function that gives the list of the states
  it can lead to; the empty list says that the goroutine is blocked.
\<close>

section \<open>Notifications and results\<close>

record notification =
  nGroupKey :: string
  nStatus :: string
  nReceiver :: string
  nAlerts :: "alert list"
  nGroupLabels :: gomap
  nCommonLabels :: gomap
  nCommonAnnotations :: gomap
  nExternalURL :: string
  nAlertsCount :: int
  nTruncatedAlerts :: int
  nCreatedAt :: gotime

definition NewNotification :: "gotime \<Rightarrow> alert_group \<Rightarrow> notification" where
  "NewNotification now g =
     \<lparr>nGroupKey = gGroupKey g, nStatus = gStatus g, nReceiver = gReceiver g, nAlerts = gAlerts g,
      nGroupLabels = gGroupLabels g, nCommonLabels = gCommonLabels g,
      nCommonAnnotations = gCommonAnnotations g, nExternalURL = gExternalURL g,
      nAlertsCount = int (length (gAlerts g)), nTruncatedAlerts = gTruncatedAlerts g, nCreatedAt = now\<rparr>"

record send_result =
  sr_GroupKey :: string
  sr_Channel :: string
  sr_Err :: "goerr option"

section \<open>The state\<close>

record dispatcher_config =
  dc_PollInterval :: int
  dc_BatchSize :: int
  dc_QueueSize :: int
  dc_SendTimeout :: int

text \<open>
  Where a worker is: not started, before the non-blocking read of \<open>Dequeue\<close>, in its blocking wait,
  in \<open>Send\<close>, about to put the result on the result channel, returned.
\<close>

datatype wstate = WNew | WTry | WWait | WSend notification | WPut send_result | WDone

text \<open>
  Where the dispatcher is.  \<open>Dispatch gs\<close>: in \<open>poll\<close>, with the groups \<open>gs\<close> of the batch still to do;
  \<open>Fanout n todo k gs\<close>: enqueueing \<open>n\<close>, with the channels \<open>todo\<close> still to do and \<open>enqueued = k\<close>;
  \<open>Collecting n k ok gs\<close>: \<open>k\<close> results still to receive, \<open>allOK = ok\<close>; \<open>Closing js\<close>: in \<open>shutdown\<close>,
  with the queues \<open>js\<close> still to close; \<open>Waiting\<close>: at \<open>workerWg.Wait()\<close> or, once the result channel is
  closed, in the loop that drains it; \<open>Crashed\<close>: a panic.
\<close>

datatype dpc =
    NotStarted
  | Idle
  | Dispatch "alert_group list"
  | Fanout notification "nat list" nat "alert_group list"
  | Collecting notification nat bool "alert_group list"
  | Marking notification "alert_group list"
  | Closing "nat list"
  | Waiting
  | Stopped
  | Crashed

text \<open>
  Channels are numbered by their place in \<open>d.channels\<close>; \<open>d_queue i\<close> is the queue that \<open>Run\<close> made for
  channel \<open>i\<close> and gave to worker \<open>i\<close>.  The last two fields are history for the specifications, which
  no step reads: the channels that took the current notification, and the sends made for it.
\<close>

record 's dstate =
  d_pc :: dpc
  d_running :: bool
  d_cancelled :: bool
  d_queue :: "nat \<Rightarrow> notification queue"
  d_worker :: "nat \<Rightarrow> wstate"
  d_results :: "send_result list"
  d_resClosed :: bool
  d_store :: 's
  g_enq :: "nat list"
  g_sent :: "(nat \<times> notification \<times> goerr option) list"

definition no_queue :: "notification queue" where
  "no_queue = \<lparr>q_name = [], q_ch = [], q_cap = 0, q_done = False, q_closed = False\<rparr>"

definition NewDispatcher :: "'s \<Rightarrow> 's dstate" where
  "NewDispatcher st =
     \<lparr>d_pc = NotStarted, d_running = False, d_cancelled = False, d_queue = (\<lambda>_. no_queue), d_worker = (\<lambda>_. WNew),
      d_results = [], d_resClosed = False, d_store = st, g_enq = [], g_sent = []\<rparr>"

definition dispatcher_Name :: string where
  "dispatcher_Name = ''dispatcher''"

definition dispatcher_Check :: "'s dstate \<Rightarrow> goerr option \<times> 's dstate" where
  "dispatcher_Check s = (if \<not> d_running s then (Some (Opaque [Lit ''dispatcher is not running'']), s) else (None, s))"

text \<open>The map \<open>queues\<close> has one entry for a name: the queue of the last channel of that name.\<close>

definition queue_index :: "string list \<Rightarrow> string \<Rightarrow> nat" where
  "queue_index names nm = the (map_of (rev (zip names [0..<length names])) nm)"

section \<open>The worker\<close>

definition result_cap :: "string list \<Rightarrow> dispatcher_config \<Rightarrow> int" where
  "result_cap names cfg = int (length names) * dc_BatchSize cfg + 1"

text \<open>
  One step of \<open>Worker.Run\<close> of channel \<open>i\<close>.  A call of the channel's \<open>Send\<close> takes as long as it takes: \<open>ret\<close> is what
  it has returned by now, and \<open>None\<close> if it has not, in which case the worker is blocked.  Nothing makes it
  return: the timeout of \<open>sendCtx\<close> is only an argument of \<open>Send\<close>.
\<close>

fun worker_step :: "string list \<Rightarrow> dispatcher_config \<Rightarrow> nat \<Rightarrow> goerr option option \<Rightarrow> 's dstate \<Rightarrow> 's dstate list" where
  "worker_step names cfg i ret s =
     (case d_worker s i of
        WNew \<Rightarrow> []
      | WTry \<Rightarrow>
          (case Dequeue_try (d_queue s i) of
             None \<Rightarrow> [s\<lparr>d_worker := (d_worker s)(i := WWait)\<rparr>]
           | Some (Inl err, q) \<Rightarrow> [s\<lparr>d_queue := (d_queue s)(i := q), d_worker := (d_worker s)(i := WDone)\<rparr>]
           | Some (Inr n, q) \<Rightarrow> [s\<lparr>d_queue := (d_queue s)(i := q), d_worker := (d_worker s)(i := WSend n)\<rparr>])
      | WWait \<Rightarrow>
          map (\<lambda>(r, q). s\<lparr>d_queue := (d_queue s)(i := q),
                            d_worker := (d_worker s)(i := (case r of Inl err \<Rightarrow> WDone | Inr n \<Rightarrow> WSend n))\<rparr>)
            (Dequeue_wait None (d_queue s i))
      | WSend n \<Rightarrow>
          (case ret of
             None \<Rightarrow> []
           | Some sendErr \<Rightarrow>
               [s\<lparr>d_worker := (d_worker s)(i := WPut \<lparr>sr_GroupKey = nGroupKey n, sr_Channel = names ! i, sr_Err = sendErr\<rparr>),
                  g_sent := g_sent s @ [(i, n, sendErr)]\<rparr>])
      | WPut r \<Rightarrow>
          (if d_resClosed s then [s\<lparr>d_pc := Crashed\<rparr>]
           else if int (length (d_results s)) < result_cap names cfg
           then [s\<lparr>d_results := d_results s @ [r], d_worker := (d_worker s)(i := WTry)\<rparr>]
           else [])
      | WDone \<Rightarrow> [])"

declare worker_step.simps [simp del]

section \<open>The dispatcher\<close>

text \<open>\<open>Run\<close> up to its loop: a negative channel or queue size or poll interval panics.\<close>

definition Run_start :: "string list \<Rightarrow> dispatcher_config \<Rightarrow> 's dstate \<Rightarrow> 's dstate" where
  "Run_start names cfg s =
     (if result_cap names cfg < 0 \<or> (names \<noteq> [] \<and> dc_QueueSize cfg < 0) \<or> dc_PollInterval cfg \<le> 0
      then s\<lparr>d_pc := Crashed\<rparr>
      else s\<lparr>d_pc := Idle, d_running := True,
             d_queue := (\<lambda>i. if i < length names then the (NewQueue (names ! i) (dc_QueueSize cfg)) else no_queue),
             d_worker := (\<lambda>i. if i < length names then WTry else WNew)\<rparr>)"

text \<open>\<open>poll\<close>, given what \<open>GetPending\<close> returned.\<close>

definition poll_step :: "string list \<Rightarrow> goerr + alert_group list \<Rightarrow> 's dstate \<Rightarrow> 's dstate" where
  "poll_step names got s =
     (case got of
        Inl err \<Rightarrow> s
      | Inr groups \<Rightarrow> if groups = [] then s else if names = [] then s else s\<lparr>d_pc := Dispatch groups\<rparr>)"

text \<open>The loop over the groups of a batch.\<close>

fun dispatch_step :: "string list \<Rightarrow> gotime \<Rightarrow> 's dstate \<Rightarrow> 's dstate list" where
  "dispatch_step names now s =
     (case d_pc s of
        Dispatch [] \<Rightarrow> [s\<lparr>d_pc := Idle\<rparr>]
      | Dispatch (g # gs) \<Rightarrow>
          [s\<lparr>d_pc := Fanout (NewNotification now g) [0..<length names] 0 gs, g_enq := [], g_sent := []\<rparr>]
      | _ \<Rightarrow> [])"

text \<open>The enqueueing loop of \<open>fanOutAndCollect\<close>; \<open>ctx\<close> is the state of \<open>sendCtx\<close> when \<open>Enqueue\<close> looks at it.\<close>

fun fanout_step :: "string list \<Rightarrow> goerr option \<Rightarrow> 's dstate \<Rightarrow> 's dstate list" where
  "fanout_step names ctx s =
     (case d_pc s of
        Fanout n (i # todo) k gs \<Rightarrow>
          (let j = queue_index names (names ! i)
           in map (\<lambda>(err, q).
                case err of
                  Some e \<Rightarrow> s\<lparr>d_pc := Fanout n todo k gs\<rparr>
                | None \<Rightarrow> s\<lparr>d_pc := Fanout n todo (Suc k) gs, d_queue := (d_queue s)(j := q), g_enq := g_enq s @ [i]\<rparr>)
                (Enqueue ctx n (d_queue s j)))
      | Fanout n [] k gs \<Rightarrow> [s\<lparr>d_pc := (if k = 0 then Dispatch gs else Collecting n k True gs)\<rparr>]
      | _ \<Rightarrow> [])"

text \<open>The collecting loop: \<open>r := <-resultCh\<close> waits while the channel is empty.\<close>

fun collect_step :: "'s dstate \<Rightarrow> 's dstate list" where
  "collect_step s =
     (case d_pc s of
        Collecting n (Suc k) allOK gs \<Rightarrow>
          (case d_results s of
             [] \<Rightarrow> []
           | r # rs \<Rightarrow>
               [s\<lparr>d_results := rs, d_pc := Collecting n k (if sr_Err r \<noteq> None then False else allOK) gs\<rparr>])
      | Collecting n 0 allOK gs \<Rightarrow> [s\<lparr>d_pc := (if \<not> allOK then Dispatch gs else Marking n gs)\<rparr>]
      | _ \<Rightarrow> [])"

text \<open>The error of \<open>MarkSent\<close> is only logged.\<close>

fun mark_step :: "(string \<Rightarrow> 's \<Rightarrow> goerr option \<times> 's) \<Rightarrow> 's dstate \<Rightarrow> 's dstate list" where
  "mark_step mark s =
     (case d_pc s of
        Marking n gs \<Rightarrow> [s\<lparr>d_pc := Dispatch gs, d_store := snd (mark (nGroupKey n) (d_store s))\<rparr>]
      | _ \<Rightarrow> [])"

text \<open>\<open>shutdown\<close>: \<open>js\<close> is an order in which the loop over the map of queues may visit them.  When the workers have
  returned it closes the result channel, throws away what is still in it, one result at a time, and \<open>Run\<close> returns.\<close>

fun shutdown_step :: "string list \<Rightarrow> nat list \<Rightarrow> 's dstate \<Rightarrow> 's dstate list" where
  "shutdown_step names js s =
     (case d_pc s of
        Idle \<Rightarrow> (if d_cancelled s \<and> mset js = mset (map (queue_index names) (remdups names))
                 then [s\<lparr>d_pc := Closing js\<rparr>] else [])
      | Closing (j # js') \<Rightarrow> [s\<lparr>d_pc := Closing js', d_queue := (d_queue s)(j := Close (d_queue s j))\<rparr>]
      | Closing [] \<Rightarrow> [s\<lparr>d_pc := Waiting\<rparr>]
      | Waiting \<Rightarrow>
          (if \<not> d_resClosed s
           then (if \<forall>i<length names. d_worker s i = WDone then [s\<lparr>d_resClosed := True\<rparr>] else [])
           else (case d_results s of
                   r # rs \<Rightarrow> [s\<lparr>d_results := rs\<rparr>]
                 | [] \<Rightarrow> [s\<lparr>d_pc := Stopped, d_running := False\<rparr>]))
      | _ \<Rightarrow> [])"

declare dispatch_step.simps [simp del] fanout_step.simps [simp del] collect_step.simps [simp del]
  mark_step.simps [simp del] shutdown_step.simps [simp del]

section \<open>The system\<close>

text \<open>
  All interleavings: the dispatcher's steps, the workers', the cancellation of the dispatcher's context,
  and webhook requests that save groups (those with \<open>arrives\<close>) while the dispatcher runs.  Once the context is cancelled, so
  is every \<open>sendCtx\<close> derived from it; before that, a \<open>sendCtx\<close> may reach its deadline at any time.
\<close>

inductive dstep ::
  "string list \<Rightarrow> dispatcher_config \<Rightarrow> ('e \<Rightarrow> int \<Rightarrow> 's \<Rightarrow> goerr + alert_group list)
   \<Rightarrow> ('e \<Rightarrow> string \<Rightarrow> 's \<Rightarrow> goerr option \<times> 's) \<Rightarrow> ('e \<Rightarrow> alert_group \<Rightarrow> 's \<Rightarrow> goerr option \<times> 's) \<Rightarrow> (alert_group \<Rightarrow> bool)
   \<Rightarrow> 's dstate \<Rightarrow> 's dstate \<Rightarrow> bool"
  for names cfg get_pending mark_sent save arrives where
  run: "d_pc s = NotStarted \<Longrightarrow> dstep names cfg get_pending mark_sent save arrives s (Run_start names cfg s)"
| poll: "d_pc s = Idle \<Longrightarrow>
     dstep names cfg get_pending mark_sent save arrives s (poll_step names (get_pending e (dc_BatchSize cfg) (d_store s)) s)"
| dispatch: "s' \<in> set (dispatch_step names now s) \<Longrightarrow> dstep names cfg get_pending mark_sent save arrives s s'"
| fanout: "(d_cancelled s \<longrightarrow> ctx \<noteq> None) \<Longrightarrow> s' \<in> set (fanout_step names ctx s) \<Longrightarrow>
     dstep names cfg get_pending mark_sent save arrives s s'"
| collect: "s' \<in> set (collect_step s) \<Longrightarrow> dstep names cfg get_pending mark_sent save arrives s s'"
| mark: "s' \<in> set (mark_step (mark_sent e) s) \<Longrightarrow> dstep names cfg get_pending mark_sent save arrives s s'"
| shutdown: "s' \<in> set (shutdown_step names js s) \<Longrightarrow> dstep names cfg get_pending mark_sent save arrives s s'"
| worker: "i < length names \<Longrightarrow> s' \<in> set (worker_step names cfg i ret s) \<Longrightarrow>
     dstep names cfg get_pending mark_sent save arrives s s'"
| cancel: "dstep names cfg get_pending mark_sent save arrives s (s\<lparr>d_cancelled := True\<rparr>)"
| webhook: "arrives g \<Longrightarrow> dstep names cfg get_pending mark_sent save arrives s (s\<lparr>d_store := snd (save e g (d_store s))\<rparr>)"

inductive dreach ::
  "string list \<Rightarrow> dispatcher_config \<Rightarrow> ('e \<Rightarrow> int \<Rightarrow> 's \<Rightarrow> goerr + alert_group list)
   \<Rightarrow> ('e \<Rightarrow> string \<Rightarrow> 's \<Rightarrow> goerr option \<times> 's) \<Rightarrow> ('e \<Rightarrow> alert_group \<Rightarrow> 's \<Rightarrow> goerr option \<times> 's) \<Rightarrow> (alert_group \<Rightarrow> bool)
   \<Rightarrow> 's \<Rightarrow> 's dstate \<Rightarrow> bool"
  for names cfg get_pending mark_sent save arrives st0 where
  init: "dreach names cfg get_pending mark_sent save arrives st0 (NewDispatcher st0)"
| step: "dreach names cfg get_pending mark_sent save arrives st0 s \<Longrightarrow> dstep names cfg get_pending mark_sent save arrives s s'
     \<Longrightarrow> dreach names cfg get_pending mark_sent save arrives st0 s'"

section \<open>The readiness checker\<close>

interpretation dispatcher_checker: checker dispatcher_Check d_running "\<lambda>s. s = s0" for s0
  by unfold_locales (simp_all add: dispatcher_Check_def)

end
