(* ===== verification/ChannelInterface.thy ===== *)
theory ChannelInterface imports Dispatcher begin

text \<open>
  \<open>Channel\<close> of \<open>internal/notify/channel.go\<close> as its client, the worker, sees it.  The state \<open>'w\<close> is
  the world behind the channel (the chat service, the mail server); \<open>delivered n w w'\<close> is what the
  channel promises when it reports no error: between \<open>w\<close> and \<open>w'\<close> the other side accepted \<open>n\<close>.
\<close>

text \<open>
  A worker's loop over the notifications its queue gives out until it is closed: each is sent once, in
  order, and answered with one result.
\<close>

fun worker_run ::
  "string \<Rightarrow> (notification \<Rightarrow> 'w \<Rightarrow> goerr option \<times> 'w) \<Rightarrow> notification list \<Rightarrow> 'w \<Rightarrow> send_result list \<times> 'w" where
  "worker_run name send [] w = ([], w)"
| "worker_run name send (n # ns) w =
     (let (sendErr, w1) = send n w; (rs, w2) = worker_run name send ns w1
      in (\<lparr>sr_GroupKey = nGroupKey n, sr_Channel = name, sr_Err = sendErr\<rparr> # rs, w2))"

locale channel =
  fixes name :: string
    and send :: "notification \<Rightarrow> 'w \<Rightarrow> goerr option \<times> 'w"
    and delivered :: "notification \<Rightarrow> 'w \<Rightarrow> 'w \<Rightarrow> bool"
  assumes send_ok: "send n w = (None, w') \<Longrightarrow> delivered n w w'"
begin

lemma worker_run_results:
  "worker_run name send ns w = (rs, w') \<Longrightarrow>
     map sr_GroupKey rs = map nGroupKey ns \<and> list_all (\<lambda>r. sr_Channel r = name) rs"
  by (induction ns arbitrary: w rs) (auto simp: Let_def split: prod.splits)

lemma worker_run_delivers:
  "worker_run name send ns w = (rs, w') \<Longrightarrow> i < length ns \<Longrightarrow> sr_Err (rs ! i) = None \<Longrightarrow>
     \<exists>w1 w2. delivered (ns ! i) w1 w2"
proof (induction ns arbitrary: w rs i)
  case (Cons n ns)
  obtain e w1 where s: "send n w = (e, w1)" by (meson surj_pair)
  obtain rs' w2 where r: "worker_run name send ns w1 = (rs', w2)" by (meson surj_pair)
  from Cons.prems(1) s r have rs: "rs = \<lparr>sr_GroupKey = nGroupKey n, sr_Channel = name, sr_Err = e\<rparr> # rs'" "w' = w2"
    by simp_all
  show ?case
  proof (cases i)
    case 0
    with rs(1) Cons.prems(3) have "e = None" by simp
    with send_ok [of n w w1] s 0 show ?thesis by auto
  next
    case (Suc j)
    with Cons.IH [of w1 rs' j] r rs Cons.prems(2,3) show ?thesis by simp
  qed
qed simp

end

end
