(* ===== verification/Pachca.thy ===== *)
theory Pachca imports ChannelInterface JsonReader GoStrings begin

text \<open>
  Package \<open>internal/channel/pachca\<close>: the Markdown message (\<open>formatter.go\<close>), the API client
  (\<open>client.go\<close>) and the channel (\<open>channel.go\<close>).  A builder that functions append to is the string they
  return; a map is its entries in the order a loop visits them.
\<close>

section \<open>The message\<close>

definition check_mark :: string where "check_mark = [CHR 0xE2, CHR 0x9C, CHR 0x85]"
definition fire :: string where "fire = [CHR 0xF0, CHR 0x9F, CHR 0x94, CHR 0xA5]"
definition diamond :: string where "diamond = [CHR 0xF0, CHR 0x9F, CHR 0x94, CHR 0xB9]"
definition em_dash :: string where "em_dash = [CHR 0xE2, CHR 0x80, CHR 0x94]"
definition warning_sign :: string where
  "warning_sign = [CHR 0xE2, CHR 0x9A, CHR 0xA0, CHR 0xEF, CHR 0xB8, CHR 0x8F]"

definition nl :: string where "nl = [CHR 0x0A]"

definition filteredLabels :: "string list" where
  "filteredLabels = [''alertname'', ''severity'']"

definition priorityLabels :: "string list" where
  "priorityLabels =
     [''namespace'', ''exported_namespace'', ''pod'', ''exported_pod'', ''container'', ''exported_container'',
      ''deployment'', ''statefulset'', ''daemonset'', ''replicaset'']"

definition countByStatus :: "alert list \<Rightarrow> string \<Rightarrow> int" where
  "countByStatus alertList status = foldl (\<lambda>count a. if aStatus a = status then count + 1 else count) 0 alertList"

definition writeHeader :: "notification \<Rightarrow> string" where
  "writeHeader n =
     (let alertname = mget (nCommonLabels n) ''alertname''; severity = mget (nCommonLabels n) ''severity'';
          (emoji, statusLabel, count) =
            (if nStatus n = StatusResolved
             then (check_mark, ''RESOLVED'', countByStatus (nAlerts n) StatusResolved)
             else (fire, ''FIRING'', countByStatus (nAlerts n) StatusFiring))
      in ''**'' @ emoji @ '' ['' @ statusLabel @ '':'' @ itoa count @ ''] '' @ alertname
         @ (if severity \<noteq> [] then '' ('' @ severity @ '')'' else []) @ ''**'' @ nl)"

definition writeAlertmanagerURL :: "string \<Rightarrow> string" where
  "writeAlertmanagerURL url = (if url \<noteq> [] then nl @ ''Alertmanager: '' @ url @ nl else [])"

text \<open>The loop over the priority labels: what it writes, and the keys it leaves.\<close>

fun write_priority :: "gomap \<Rightarrow> string list \<Rightarrow> string list \<Rightarrow> string \<times> string list" where
  "write_priority labels [] left = ([], left)"
| "write_priority labels (k # ks) left =
     (if k \<in> set left then
        (let (out, left') = write_priority labels ks (removeAll k left)
         in (''**'' @ k @ '':** '' @ mget labels k @ nl @ out, left'))
      else write_priority labels ks left)"

definition writeLabels :: "gomap \<Rightarrow> string" where
  "writeLabels labels =
     (let left = filter (\<lambda>k. k \<notin> set filteredLabels) (map fst labels)
      in if left = [] then []
         else let (out, remaining) = write_priority labels priorityLabels left
              in nl @ ''Labels:'' @ nl @ out
                 @ concat (map (\<lambda>k. k @ '': '' @ mget labels k @ nl) (sort remaining)))"

definition writeAlert :: "int \<Rightarrow> alert \<Rightarrow> string" where
  "writeAlert num a =
     (let statusStr = ToUpper (aStatus a); summary = mget (aAnnotations a) ''summary'';
          description = mget (aAnnotations a) ''description''
      in diamond @ '' Alert '' @ itoa num @ '' '' @ em_dash @ '' '' @ statusStr
         @ (if aStatus a = StatusResolved then '' '' @ check_mark @ nl else nl)
         @ (if summary \<noteq> [] then ''Summary: '' @ summary @ nl else [])
         @ (if description \<noteq> [] then ''Description: '' @ description @ nl else [])
         @ ''Started: '' @ format_time (aStartsAt a) @ nl
         @ (if aStatus a = StatusResolved \<and> \<not> IsZero (aEndsAt a) then ''Ended: '' @ format_time (aEndsAt a) @ nl else [])
         @ writeLabels (aLabels a)
         @ (if aGeneratorURL a \<noteq> [] then ''Source: '' @ aGeneratorURL a @ nl else []))"

fun write_alerts :: "int \<Rightarrow> alert list \<Rightarrow> string" where
  "write_alerts i [] = []"
| "write_alerts i (a # as) = (if 0 < i then nl else []) @ writeAlert (i + 1) a @ write_alerts (i + 1) as"

definition FormatNotification :: "notification \<Rightarrow> string" where
  "FormatNotification n =
     writeHeader n @ writeAlertmanagerURL (nExternalURL n)
     @ (if 0 < length (nAlerts n) then nl @ ''---'' @ nl @ write_alerts 0 (nAlerts n) @ ''---'' @ nl else [])
     @ (if 0 < nTruncatedAlerts n
        then warning_sign @ '' +'' @ itoa (nTruncatedAlerts n) @ '' alerts truncated'' @ nl else [])"

section \<open>The API client\<close>

record http_request =
  hr_method :: string
  hr_url :: string
  hr_headers :: "(string \<times> string) list"
  hr_body :: string

record pachca_client =
  pc_baseURL :: string
  pc_token :: string

definition messagesPath :: string where
  "messagesPath = ''/api/shared/v1/messages''"

definition maxErrorBodySize :: nat where
  "maxErrorBodySize = 8192"

definition NewClient :: "string \<Rightarrow> string \<Rightarrow> pachca_client" where
  "NewClient baseURL token = \<lparr>pc_baseURL = TrimRight baseURL ''/'', pc_token = token\<rparr>"

definition messagePayload :: "int \<Rightarrow> string \<Rightarrow> string" where
  "messagePayload chatID content =
     json_object
       [(''message'',
         json_object [(''entity_type'', json_string ''discussion''), (''entity_id'', itoa chatID),
                      (''content'', json_string content)])]"

definition message_request :: "pachca_client \<Rightarrow> int \<Rightarrow> string \<Rightarrow> http_request" where
  "message_request c chatID content =
     \<lparr>hr_method = ''POST'', hr_url = pc_baseURL c @ messagesPath,
      hr_headers = [(''Authorization'', ''Bearer '' @ pc_token c), (''Content-Type'', ''application/json'')],
      hr_body = messagePayload chatID content\<rparr>"

text \<open>
  \<open>new_request\<close> is the error of \<open>http.NewRequestWithContext\<close> on a URL, if any; \<open>do_request\<close> is the HTTP
  client: an error, or the status and body of the response.
\<close>

definition SendMessage ::
  "(string \<Rightarrow> goerr option) \<Rightarrow> (http_request \<Rightarrow> 'w \<Rightarrow> (goerr + int \<times> string) \<times> 'w) \<Rightarrow> pachca_client \<Rightarrow> int \<Rightarrow> string
   \<Rightarrow> 'w \<Rightarrow> goerr option \<times> 'w" where
  "SendMessage new_request do_request c chatID content w =
     (let req = message_request c chatID content
      in case new_request (hr_url req) of
           Some err \<Rightarrow> (Some (Errorf [Lit ''pachca create request''] err), w)
         | None \<Rightarrow>
             (case do_request req w of
                (Inl err, w') \<Rightarrow> (Some (Errorf [Lit ''pachca send request''] err), w')
              | (Inr (code, body), w') \<Rightarrow>
                  if code < 200 \<or> 300 \<le> code
                  then (Some (Opaque [Lit ''pachca API returned HTTP '', Num code, Lit '': '',
                                      Str (take maxErrorBodySize body)]), w')
                  else (None, w')))"

definition pachca_Name :: string where
  "pachca_Name = ''pachca''"

definition pachca_Send ::
  "(string \<Rightarrow> goerr option) \<Rightarrow> (http_request \<Rightarrow> 'w \<Rightarrow> (goerr + int \<times> string) \<times> 'w) \<Rightarrow> pachca_client \<Rightarrow> int
   \<Rightarrow> notification \<Rightarrow> 'w \<Rightarrow> goerr option \<times> 'w" where
  "pachca_Send new_request do_request c chatID n w =
     (let content = FormatNotification n in SendMessage new_request do_request c chatID content w)"

section \<open>The channel keeps its promise\<close>

text \<open>The service answered the one request for the notification's message with a 2xx status.\<close>

definition pachca_accepted ::
  "(http_request \<Rightarrow> 'w \<Rightarrow> (goerr + int \<times> string) \<times> 'w) \<Rightarrow> pachca_client \<Rightarrow> int \<Rightarrow> notification \<Rightarrow> 'w \<Rightarrow> 'w \<Rightarrow> bool" where
  "pachca_accepted do_request c chatID n w w' \<longleftrightarrow>
     (\<exists>code body. do_request (message_request c chatID (FormatNotification n)) w = (Inr (code, body), w')
        \<and> 200 \<le> code \<and> code < 300)"

lemma SendMessage_ok:
  "SendMessage nr dr c chatID content w = (None, w') \<longleftrightarrow>
     nr (pc_baseURL c @ messagesPath) = None
     \<and> (\<exists>code body. dr (message_request c chatID content) w = (Inr (code, body), w') \<and> 200 \<le> code \<and> code < 300)"
  by (auto simp: SendMessage_def Let_def message_request_def split: option.splits prod.splits sum.splits if_splits)

interpretation pachca_channel: channel pachca_Name "pachca_Send new_request do_request c chatID"
  "pachca_accepted do_request c chatID" for new_request do_request c chatID
  by unfold_locales (auto simp: pachca_Send_def SendMessage_ok pachca_accepted_def)

section \<open>What the message shows\<close>

definition bold_line :: "gomap \<Rightarrow> string \<Rightarrow> string" where
  "bold_line labels k = ''**'' @ k @ '':** '' @ mget labels k @ nl"

definition plain_line :: "gomap \<Rightarrow> string \<Rightarrow> string" where
  "plain_line labels k = k @ '': '' @ mget labels k @ nl"

definition shown_keys :: "gomap \<Rightarrow> string list" where
  "shown_keys labels = filter (\<lambda>k. k \<notin> set filteredLabels) (map fst labels)"

lemma write_priority_spec:
  "distinct ks \<Longrightarrow> write_priority labels ks left =
     (concat (map (bold_line labels) (filter (\<lambda>k. k \<in> set left) ks)), filter (\<lambda>k. k \<notin> set ks) left)"
proof (induction ks arbitrary: left)
  case (Cons k ks)
  then have ks: "k \<notin> set ks" "distinct ks" by simp_all
  have "filter (\<lambda>k'. k' \<in> set (removeAll k left)) ks = filter (\<lambda>k'. k' \<in> set left) ks"
    using ks(1) by (intro filter_cong) auto
  moreover have "filter (\<lambda>k'. k' \<notin> set ks) (removeAll k left) = filter (\<lambda>k'. k' \<notin> set (k # ks)) left"
    by (simp add: removeAll_filter_not_eq conj_commute eq_commute)
  ultimately show ?case using Cons.IH [OF ks(2), of "removeAll k left"] Cons.IH [OF ks(2), of left]
    by (auto simp: bold_line_def intro!: filter_cong)
qed simp

lemma distinct_priorityLabels: "distinct priorityLabels"
  by (simp add: priorityLabels_def)

lemma writeLabels_closed:
  "writeLabels labels =
     (if shown_keys labels = [] then []
      else nl @ ''Labels:'' @ nl
           @ concat (map (bold_line labels) (filter (\<lambda>k. k \<in> set (shown_keys labels)) priorityLabels))
           @ concat (map (plain_line labels) (sort (filter (\<lambda>k. k \<notin> set priorityLabels) (shown_keys labels)))))"
  by (simp add: writeLabels_def shown_keys_def [symmetric] write_priority_spec [OF distinct_priorityLabels]
      plain_line_def [abs_def] Let_def)

text \<open>C30: Every label of an alert that the header does not already show has exactly one line: first the
  infrastructure labels in their fixed order, in bold, then all others by name; nothing else is listed.\<close>

theorem every_label_once:
  assumes "wf_map labels"
  shows "\<exists>pri rest. writeLabels labels =
            (if pri @ rest = [] then []
             else nl @ ''Labels:'' @ nl @ concat (map (bold_line labels) pri) @ concat (map (plain_line labels) rest))
          \<and> distinct (pri @ rest) \<and> set (pri @ rest) = fst ` set labels - {''alertname'', ''severity''}
          \<and> pri = filter (\<lambda>k. k \<in> fst ` set labels) priorityLabels \<and> sorted rest"
proof -
  let ?pri = "filter (\<lambda>k. k \<in> set (shown_keys labels)) priorityLabels"
  let ?rest = "sort (filter (\<lambda>k. k \<notin> set priorityLabels) (shown_keys labels))"
  have set: "set (shown_keys labels) = fst ` set labels - {''alertname'', ''severity''}"
    by (auto simp: shown_keys_def filteredLabels_def)
  have "''alertname'' \<notin> set priorityLabels" "''severity'' \<notin> set priorityLabels"
    by (simp_all add: priorityLabels_def)
  then have pri: "?pri = filter (\<lambda>k. k \<in> fst ` set labels) priorityLabels"
    unfolding set by (intro filter_cong) auto
  have "distinct (shown_keys labels)" using assms by (simp add: shown_keys_def wf_map_def)
  then have "distinct (?pri @ ?rest)" using distinct_priorityLabels by auto
  moreover have "set (?pri @ ?rest) = set (shown_keys labels)" by auto
  moreover from this have "?pri @ ?rest = [] \<longleftrightarrow> shown_keys labels = []"
    by (metis set_empty)
  ultimately show ?thesis
    unfolding writeLabels_closed set [symmetric] pri [symmetric]
    by (intro exI [of _ ?pri] exI [of _ ?rest]) simp
qed

definition demo_labels :: gomap where
  "demo_labels = [(''zone'', ''a''), (''alertname'', ''Down''), (''pod'', ''p1''), (''app'', ''x'')]"

theorem every_label_once_witness:
  "\<exists>pri rest. writeLabels demo_labels =
      (if pri @ rest = [] then []
       else nl @ ''Labels:'' @ nl @ concat (map (bold_line demo_labels) pri) @ concat (map (plain_line demo_labels) rest))
    \<and> distinct (pri @ rest) \<and> set (pri @ rest) = fst ` set demo_labels - {''alertname'', ''severity''}
    \<and> pri = filter (\<lambda>k. k \<in> fst ` set demo_labels) priorityLabels \<and> sorted rest"
  by (rule every_label_once) (simp add: wf_map_def demo_labels_def)

section \<open>Independence of map order\<close>

lemma sort_mset: "mset xs = mset ys \<Longrightarrow> sort xs = sort (ys :: string list)"
  by (metis mset_sort properties_for_sort sorted_sort)

lemma shown_keys_perm: "mset m = mset m' \<Longrightarrow> mset (shown_keys m) = mset (shown_keys m')"
  by (simp add: shown_keys_def)

lemma writeLabels_perm:
  assumes "same_map m m'"
  shows "writeLabels m = writeLabels m'"
proof -
  from assms have k: "mset (shown_keys m) = mset (shown_keys m')" 
    by (intro shown_keys_perm) (simp add: same_map_def)
  have "mset (filter (\<lambda>k. k \<notin> set priorityLabels) (shown_keys m)) = mset (filter (\<lambda>k. k \<notin> set priorityLabels) (shown_keys m'))"
    by (simp only: mset_filter k)
  note srt = sort_mset [OF this]
  note sets = mset_eq_setD [OF k]
  have empty: "shown_keys m = [] \<longleftrightarrow> shown_keys m' = []"
    using arg_cong [OF sets, of "\<lambda>A. A = {}"] by simp
  have lines: "bold_line m = bold_line m'" "plain_line m = plain_line m'"
    using same_map_mget [OF assms] by (simp_all add: bold_line_def plain_line_def fun_eq_iff)
  show ?thesis by (simp only: writeLabels_closed srt sets lines empty)
qed

lemma writeAlert_same: "same_alert a b \<Longrightarrow> writeAlert i a = writeAlert i b"
  using same_map_mget [OF same_alert_simps(7)] writeLabels_perm [OF same_alert_simps(6)]
  by (simp add: writeAlert_def same_alert_simps Let_def)

lemma write_alerts_same: "list_all2 same_alert as bs \<Longrightarrow> write_alerts i as = write_alerts i bs"
  by (induction arbitrary: i rule: list_all2_induct) (simp_all add: writeAlert_same)

lemma countByStatus_filter: "countByStatus as st = int (length (filter (\<lambda>a. aStatus a = st) as))"
proof -
  have "foldl (\<lambda>c a. if aStatus a = st then c + 1 else c) k as = k + int (length (filter (\<lambda>a. aStatus a = st) as))" for k
    by (induction as arbitrary: k) auto
  then show ?thesis by (simp add: countByStatus_def)
qed

lemma countByStatus_same: "list_all2 same_alert as bs \<Longrightarrow> countByStatus as st = countByStatus bs st"
  unfolding countByStatus_filter by (induction rule: list_all2_induct) (simp_all add: same_alert_simps)

text \<open>The message does not depend on the order in which Go visits the entries of a map, so the same
  notification always gives the same text.\<close>

lemma pachca_message_deterministic:
  assumes "list_all2 same_alert (nAlerts n) as" "same_map (nCommonLabels n) labels"
  shows "FormatNotification (n\<lparr>nAlerts := as, nCommonLabels := labels\<rparr>) = FormatNotification n"
proof -
  have len: "length as = length (nAlerts n)" using list_all2_lengthD [OF assms(1)] by simp
  note same = write_alerts_same [OF assms(1), symmetric] countByStatus_same [OF assms(1), symmetric]
    same_map_mget [OF assms(2), symmetric]
  have "writeHeader (n\<lparr>nAlerts := as, nCommonLabels := labels\<rparr>) = writeHeader n"
    by (simp add: writeHeader_def same Let_def)
  with len show ?thesis by (auto simp: FormatNotification_def same)
qed

section \<open>The request\<close>

text \<open>C32: Whatever the alerts contain, the chat service reads the request body as one message to the configured
  chat whose content is the formatted text, invalid UTF-8 replaced: no label or annotation can redirect the
  message or add a member.\<close>

theorem pachca_body_roundtrip:
  "read_json (hr_body (message_request c chatID content)) =
     Some (JObj [(''message'', JObj [(''entity_type'', JStr ''discussion''), (''entity_id'', JNum (itoa chatID)),
                                     (''content'', JStr (valid_text content))])])"
proof -
  let ?inner = "json_object [(''entity_type'', json_string ''discussion''), (''entity_id'', itoa chatID), (''content'', json_string content)]"
  have ascii: "valid_text ''discussion'' = ''discussion'' \<and> valid_text ''message'' = ''message'' \<and> valid_text ''content'' = ''content''
      \<and> valid_text ''entity_type'' = ''entity_type'' \<and> valid_text ''entity_id'' = ''entity_id''"
    by (simp add: valid_text_ascii byte_def)
  have "reads_as 5 ?inner (JObj [(''entity_type'', JStr ''discussion''), (''entity_id'', JNum (itoa chatID)), (''content'', JStr (valid_text content))])"
    (is "reads_as 5 _ ?j")
    using reads_as_string [of "''discussion''"] reads_as_number [of chatID] reads_as_string [of content]
    by (intro reads_as_members [of 1]) (simp_all add: ascii)
  then have "reads_as 7 (json_object [(''message'', ?inner)]) (JObj [(''message'', ?j)])"
    by (intro reads_as_members [of 5]) (simp_all add: ascii)
  moreover have "7 \<le> length (json_object [(''message'', ?inner)])"
    using json_object_length [of 7 "[(''entity_type'', json_string ''discussion''), (''entity_id'', itoa chatID), (''content'', json_string content)]"]
    by (simp add: json_object_members json_string_def)
  ultimately show ?thesis by (simp add: message_request_def messagePayload_def read_json_reads)
qed

text \<open>C31: \<open>Send\<close> makes at most one request, to the configured service with the configured token, and reports
  success exactly when that request was made and answered with a 2xx status.\<close>

theorem pachca_send_once:
  "(pachca_Send new_request do_request (NewClient baseURL token) chatID n w = (None, w') \<longleftrightarrow>
      new_request (TrimRight baseURL ''/'' @ messagesPath) = None
      \<and> pachca_accepted do_request (NewClient baseURL token) chatID n w w')
   \<and> snd (pachca_Send new_request do_request c chatID n w) \<in>
        {w, snd (do_request (message_request c chatID (FormatNotification n)) w)}"
  by (auto simp: pachca_Send_def SendMessage_ok pachca_accepted_def NewClient_def)
    (auto simp: SendMessage_def Let_def split: option.splits prod.splits sum.splits)

end
