(* ===== verification/TemplateEngine.thy ===== *)
theory TemplateEngine imports GoStrings begin

text \<open>
  Package \<open>internal/template\<close>: the engine (\<open>engine.go\<close>) and the watcher that reloads it (\<open>reload.go\<close>).

  Go's \<open>html/template\<close> and the file system are arguments: \<open>'t\<close> is a parsed template set, a
  \<open>fsview\<close> is what the file system calls answer at some moment, and \<open>execute\<close> is \<open>ExecuteTemplate\<close>.
  The lock of the engine makes reading and replacing its template set atomic, so each operation is
  one function on the engine.
\<close>

section \<open>The engine\<close>

record 't fsview =
  fs_Stat :: "string \<Rightarrow> goerr + bool"
  fs_Glob :: "string \<Rightarrow> goerr + string list"
  fs_ParseGlob :: "string \<Rightarrow> goerr + 't"

record 't engine =
  e_dir :: string
  e_tmpl :: "'t option"

definition templateGlob :: string where
  "templateGlob = ''*.html.tmpl''"

definition load :: "(string \<Rightarrow> string \<Rightarrow> string) \<Rightarrow> 't fsview \<Rightarrow> 't engine \<Rightarrow> goerr option \<times> 't engine" where
  "load filepath_Join fs e =
     (let pattern = filepath_Join (e_dir e) templateGlob
      in case fs_Glob fs pattern of
           Inl err \<Rightarrow> (Some (Errorf [Lit ''template glob '', Str pattern] err), e)
         | Inr matches \<Rightarrow>
             if matches = []
             then (Some (Opaque [Lit ''template dir '', Str (e_dir e), Lit '': no '', Str templateGlob, Lit '' files found'']), e)
             else (case fs_ParseGlob fs pattern of
                     Inl err \<Rightarrow> (Some (Errorf [Lit ''template parse '', Str pattern] err), e)
                   | Inr tmpl \<Rightarrow> (None, e\<lparr>e_tmpl := Some tmpl\<rparr>)))"

definition NewEngine :: "(string \<Rightarrow> string \<Rightarrow> string) \<Rightarrow> 't fsview \<Rightarrow> string \<Rightarrow> goerr + 't engine" where
  "NewEngine filepath_Join fs dir =
     (case fs_Stat fs dir of
        Inl err \<Rightarrow> Inl (Errorf [Lit ''template dir '', Str dir] err)
      | Inr isDir \<Rightarrow>
          if \<not> isDir then Inl (Opaque [Lit ''template dir '', Str dir, Lit '': not a directory''])
          else (case load filepath_Join fs \<lparr>e_dir = dir, e_tmpl = None\<rparr> of
                  (Some err, _) \<Rightarrow> Inl err
                | (None, e) \<Rightarrow> Inr e))"

definition Render :: "('t \<Rightarrow> string \<Rightarrow> 'd \<Rightarrow> goerr + string) \<Rightarrow> 't engine \<Rightarrow> string \<Rightarrow> 'd \<Rightarrow> goerr + string" where
  "Render execute e name data =
     (case e_tmpl e of
        None \<Rightarrow> Inl (Opaque [Lit ''template engine: no templates loaded''])
      | Some tmpl \<Rightarrow>
          (case execute tmpl name data of
             Inl err \<Rightarrow> Inl (Errorf [Lit ''template render '', Str name] err)
           | Inr out \<Rightarrow> Inr out))"

definition Reload :: "(string \<Rightarrow> string \<Rightarrow> string) \<Rightarrow> 't fsview \<Rightarrow> 't engine \<Rightarrow> goerr option \<times> 't engine" where
  "Reload filepath_Join fs e =
     (case load filepath_Join fs e of
        (Some err, e') \<Rightarrow> (Some err, e')
      | (None, e') \<Rightarrow> (None, e'))"

section \<open>The watcher\<close>

text \<open>
  What fsnotify reports is the set of the operations seen.  \<open>w_timer\<close> is the timer as \<open>Watch\<close> holds it:
  the time left until it fires, if it is armed.  A timer that fires runs its function in a goroutine
  of its own, which \<open>Stop\<close> no longer reaches: \<open>w_firing\<close> counts these reloads under way.
\<close>

datatype fsop = OpCreate | OpWrite | OpRemove | OpRename | OpChmod

datatype 't input =
    Elapse nat
  | FsEvent "fsop list"
  | EventsClosed
  | ErrorReported
  | ErrorsClosed
  | CtxDone
  | RunReload "'t fsview"

record 't watcher =
  w_engine :: "'t engine"
  w_timer :: "int option"
  w_firing :: nat
  w_returned :: bool

definition defaultDebounce :: int where
  "defaultDebounce = 500000000"

definition NewWatcher :: "'t engine \<Rightarrow> 't watcher" where
  "NewWatcher e = \<lparr>w_engine = e, w_timer = None, w_firing = 0, w_returned = False\<rparr>"

definition reload_op :: "fsop list \<Rightarrow> bool" where
  "reload_op op \<longleftrightarrow> OpWrite \<in> set op \<or> OpCreate \<in> set op \<or> OpRemove \<in> set op"

text \<open>One turn of the select loop of \<open>Watch\<close>, or one thing that happens beside it.\<close>

fun watch_step :: "(string \<Rightarrow> string \<Rightarrow> string) \<Rightarrow> 't input \<Rightarrow> 't watcher \<Rightarrow> 't watcher" where
  "watch_step j (Elapse d) w =
     (case w_timer w of
        None \<Rightarrow> w
      | Some left \<Rightarrow>
          if left \<le> int d then w\<lparr>w_timer := None, w_firing := w_firing w + 1\<rparr> else w\<lparr>w_timer := Some (left - int d)\<rparr>)"
| "watch_step j (RunReload fs) w =
     (if 0 < w_firing w
      then w\<lparr>w_engine := snd (Reload j fs (w_engine w)), w_firing := w_firing w - 1\<rparr> else w)"
| "watch_step j CtxDone w = (if w_returned w then w else w\<lparr>w_timer := None, w_returned := True\<rparr>)"
| "watch_step j (FsEvent op) w =
     (if w_returned w \<or> \<not> reload_op op then w else w\<lparr>w_timer := Some defaultDebounce\<rparr>)"
| "watch_step j EventsClosed w = w\<lparr>w_returned := True\<rparr>"
| "watch_step j ErrorReported w = w"
| "watch_step j ErrorsClosed w = w\<lparr>w_returned := True\<rparr>"

definition watch_loop :: "(string \<Rightarrow> string \<Rightarrow> string) \<Rightarrow> 't input list \<Rightarrow> 't watcher \<Rightarrow> 't watcher" where
  "watch_loop j ins w = fold (watch_step j) ins w"

lemma watch_loop_Nil [simp]: "watch_loop j [] w = w"
  by (simp add: watch_loop_def)

lemma watch_loop_Cons [simp]: "watch_loop j (i # ins) w = watch_loop j ins (watch_step j i w)"
  by (simp add: watch_loop_def)

lemma watch_loop_append: "watch_loop j (ins @ ins2) w = watch_loop j ins2 (watch_loop j ins w)"
  by (simp add: watch_loop_def)

text \<open>
  \<open>Watch\<close> itself: an error of \<open>fsnotify.NewWatcher\<close> (\<open>newErr\<close>) or of \<open>Add\<close> for the engine's directory is returned
  before the loop; the loop returns no error.  While it has not returned, the error is \<open>None\<close> too.
\<close>

definition Watch ::
  "goerr option \<Rightarrow> (string \<Rightarrow> goerr option) \<Rightarrow> (string \<Rightarrow> string \<Rightarrow> string) \<Rightarrow> 't input list \<Rightarrow> 't watcher
   \<Rightarrow> goerr option \<times> 't watcher" where
  "Watch newErr add j ins w =
     (case newErr of
        Some err \<Rightarrow> (Some err, w\<lparr>w_returned := True\<rparr>)
      | None \<Rightarrow>
          (case add (e_dir (w_engine w)) of
             Some err \<Rightarrow> (Some err, w\<lparr>w_returned := True\<rparr>)
           | None \<Rightarrow> (None, watch_loop j ins w)))"

lemma Watch_cases:
  "Watch newErr add j ins w = (None, watch_loop j ins w)
   \<or> (\<exists>err. Watch newErr add j ins w = (Some err, w\<lparr>w_returned := True\<rparr>))"
  by (auto simp: Watch_def split: option.splits)

section \<open>A failed reload keeps the templates\<close>

text \<open>The template sets the file system delivered over a run, the one of \<open>NewEngine\<close> first.\<close>

definition offered :: "(string \<Rightarrow> string \<Rightarrow> string) \<Rightarrow> string \<Rightarrow> 't fsview \<Rightarrow> 't option" where
  "offered j dir fs =
     (let pattern = j dir templateGlob
      in case fs_Glob fs pattern of Inl _ \<Rightarrow> None | Inr [] \<Rightarrow> None
         | Inr (_ # _) \<Rightarrow> (case fs_ParseGlob fs pattern of Inl _ \<Rightarrow> None | Inr t \<Rightarrow> Some t))"

lemma load_offered:
  "load j fs e = (case offered j (e_dir e) fs of
     None \<Rightarrow> (fst (load j fs e), e) | Some t \<Rightarrow> (None, e\<lparr>e_tmpl := Some t\<rparr>))"
  by (auto simp: load_def offered_def Let_def split: sum.splits list.splits option.splits)

lemma load_None: "fst (load j fs e) = None \<longleftrightarrow> offered j (e_dir e) fs \<noteq> None"
  by (auto simp: load_def offered_def Let_def split: sum.splits list.splits)

lemma Reload_load: "Reload j fs e = load j fs e"
  by (auto simp: Reload_def split: prod.splits option.splits)

lemma Reload_cases:
  "Reload j fs e = (case offered j (e_dir e) fs of
     None \<Rightarrow> (fst (Reload j fs e), e) | Some t \<Rightarrow> (None, e\<lparr>e_tmpl := Some t\<rparr>))"
  unfolding Reload_load by (rule load_offered)

lemma NewEngine_loaded: "NewEngine j fs dir = Inr e \<Longrightarrow> e_dir e = dir \<and> e_tmpl e = offered j dir fs \<and> e_tmpl e \<noteq> None"
  using load_offered [of j fs "\<lparr>e_dir = dir, e_tmpl = None\<rparr>"] load_None [of j fs "\<lparr>e_dir = dir, e_tmpl = None\<rparr>"]
  by (auto simp: NewEngine_def split: sum.splits if_splits prod.splits option.splits)

text \<open>The views of the file system that reloads of a run meet, in order.\<close>

fun reload_views :: "(string \<Rightarrow> string \<Rightarrow> string) \<Rightarrow> 't input list \<Rightarrow> 't watcher \<Rightarrow> 't fsview list" where
  "reload_views j [] w = []"
| "reload_views j (i # ins) w =
     (case i of RunReload fs \<Rightarrow> (if 0 < w_firing w then [fs] else []) | _ \<Rightarrow> [])
     @ reload_views j ins (watch_step j i w)"

fun last_offered :: "(string \<Rightarrow> string \<Rightarrow> string) \<Rightarrow> string \<Rightarrow> 't option \<Rightarrow> 't fsview list \<Rightarrow> 't option" where
  "last_offered j dir t [] = t"
| "last_offered j dir t (fs # fss) = last_offered j dir (case offered j dir fs of None \<Rightarrow> t | Some t' \<Rightarrow> Some t') fss"

lemma Reload_snd:
  "snd (Reload j fs e) = e\<lparr>e_tmpl := (case offered j (e_dir e) fs of None \<Rightarrow> e_tmpl e | Some t \<Rightarrow> Some t)\<rparr>"
  by (subst Reload_cases) (cases "offered j (e_dir e) fs"; simp)

lemma watch_loop_engine:
  "w_engine (watch_loop j ins w) =
     (w_engine w)\<lparr>e_tmpl := last_offered j (e_dir (w_engine w)) (e_tmpl (w_engine w)) (reload_views j ins w)\<rparr>"
proof (induction ins arbitrary: w)
  case (Cons i ins)
  then show ?case
    by (cases i) (auto simp: Reload_snd split: option.splits)
qed simp

lemma last_offered_Some: "t \<noteq> None \<Longrightarrow> last_offered j dir t fss \<noteq> None"
  by (induction fss arbitrary: t) (auto split: option.splits)

text \<open>C28: Once the engine was created, whatever the file system and the watcher do - a watcher that cannot start
  included, which reloads nothing - the engine renders with the template set of the last reload that loaded
  one (at first, with that of its creation): a failed reload changes nothing, and rendering never meets an
  engine without templates.\<close>

theorem engine_keeps_last_good:
  assumes "NewEngine j fs dir = Inr e" and "Watch newErr add j ins (NewWatcher e) = (err, w)"
  shows "\<exists>tmpl. last_offered j dir (offered j dir fs) (if err = None then reload_views j ins (NewWatcher e) else []) = Some tmpl
    \<and> Render execute (w_engine w) name data =
        (case execute tmpl name data of Inl err \<Rightarrow> Inl (Errorf [Lit ''template render '', Str name] err) | Inr out \<Rightarrow> Inr out)"
proof -
  note e = NewEngine_loaded [OF assms(1)]
  let ?views = "if err = None then reload_views j ins (NewWatcher e) else []"
  from e have "offered j dir fs \<noteq> None" by metis
  from last_offered_Some [OF this] obtain tmpl where tmpl: "last_offered j dir (offered j dir fs) ?views = Some tmpl" by blast
  have "e_tmpl (w_engine w) = Some tmpl"
    using Watch_cases [of newErr add j ins "NewWatcher e"] assms(2) watch_loop_engine [of j ins "NewWatcher e"] e tmpl
    by (auto simp: NewWatcher_def)
  with tmpl show ?thesis by (intro exI [of _ tmpl]) (simp add: Render_def)
qed

definition demo_fs :: "nat fsview" where
  "demo_fs = \<lparr>fs_Stat = (\<lambda>_. Inr True), fs_Glob = (\<lambda>_. Inr [''a.html.tmpl'']), fs_ParseGlob = (\<lambda>_. Inr 1)\<rparr>"

definition broken_fs :: "nat fsview" where
  "broken_fs = demo_fs\<lparr>fs_ParseGlob := (\<lambda>_. Inl (Foreign ''unexpected EOF''))\<rparr>"

theorem engine_keeps_last_good_witness:
  "\<exists>tmpl. last_offered (\<lambda>d p. d @ p) ''t'' (offered (\<lambda>d p. d @ p) ''t'' demo_fs)
       (if None = (None :: goerr option) then reload_views (\<lambda>d p. d @ p) [FsEvent [OpWrite], Elapse 500000000, RunReload broken_fs]
          (NewWatcher \<lparr>e_dir = ''t'', e_tmpl = Some 1\<rparr>) else []) = Some tmpl
    \<and> Render (\<lambda>t _ _. if t = 1 then Inr ''ok'' else Inl (Foreign ''no'')) (w_engine (watch_loop (\<lambda>d p. d @ p)
        [FsEvent [OpWrite], Elapse 500000000, RunReload broken_fs]
        (NewWatcher \<lparr>e_dir = ''t'', e_tmpl = Some 1\<rparr>))) ''x'' ()
      = (case (if tmpl = 1 then Inr ''ok'' else Inl (Foreign ''no'')) of
           Inl err \<Rightarrow> Inl (Errorf [Lit ''template render '', Str ''x''] err) | Inr out \<Rightarrow> Inr out)"
  by (rule engine_keeps_last_good [where newErr = None and add = "\<lambda>_. None"])
    (simp_all add: NewEngine_def demo_fs_def load_def Let_def Watch_def)

section \<open>Debouncing\<close>

text \<open>A burst: changes of files, each followed by a pause, with any other reports in between.\<close>

definition burst :: "(fsop list \<times> nat) list \<Rightarrow> 't input list" where
  "burst evs = concat (map (\<lambda>(op, d). [FsEvent op, ErrorReported, Elapse d]) evs)"

lemma burst_keeps_waiting:
  assumes "list_all (\<lambda>(op, d). reload_op op \<and> int d < defaultDebounce) evs" "\<not> w_returned w"
  shows "\<exists>t. watch_loop j (burst evs) w = w\<lparr>w_timer := t\<rparr> \<and> (evs \<noteq> [] \<longrightarrow> (\<exists>left. t = Some left \<and> 0 < left \<and> left \<le> defaultDebounce))"
  using assms
proof (induction evs arbitrary: w)
  case Nil
  show ?case by (rule exI [of _ "w_timer w"]) (simp add: burst_def)
next
  case (Cons ev evs)
  obtain op d where ev: "ev = (op, d)" by (cases ev)
  with Cons.prems have d: "reload_op op" "int d < defaultDebounce" and rest: "list_all (\<lambda>(op, d). reload_op op \<and> int d < defaultDebounce) evs"
    by simp_all
  let ?w = "w\<lparr>w_timer := Some (defaultDebounce - int d)\<rparr>"
  have step: "watch_loop j (burst (ev # evs)) w = watch_loop j (burst evs) ?w"
    using d Cons.prems(2) ev by (simp add: burst_def)
  from Cons.IH [OF rest, of ?w] Cons.prems(2) obtain t where
    t: "watch_loop j (burst evs) ?w = ?w\<lparr>w_timer := t\<rparr>" "evs \<noteq> [] \<longrightarrow> (\<exists>left. t = Some left \<and> 0 < left \<and> left \<le> defaultDebounce)"
    by auto
  show ?case
  proof (cases "evs = []")
    case True
    with step d show ?thesis by (intro exI [of _ "Some (defaultDebounce - int d)"]) (simp add: burst_def)
  next
    case False
    with t step show ?thesis by (intro exI [of _ t]) simp
  qed
qed

text \<open>C27: However many changes come less than the debounce interval apart, they start no reload while they
  keep coming, and exactly one once they have stopped for that long; with the context done, none is started.\<close>

theorem watcher_debounces:
  assumes "list_all (\<lambda>(op, d). reload_op op \<and> int d < defaultDebounce) evs" "evs \<noteq> []" "defaultDebounce \<le> int pause"
  shows "w_firing (watch_loop j (burst evs) (NewWatcher e)) = 0
    \<and> w_firing (watch_loop j (burst evs @ Elapse pause # map Elapse later) (NewWatcher e)) = 1
    \<and> w_firing (watch_loop j (burst evs @ CtxDone # Elapse pause # map Elapse later) (NewWatcher e)) = 0"
proof -
  obtain t where t: "watch_loop j (burst evs) (NewWatcher e) = (NewWatcher e)\<lparr>w_timer := Some t\<rparr>" "t \<le> defaultDebounce"
    using burst_keeps_waiting [OF assms(1), of "NewWatcher e" j] assms(2) by (auto simp: NewWatcher_def)
  have idle: "watch_loop j (map Elapse ds) w = w" if "w_timer w = None" for ds and w :: "'a watcher"
    using that by (induction ds) auto
  from t assms(3) show ?thesis by (simp add: watch_loop_append NewWatcher_def idle)
qed

definition demo_engine :: "nat engine" where
  "demo_engine = \<lparr>e_dir = ''t'', e_tmpl = Some 1\<rparr>"

theorem watcher_debounces_witness:
  "w_firing (watch_loop (\<lambda>d p. d @ p) (burst [([OpWrite], 1000), ([OpCreate], 499999999)]) (NewWatcher demo_engine)) = 0
   \<and> w_firing (watch_loop (\<lambda>d p. d @ p) (burst [([OpWrite], 1000), ([OpCreate], 499999999)] @ Elapse 500000000 # map Elapse [7]) (NewWatcher demo_engine)) = 1
   \<and> w_firing (watch_loop (\<lambda>d p. d @ p) (burst [([OpWrite], 1000), ([OpCreate], 499999999)] @ CtxDone # Elapse 500000000 # map Elapse [7]) (NewWatcher demo_engine)) = 0"
  by (rule watcher_debounces) (simp_all add: defaultDebounce_def reload_op_def)

end
