(* ===== verification/EmailFormat.thy ===== *)
theory EmailFormat imports Pachca TemplateEngine begin

text \<open>
  Package \<open>internal/channel/email\<close>, the message (\<open>formatter.go\<close>): the subject, the built-in HTML body
  with its escaping, the label list and the fallback from the template engine to the built-in body.
  The names that \<open>pachca\<close> has too carry the prefix \<open>email_\<close>.
\<close>

section \<open>Label pairs and status helpers\<close>

definition email_filteredLabels :: "string list" where
  "email_filteredLabels = [''alertname'', ''severity'']"

type_synonym label_pair = "string \<times> string"

definition FilterLabels :: "gomap \<Rightarrow> label_pair list" where
  "FilterLabels labels = sort_key fst (filter (\<lambda>(k, v). k \<notin> set email_filteredLabels) labels)"

definition email_countByStatus :: "alert list \<Rightarrow> string \<Rightarrow> int" where
  "email_countByStatus alertList status =
     foldl (\<lambda>count a. if aStatus a = status then count + 1 else count) 0 alertList"

text \<open>
  \<open>strings.EqualFold\<close> against an ASCII word.  Besides the other case of a letter, two code points
  fold to an ASCII letter: U+017F to s and U+212A to k.
\<close>

definition U_017F :: string where
  "U_017F = [CHR 0xC5, CHR 0xBF]"

function fold_case :: "string \<Rightarrow> string" where
  "fold_case s =
     (case s of [] \<Rightarrow> []
      | c # t \<Rightarrow>
          (if prefix U_017F s then CHR ''s'' # fold_case (drop 2 s)
           else if prefix U_212A s then CHR ''k'' # fold_case (drop 3 s)
           else lower_char c # fold_case t))"
  by pat_completeness auto
termination
  by (relation "measure length") auto

declare fold_case.simps [simp del]

definition EqualFold_ascii :: "string \<Rightarrow> string \<Rightarrow> bool" where
  "EqualFold_ascii s word \<longleftrightarrow> fold_case s = map lower_char word"

definition statusColorFunc :: "string \<Rightarrow> string" where
  "statusColorFunc s = (if EqualFold_ascii s StatusResolved then ''#27ae60'' else ''#e74c3c'')"

section \<open>The subject\<close>

definition FormatSubject :: "notification \<Rightarrow> string \<Rightarrow> string" where
  "FormatSubject n pfx =
     (let alertname = mget (nCommonLabels n) ''alertname'';
          (statusLabel, count) =
            (if nStatus n = StatusResolved
             then (''RESOLVED'', email_countByStatus (nAlerts n) StatusResolved)
             else (''FIRING'', email_countByStatus (nAlerts n) StatusFiring));
          subject = pfx @ '' ['' @ statusLabel @ '':'' @ itoa count @ ''] '' @ alertname
      in if nReceiver n \<noteq> [] then subject @ '' ('' @ nReceiver n @ '')'' else subject)"

section \<open>The built-in HTML body\<close>

definition dq :: string where
  "dq = [CHR 0x22]"

text \<open>\<open>tag name style inner\<close> writes an element with a \<open>style\<close> attribute around \<open>inner\<close>.\<close>

definition styled :: "string \<Rightarrow> string \<Rightarrow> string \<Rightarrow> string" where
  "styled name style inner = ''<'' @ name @ '' style='' @ dq @ style @ dq @ ''>'' @ inner @ ''</'' @ name @ ''>''"

abbreviation html_div :: "string \<Rightarrow> string \<Rightarrow> string" where
  "html_div style inner \<equiv> styled ''div'' style inner"

definition link :: "string \<Rightarrow> string \<Rightarrow> string" where
  "link href shown = ''<a href='' @ dq @ href @ dq @ ''>'' @ shown @ ''</a>''"

definition red_circle :: string where "red_circle = [CHR 0xF0, CHR 0x9F, CHR 0x94, CHR 0xB4]"
definition green_circle :: string where "green_circle = [CHR 0xF0, CHR 0x9F, CHR 0x9F, CHR 0xA2]"

definition label_code :: "label_pair \<Rightarrow> string" where
  "label_code = (\<lambda>(k, v). ''<code>'' @ EscapeString k @ ''='' @ EscapeString v @ ''</code>'')"

definition writeLabelsHTML :: "gomap \<Rightarrow> string" where
  "writeLabelsHTML labels =
     (let pairs = FilterLabels labels
      in if pairs = [] then []
         else html_div ''margin-bottom:4px;font-size:13px;'' (''Labels: '' @ Join (map label_code pairs) '' ''))"

definition writeAlertHTML :: "int \<Rightarrow> alert \<Rightarrow> string" where
  "writeAlertHTML num a =
     (let alertStatus = ToUpper (aStatus a);
          statusIcon = (if aStatus a = StatusResolved then green_circle else red_circle);
          summary = mget (aAnnotations a) ''summary'';
          description = mget (aAnnotations a) ''description''
      in html_div ''margin-bottom:8px;font-weight:bold;font-size:15px;''
           (statusIcon @ '' Alert '' @ itoa num @ '' '' @ em_dash @ '' '' @ alertStatus)
         @ (if summary \<noteq> []
            then html_div ''margin-bottom:4px;'' (''<strong>Summary:</strong> '' @ EscapeString summary) else [])
         @ (if description \<noteq> []
            then html_div ''margin-bottom:4px;'' (''<strong>Description:</strong> '' @ EscapeString description) else [])
         @ html_div ''margin-bottom:4px;color:#6c757d;font-size:13px;'' (''Started: '' @ format_time (aStartsAt a))
         @ (if aStatus a = StatusResolved \<and> \<not> IsZero (aEndsAt a)
            then html_div ''margin-bottom:4px;color:#6c757d;font-size:13px;'' (''Ended: '' @ format_time (aEndsAt a)) else [])
         @ writeLabelsHTML (aLabels a)
         @ (if aGeneratorURL a \<noteq> []
            then html_div ''margin-top:4px;font-size:13px;'' (link (EscapeString (aGeneratorURL a)) ''Source'') else []))"

text \<open>The loop over the alerts, at index \<open>i\<close>.\<close>

fun alerts_html :: "int \<Rightarrow> alert list \<Rightarrow> string" where
  "alerts_html i [] = []"
| "alerts_html i (a # as) =
     (if 0 < i then ''<hr style='' @ dq @ ''border:none;border-top:1px solid #e9ecef;margin:16px 0;'' @ dq @ ''>'' else [])
     @ writeAlertHTML (i + 1) a @ alerts_html (i + 1) as"

definition html_open :: string where
  "html_open =
     ''<!DOCTYPE html><html><head><meta charset='' @ dq @ ''UTF-8'' @ dq @ ''></head><body style='' @ dq
     @ ''font-family:Arial,sans-serif;margin:0;padding:20px;background:#f5f5f5;'' @ dq @ ''>''
     @ ''<div style='' @ dq @ ''max-width:600px;margin:0 auto;background:#fff;border-radius:8px;overflow:hidden;'' @ dq @ ''>''"

definition status_banner :: "notification \<Rightarrow> string" where
  "status_banner n =
     (let (statusColor, statusEmoji, statusLabel) =
            (if nStatus n = StatusResolved then (''#27ae60'', check_mark, ''RESOLVED'') else (''#e74c3c'', fire, ''FIRING''));
          alertname = EscapeString (mget (nCommonLabels n) ''alertname'');
          severity = EscapeString (mget (nCommonLabels n) ''severity'')
      in html_div (''background:'' @ statusColor @ '';color:#fff;padding:16px 20px;font-size:18px;font-weight:bold;'')
           (statusEmoji @ '' ['' @ statusLabel @ '':'' @ itoa (nAlertsCount n) @ ''] '' @ alertname
            @ (if severity \<noteq> []
               then '' '' @ styled ''span'' ''font-weight:normal;opacity:0.8;'' (''('' @ severity @ '')'') else [])))"

definition FormatBodyDefault :: "notification \<Rightarrow> string" where
  "FormatBodyDefault n =
     html_open @ status_banner n
     @ (if nExternalURL n \<noteq> []
        then html_div ''padding:8px 20px;background:#f8f9fa;border-bottom:1px solid #e9ecef;font-size:13px;''
               (''Alertmanager: '' @ link (EscapeString (nExternalURL n)) (EscapeString (nExternalURL n))) else [])
     @ html_div ''padding:20px;'' (alerts_html 0 (nAlerts n))
     @ (if 0 < nTruncatedAlerts n
        then html_div ''padding:12px 20px;background:#fff3cd;color:#856404;font-size:13px;''
               (warning_sign @ '' +'' @ itoa (nTruncatedAlerts n) @ '' alerts truncated'') else [])
     @ ''</div></body></html>''"

section \<open>The template formatter\<close>

record 't template_formatter =
  tf_engine :: "'t engine"
  tf_templateName :: string

definition NewTemplateFormatter :: "'t engine \<Rightarrow> string \<Rightarrow> 't template_formatter" where
  "NewTemplateFormatter e name = \<lparr>tf_engine = e, tf_templateName = name\<rparr>"

definition FormatBody ::
  "('t \<Rightarrow> string \<Rightarrow> notification \<Rightarrow> goerr + string) \<Rightarrow> 't template_formatter \<Rightarrow> notification \<Rightarrow> string" where
  "FormatBody execute f n =
     (case Render execute (tf_engine f) (tf_templateName f) n of
        Inl err \<Rightarrow> FormatBodyDefault n
      | Inr result \<Rightarrow> result)"

section \<open>No markup from the outside\<close>

text \<open>The characters of a text that open or close tags and attribute values, in order.\<close>

definition markup :: "string \<Rightarrow> string" where
  "markup s = filter (\<lambda>c. c \<in> html_special) s"

named_theorems markup_simps \<open>markup of composed texts\<close>

lemma markup_append [markup_simps]: "markup (s @ t) = markup s @ markup t"
  by (simp add: markup_def)

lemma markup_Nil [markup_simps]: "markup [] = []"
  by (simp add: markup_def)

lemma markup_Cons [markup_simps]:
  "markup (c # s) = (if c = CHR ''<'' \<or> c = CHR ''>'' \<or> c = CHR 0x22 \<or> c = CHR 0x27 then c # markup s else markup s)"
  by (simp add: markup_def html_special_def)

lemma markup_if [markup_simps]: "markup (if b then s else t) = (if b then markup s else markup t)"
  by simp

lemma markup_EscapeString [markup_simps]: "markup (EscapeString s) = []"
  using EscapeString_safe [of s] by (auto simp: markup_def filter_empty_conv)

lemma markup_numeric:
  assumes "set s \<subseteq> num_chars"
  shows "markup s = []"
proof -
  have "num_chars \<inter> html_special = {}" by (auto simp: num_chars_def digit_chars_def html_special_def)
  with assms show ?thesis by (auto simp: markup_def filter_empty_conv)
qed

lemma markup_numbers [markup_simps]: "markup (itoa i) = []" "markup (pad_int w i) = []"
  by (rule markup_numeric [OF itoa_chars]) (rule markup_numeric [OF pad_int_chars])

lemma markup_format_time [markup_simps]: "markup (format_time t) = []"
  by (simp add: format_time_def date_text_def clock_text_def markup_simps split: prod.splits)

lemma markup_styled [markup_simps]:
  "markup (styled name style inner) =
     ''<'' @ markup name @ dq @ markup style @ dq @ ''>'' @ markup inner @ ''<'' @ markup name @ ''>''"
  by (simp add: styled_def dq_def markup_simps)

lemma markup_link [markup_simps]: "markup (link href shown) = ''<'' @ dq @ markup href @ dq @ ''>'' @ markup shown @ ''<>''"
  by (simp add: link_def dq_def markup_simps)

text \<open>Taking a text apart where it was composed leaves the literal pieces as they are.\<close>

lemmas markup_parts = markup_append markup_styled markup_link markup_if markup_EscapeString

text \<open>A notification with every text from outside that is not empty replaced by a fixed one.\<close>

definition mask :: "string \<Rightarrow> string" where
  "mask s = (if s = [] then [] else ''x'')"

definition mask_values :: "gomap \<Rightarrow> gomap" where
  "mask_values m = map (\<lambda>(k, v). (k, mask v)) m"

definition mask_labels :: "gomap \<Rightarrow> gomap" where
  "mask_labels m = map (\<lambda>(k, v). (if k \<in> set email_filteredLabels then k else ''x'', mask v)) m"

definition mask_alert :: "alert \<Rightarrow> alert" where
  "mask_alert a = a\<lparr>aStatus := (if aStatus a = StatusResolved then StatusResolved else StatusFiring), aLabels := mask_labels (aLabels a), aAnnotations := mask_values (aAnnotations a),
                    aGeneratorURL := mask (aGeneratorURL a)\<rparr>"

definition mask_note :: "notification \<Rightarrow> notification" where
  "mask_note n = n\<lparr>nAlerts := map mask_alert (nAlerts n), nCommonLabels := mask_values (nCommonLabels n),
                   nExternalURL := mask (nExternalURL n)\<rparr>"

lemma mask_Nil [simp]: "mask s = [] \<longleftrightarrow> s = []"
  by (simp add: mask_def)

lemma mask_note_simps [simp]:
  "nStatus (mask_note n) = nStatus n" "nAlertsCount (mask_note n) = nAlertsCount n"
  "nTruncatedAlerts (mask_note n) = nTruncatedAlerts n" "nAlerts (mask_note n) = map mask_alert (nAlerts n)"
  "nCommonLabels (mask_note n) = mask_values (nCommonLabels n)" "nExternalURL (mask_note n) = mask (nExternalURL n)"
  by (simp_all add: mask_note_def)

lemma mget_mask_values [simp]: "mget (mask_values m) k = mask (mget m k)"
  by (induction m) (auto simp: mask_values_def mget_def mask_def split: option.splits)

lemma length_FilterLabels: "length (FilterLabels m) = length (filter (\<lambda>k. k \<notin> set email_filteredLabels) (map fst m))"
  by (induction m) (auto simp: FilterLabels_def)

lemma x_not_filtered [simp]: "''x'' \<notin> set email_filteredLabels"
  by (simp add: email_filteredLabels_def)

lemma length_FilterLabels_mask: "length (FilterLabels (mask_labels m)) = length (FilterLabels m)"
  unfolding length_FilterLabels by (induction m) (auto simp: mask_labels_def split: if_splits)

lemma FilterLabels_mask_Nil: "FilterLabels (mask_labels m) = [] \<longleftrightarrow> FilterLabels m = []"
  by (metis length_FilterLabels_mask length_0_conv)

lemma markup_label_code: "markup (label_code p) = ''<><>''"
  by (cases p) (simp add: label_code_def markup_simps)

lemma markup_Join_codes:
  "length ps = length qs \<Longrightarrow> markup (Join (map label_code ps) '' '') = markup (Join (map label_code qs) '' '')"
proof (induction ps qs rule: list_induct2)
  case (Cons p ps q qs)
  then show ?case
    by (cases ps; cases qs) (simp_all add: markup_simps markup_label_code)
qed simp

lemma markup_labels: "markup (writeLabelsHTML (mask_labels m)) = markup (writeLabelsHTML m)"
  using markup_Join_codes [OF length_FilterLabels_mask]
  by (simp add: writeLabelsHTML_def Let_def FilterLabels_mask_Nil markup_simps)

lemma markup_status: "known_status s \<Longrightarrow> markup (ToUpper s) = []"
proof -
  have "markup (ToUpper StatusFiring) = []" "markup (ToUpper StatusResolved) = []" by code_simp+
  then show "known_status s \<Longrightarrow> markup (ToUpper s) = []" by (auto simp: known_status_def)
qed

lemma mask_alert_simps [simp]:
  "aStatus (mask_alert a) = StatusResolved \<longleftrightarrow> aStatus a = StatusResolved" "aStartsAt (mask_alert a) = aStartsAt a" "aEndsAt (mask_alert a) = aEndsAt a"
  "aLabels (mask_alert a) = mask_labels (aLabels a)" "aAnnotations (mask_alert a) = mask_values (aAnnotations a)"
  "aGeneratorURL (mask_alert a) = mask (aGeneratorURL a)"
  by (simp_all add: mask_alert_def)

lemma markup_mask_status: "known_status (aStatus a) \<Longrightarrow> markup (ToUpper (aStatus (mask_alert a))) = []"
  by (rule markup_status) (simp add: mask_alert_def known_status_def)

text \<open>The status is the one text that is written without escaping, so it must be one of the two known ones.\<close>

lemma markup_alert:
  "known_status (aStatus a) \<Longrightarrow> markup (writeAlertHTML i (mask_alert a)) = markup (writeAlertHTML i a)"
  by (simp only: writeAlertHTML_def Let_def markup_parts markup_labels markup_mask_status markup_status
      mask_alert_simps mget_mask_values mask_Nil)

lemma markup_alerts:
  "list_all (\<lambda>a. known_status (aStatus a)) as \<Longrightarrow> markup (alerts_html i (map mask_alert as)) = markup (alerts_html i as)"
  by (induction as arbitrary: i) (simp_all add: markup_append markup_alert)

text \<open>C25: Nothing that an accepted payload says can open or close a tag or an attribute of the built-in HTML
  body: its markup is that of the same notification with every text from outside replaced by a fixed one.\<close>

theorem email_no_markup_injection:
  assumes "ValidatePayload g m = None" and "n = NewNotification now g"
  shows "markup (FormatBodyDefault n) = markup (FormatBodyDefault (mask_note n))"
proof -
  from assms have "list_all (\<lambda>a. known_status (aStatus a)) (nAlerts n)"
    by (auto simp: ValidatePayload_accepts valid_payload_def NewNotification_def valid_alert_def list_all_iff)
  then show ?thesis
    by (simp only: FormatBodyDefault_def mask_note_simps status_banner_def Let_def markup_parts markup_alerts
        prod.case_distrib [of markup] mget_mask_values mask_Nil EscapeString_empty)
qed

theorem email_no_markup_injection_witness:
  "markup (FormatBodyDefault (NewNotification zero_time (sample_group\<lparr>gExternalURL := [CHR 0x22] @ ''><script>''\<rparr>)))
   = markup (FormatBodyDefault (mask_note (NewNotification zero_time (sample_group\<lparr>gExternalURL := [CHR 0x22] @ ''><script>''\<rparr>))))"
  by (rule email_no_markup_injection [OF _ refl, of _ 5])
    (use valid_sample_group [of 5] in \<open>simp add: ValidatePayload_accepts valid_payload_def sample_group_def short_def maxStringLength_def\<close>)

section \<open>The label list\<close>

lemma FilterLabels_inj: "wf_map m \<Longrightarrow> inj_on fst (set (filter P m))"
  by (auto simp: wf_map_def distinct_map inj_on_def)

lemma FilterLabels_perm: "same_map m m' \<Longrightarrow> FilterLabels m = FilterLabels m'"
  unfolding FilterLabels_def same_map_def
  by (rule sort_key_inj_key_eq) (auto intro: FilterLabels_inj simp del: set_filter)

text \<open>The label list of an alert holds every label but the two that the header shows, once, with its
  value, in increasing order of names, whatever the order in which Go visits the map.\<close>

lemma FilterLabels_spec:
  assumes "wf_map labels"
  shows "set (FilterLabels labels) = {(k, v) \<in> set labels. k \<noteq> ''alertname'' \<and> k \<noteq> ''severity''}
    \<and> sorted_wrt (<) (map fst (FilterLabels labels))
    \<and> (mset labels = mset labels' \<longrightarrow> FilterLabels labels' = FilterLabels labels)"
proof (intro conjI impI)
  show "set (FilterLabels labels) = {(k, v) \<in> set labels. k \<noteq> ''alertname'' \<and> k \<noteq> ''severity''}"
    by (auto simp: FilterLabels_def email_filteredLabels_def)
  have "distinct (map fst (FilterLabels labels))"
    using FilterLabels_inj [OF assms, of "\<lambda>(k, v). k \<notin> set email_filteredLabels"] assms
    by (auto simp: FilterLabels_def distinct_map wf_map_def)
  moreover have "sorted (map fst (FilterLabels labels))" by (simp add: FilterLabels_def)
  ultimately show "sorted_wrt (<) (map fst (FilterLabels labels))" by (simp add: strict_sorted_iff)
  show "mset labels = mset labels' \<Longrightarrow> FilterLabels labels' = FilterLabels labels"
    using FilterLabels_perm assms by (simp add: same_map_def)
qed

end
