(* ===== verification/Calls.thy ===== *)
theory Calls imports GoPrelude begin

text \<open>
  Sequences of fallible calls on an outside party (a mail server, a database driver): \<open>call c w\<close> carries
  out the call \<open>c\<close> in a world \<open>w\<close> and answers with an error or none.  A script is a list of such calls,
  each with the text its error is wrapped in, carried out until one fails.
\<close>

type_synonym ('c, 'w) calls = "'c \<Rightarrow> 'w \<Rightarrow> goerr option \<times> 'w"

text \<open>\<open>if err := call; err != nil { return fmt.Errorf("...: %w", err) }\<close>, then the rest.\<close>

definition try_call ::
  "('c, 'w) calls \<Rightarrow> 'c \<Rightarrow> fmtpart list \<Rightarrow> ('w \<Rightarrow> goerr option \<times> 'w) \<Rightarrow> 'w \<Rightarrow> goerr option \<times> 'w" where
  "try_call call c what rest w =
     (case call c w of
        (Some err, w') \<Rightarrow> (Some (Errorf what err), w')
      | (None, w') \<Rightarrow> rest w')"

fun run_script :: "('c, 'w) calls \<Rightarrow> (('w \<Rightarrow> 'c) \<times> fmtpart list) list \<Rightarrow> 'w \<Rightarrow> goerr option \<times> 'w" where
  "run_script call [] w = (None, w)"
| "run_script call ((c, what) # cs) w = try_call call (c w) what (run_script call cs) w"

lemma run_script_const: "run_script call ((\<lambda>_. c, what) # cs) = try_call call c what (run_script call cs)"
  by (rule ext) simp

section \<open>Records of calls\<close>

text \<open>The outside party with a record of every call made on it and its answer.\<close>

definition recording :: "('c, 'w) calls \<Rightarrow> ('c, 'w \<times> ('c \<times> goerr option) list) calls" where
  "recording call c w = (let (r, w') = call c (fst w) in (r, (w', snd w @ [(c, r)])))"

abbreviation accepted :: "('c \<times> goerr option) list \<Rightarrow> bool" where
  "accepted calls \<equiv> list_all (\<lambda>(c, r). r = None) calls"

fun follows :: "('c \<times> goerr option) list \<Rightarrow> (('w \<Rightarrow> 'c) \<times> fmtpart list) list \<Rightarrow> bool" where
  "follows [] cs \<longleftrightarrow> True"
| "follows (call # calls) [] \<longleftrightarrow> False"
| "follows ((c, r) # calls) ((f, what) # cs) \<longleftrightarrow> (\<exists>v. c = f v) \<and> follows calls cs"

definition script_result :: "('a \<times> fmtpart list) list \<Rightarrow> ('c \<times> goerr option) list \<Rightarrow> goerr option \<Rightarrow> bool" where
  "script_result cs calls res \<longleftrightarrow>
     (case res of None \<Rightarrow> length calls = length cs \<and> accepted calls
      | Some err \<Rightarrow> \<exists>before c e. calls = before @ [(c, Some e)] \<and> accepted before \<and> length before < length cs
                      \<and> err = Errorf (snd (cs ! length before)) e)"

lemma script_result_Cons: "script_result cs calls res \<Longrightarrow> script_result (x # cs) ((c, None) # calls) res"
proof (cases res)
  case (Some err)
  assume "script_result cs calls res"
  with Some obtain before d e where b: "calls = before @ [(d, Some e)]" "accepted before" "length before < length cs"
      "err = Errorf (snd (cs ! length before)) e"
    by (auto simp: script_result_def)
  then show ?thesis unfolding script_result_def Some
    by (auto intro!: exI [of _ "(c, None) # before"])
qed (simp add: script_result_def)

lemma run_script_trace:
  "run_script (recording call) cs (w, tr) = (res, w') \<Longrightarrow>
     \<exists>calls. snd w' = tr @ calls \<and> follows calls cs \<and> script_result cs calls res"
proof (induction cs arbitrary: w tr)
  case Nil
  then show ?case by (intro exI [of _ "[]"]) (auto simp: script_result_def)
next
  case (Cons x cs)
  obtain f what where x: "x = (f, what)" by (cases x)
  let ?c = "f (w, tr)"
  obtain r w1 where call: "call ?c w = (r, w1)" by (meson surj_pair)
  show ?case
  proof (cases r)
    case None
    with Cons.prems x call have "run_script (recording call) cs (w1, tr @ [(?c, None)]) = (res, w')"
      by (simp add: try_call_def recording_def [of call ?c])
    from Cons.IH [OF this] obtain calls where calls: "snd w' = (tr @ [(?c, None)]) @ calls" "follows calls cs" "script_result cs calls res"
      by blast
    with x script_result_Cons [OF calls(3), of x ?c] show ?thesis
      by (intro exI [of _ "(?c, None) # calls"]) auto
  next
    case (Some e)
    with Cons.prems x call have "res = Some (Errorf what e)" "snd w' = tr @ [(?c, Some e)]"
      by (auto simp: try_call_def recording_def [of call ?c])
    with x show ?thesis by (intro exI [of _ "[(?c, Some e)]"]) (auto simp: script_result_def)
  qed
qed

lemma script_result_accepted:
  assumes "script_result cs calls res" "length cs = length full" "prefix (map fst calls) full"
  shows "(res = None \<longleftrightarrow> map fst calls = full \<and> accepted calls) \<and> accepted (butlast calls)"
proof (cases res)
  case None
  with assms have "length calls = length full" "accepted calls" by (simp_all add: script_result_def)
  with assms(3) None show ?thesis
    by (auto simp: list_all_iff prefix_def dest: in_set_butlastD)
next
  case (Some err)
  with assms(1) show ?thesis by (auto simp: script_result_def)
qed

lemma script_result_failed: "script_result cs calls res \<Longrightarrow> res \<noteq> None \<Longrightarrow> \<not> accepted calls"
  by (auto simp: script_result_def)

section \<open>Calls that do not return\<close>

text \<open>
  An outside party that may leave a call unanswered: \<open>answers c v = None\<close> if the call \<open>c\<close> never returns.  The world
  is then \<open>None\<close> and stays it, whatever would have come after: that a sequence of calls ends in the world \<open>None\<close> says that it
  hangs in one of them.
\<close>

definition stalling :: "('c \<Rightarrow> 'w \<Rightarrow> (goerr option \<times> 'w) option) \<Rightarrow> ('c, 'w option) calls" where
  "stalling answers c w =
     (case w of
        None \<Rightarrow> (None, None)
      | Some v \<Rightarrow> (case answers c v of None \<Rightarrow> (None, None) | Some (r, v') \<Rightarrow> (r, Some v')))"

lemma stalling_hung [simp]: "stalling answers c None = (None, None)"
  by (simp add: stalling_def)

end
