(* ===== verification/EmailSender.thy ===== *)
theory EmailSender imports EmailFormat Calls begin

text \<open>
  Package \<open>internal/channel/email\<close>, delivery: the SMTP dialogue and the message (\<open>sender.go\<close>) and the
  channel (\<open>channel.go\<close>).

  The connection is the argument \<open>smtp\<close>: it carries out one call of \<open>SMTPClient\<close> or \<open>Dialer\<close> (or one
  write on the data writer) in a world \<open>'w\<close> and answers with an error or none; one that leaves calls unanswered is
  built with \<open>stalling\<close> of theory \<open>Calls\<close>.  The time and the random
  bytes that go into a message are what \<open>stamp\<close> reads from the world when the message is built.
\<close>

section \<open>The sender\<close>

datatype smtp_call =
    Dial string
  | DialTLS string string
  | StartTLS string
  | Auth string string string
  | Mail string
  | Rcpt string
  | Data
  | WriteString string
  | CloseData
  | CloseClient

record sender =
  s_host :: string
  s_port :: int
  s_from :: string
  s_username :: string
  s_password :: string
  s_tlsMode :: string

definition NewSender :: "string \<Rightarrow> int \<Rightarrow> string \<Rightarrow> string \<Rightarrow> string \<Rightarrow> string \<Rightarrow> sender" where
  "NewSender host port from username password tlsMode =
     \<lparr>s_host = host, s_port = port, s_from = from, s_username = username, s_password = password, s_tlsMode = tlsMode\<rparr>"

type_synonym 'w smtp = "(smtp_call, 'w) calls"

definition crlf :: string where
  "crlf = [CHR 0x0D, CHR 0x0A]"

definition sanitizeHeader :: "string \<Rightarrow> string" where
  "sanitizeHeader s = filter (\<lambda>c. c \<noteq> CHR 0x0D \<and> c \<noteq> CHR 0x0A) s"

text \<open>\<open>hex.EncodeToString\<close>.\<close>

definition hex_encode :: "string \<Rightarrow> string" where
  "hex_encode bs = concat (map (\<lambda>c. [hex_digit (of_char c div 16), hex_digit (of_char c mod 16)]) bs)"

definition generateMessageID :: "string \<Rightarrow> string \<Rightarrow> string" where
  "generateMessageID b from =
     (let domain = TrimRight (after_last CHR ''@'' from) ''>''
      in ''<'' @ hex_encode b @ ''@'' @ domain @ ''>'')"

definition buildMessage :: "gotime \<Rightarrow> string \<Rightarrow> string \<Rightarrow> string list \<Rightarrow> string \<Rightarrow> string \<Rightarrow> string" where
  "buildMessage now b from to subject htmlBody =
     ''From: '' @ from @ crlf
     @ ''To: '' @ Join to '', '' @ crlf
     @ ''Date: '' @ format_rfc1123z now @ crlf
     @ ''Message-ID: '' @ generateMessageID b from @ crlf
     @ ''Subject: '' @ sanitizeHeader subject @ crlf
     @ ''MIME-Version: 1.0'' @ crlf
     @ ''Content-Type: text/html; charset=UTF-8'' @ crlf
     @ crlf
     @ htmlBody"

fun rcpt_loop :: "'w smtp \<Rightarrow> string list \<Rightarrow> ('w \<Rightarrow> goerr option \<times> 'w) \<Rightarrow> 'w \<Rightarrow> goerr option \<times> 'w" where
  "rcpt_loop smtp [] rest = rest"
| "rcpt_loop smtp (rcpt # to) rest =
     try_call smtp (Rcpt rcpt) [Lit ''email RCPT TO '', Str rcpt] (rcpt_loop smtp to rest)"

definition dial :: "'w smtp \<Rightarrow> sender \<Rightarrow> string \<Rightarrow> 'w \<Rightarrow> goerr option \<times> 'w" where
  "dial smtp s addr w =
     (if s_tlsMode s = ''tls'' then smtp (DialTLS addr (s_host s)) w else smtp (Dial addr) w)"

text \<open>The part of \<open>Send\<close> between \<open>dial\<close> and the deferred \<open>Close\<close>.\<close>

definition write_message ::
  "'w smtp \<Rightarrow> ('w \<Rightarrow> gotime \<times> string) \<Rightarrow> sender \<Rightarrow> string list \<Rightarrow> string \<Rightarrow> string \<Rightarrow> 'w \<Rightarrow> goerr option \<times> 'w" where
  "write_message smtp stamp s to subject htmlBody =
     try_call smtp Data [Lit ''email DATA'']
       (\<lambda>w. let (now, b) = stamp w; msg = buildMessage now b (s_from s) to subject htmlBody
            in try_call smtp (WriteString msg) [Lit ''email write body'']
                 (try_call smtp CloseData [Lit ''email close data''] (\<lambda>w. (None, w))) w)"

definition dialogue ::
  "'w smtp \<Rightarrow> ('w \<Rightarrow> gotime \<times> string) \<Rightarrow> sender \<Rightarrow> string list \<Rightarrow> string \<Rightarrow> string \<Rightarrow> 'w \<Rightarrow> goerr option \<times> 'w" where
  "dialogue smtp stamp s to subject htmlBody =
     (if s_tlsMode s = ''starttls'' then try_call smtp (StartTLS (s_host s)) [Lit ''email STARTTLS''] else (\<lambda>rest. rest))
     ((if s_username s \<noteq> [] \<and> s_password s \<noteq> []
       then try_call smtp (Auth (s_username s) (s_password s) (s_host s)) [Lit ''email auth''] else (\<lambda>rest. rest))
      (try_call smtp (Mail (s_from s)) [Lit ''email MAIL FROM'']
       (rcpt_loop smtp to (write_message smtp stamp s to subject htmlBody))))"

text \<open>
  The context of \<open>Send\<close> goes to the dialer only: it bounds \<open>dial\<close>, whose call then answers with an error.  No deadline is
  set for the calls of the dialogue, so \<open>Send\<close> returns only if they do (theory \<open>MailDelivery\<close> has a server where they do not).
\<close>

definition Send ::
  "'w smtp \<Rightarrow> ('w \<Rightarrow> gotime \<times> string) \<Rightarrow> sender \<Rightarrow> string list \<Rightarrow> string \<Rightarrow> string \<Rightarrow> 'w \<Rightarrow> goerr option \<times> 'w" where
  "Send smtp stamp s to subject htmlBody w =
     (let addr = s_host s @ '':'' @ itoa (s_port s)
      in case dial smtp s addr w of
           (Some err, w') \<Rightarrow> (Some (Errorf [Lit ''email dial '', Str addr] err), w')
         | (None, w') \<Rightarrow>
             (let (result, w1) = dialogue smtp stamp s to subject htmlBody w';
                  (_, w2) = smtp CloseClient w1
              in (result, w2)))"

section \<open>The channel\<close>

text \<open>A channel with a formatter (the template formatter) or without one.\<close>

record email_channel =
  ec_sender :: sender
  ec_to :: "string list"
  ec_subjectPrefix :: string
  ec_formatter :: "(notification \<Rightarrow> string) option"

definition email_NewChannel :: "sender \<Rightarrow> string list \<Rightarrow> string \<Rightarrow> (notification \<Rightarrow> string) option list \<Rightarrow> email_channel" where
  "email_NewChannel sndr to subjectPrefix formatter =
     \<lparr>ec_sender = sndr, ec_to = to, ec_subjectPrefix = subjectPrefix,
      ec_formatter = (case formatter of [] \<Rightarrow> None | f # _ \<Rightarrow> f)\<rparr>"

definition email_Name :: string where
  "email_Name = ''email''"

definition email_Send ::
  "'w smtp \<Rightarrow> ('w \<Rightarrow> gotime \<times> string) \<Rightarrow> email_channel \<Rightarrow> notification \<Rightarrow> 'w \<Rightarrow> goerr option \<times> 'w" where
  "email_Send smtp stamp ch n w =
     (let subject = FormatSubject n (ec_subjectPrefix ch);
          body = (case ec_formatter ch of Some f \<Rightarrow> f n | None \<Rightarrow> FormatBodyDefault n)
      in case Send smtp stamp (ec_sender ch) (ec_to ch) subject body w of
           (Some err, w') \<Rightarrow> (Some (Errorf [Lit ''email send''] err), w')
         | (None, w') \<Rightarrow> (None, w'))"

section \<open>The dialogue as a script\<close>

text \<open>
  The specification: a script of calls, carried out one after the other until one is refused.  The last
  but one entry writes the message, which is built when its turn has come.
\<close>

definition preamble :: "sender \<Rightarrow> string list \<Rightarrow> (smtp_call \<times> fmtpart list) list" where
  "preamble s to =
     (if s_tlsMode s = ''starttls'' then [(StartTLS (s_host s), [Lit ''email STARTTLS''])] else [])
     @ (if s_username s \<noteq> [] \<and> s_password s \<noteq> []
        then [(Auth (s_username s) (s_password s) (s_host s), [Lit ''email auth''])] else [])
     @ [(Mail (s_from s), [Lit ''email MAIL FROM''])]
     @ map (\<lambda>r. (Rcpt r, [Lit ''email RCPT TO '', Str r])) to
     @ [(Data, [Lit ''email DATA''])]"

definition script ::
  "('w \<Rightarrow> gotime \<times> string) \<Rightarrow> sender \<Rightarrow> string list \<Rightarrow> string \<Rightarrow> string \<Rightarrow> (('w \<Rightarrow> smtp_call) \<times> fmtpart list) list" where
  "script stamp s to subject htmlBody =
     map (\<lambda>(c, what). (\<lambda>_. c, what)) (preamble s to)
     @ [(\<lambda>w. WriteString (buildMessage (fst (stamp w)) (snd (stamp w)) (s_from s) to subject htmlBody), [Lit ''email write body'']),
        (\<lambda>_. CloseData, [Lit ''email close data''])]"

lemma run_script_rcpts:
  "rcpt_loop smtp to (run_script smtp cs) = run_script smtp (map (\<lambda>r. (\<lambda>_. Rcpt r, [Lit ''email RCPT TO '', Str r])) to @ cs)"
  by (induction to) (simp_all add: run_script_const)

lemma run_script_write:
  "write_message smtp stamp s to subject htmlBody =
     run_script smtp ((\<lambda>_. Data, [Lit ''email DATA''])
       # (\<lambda>w. WriteString (buildMessage (fst (stamp w)) (snd (stamp w)) (s_from s) to subject htmlBody), [Lit ''email write body''])
       # [(\<lambda>_. CloseData, [Lit ''email close data''])])"
  by (auto simp: write_message_def fun_eq_iff try_call_def Let_def case_prod_unfold split: option.splits)

lemma dialogue_script: "dialogue smtp stamp s to subject htmlBody = run_script smtp (script stamp s to subject htmlBody)"
  unfolding dialogue_def run_script_write run_script_rcpts
  by (simp add: script_def preamble_def run_script_const comp_def)

section \<open>What goes over the connection\<close>

lemma follows_const:
  "follows calls (map (\<lambda>(c, what). (\<lambda>_. c, what)) pre @ cs) \<Longrightarrow>
     (\<exists>k\<le>length pre. map fst calls = take k (map fst pre))
     \<or> (\<exists>more. map fst calls = map fst pre @ map fst more \<and> follows more cs)"
proof (induction pre arbitrary: calls)
  case (Cons p pre)
  show ?case
  proof (cases calls)
    case (Cons call calls')
    with Cons.prems have call: "fst call = fst p" "follows calls' (map (\<lambda>(c, what). (\<lambda>_. c, what)) pre @ cs)"
      by (cases call; cases p; auto)+
    from Cons.IH [OF call(2)] show ?thesis
    proof (elim disjE exE conjE)
      fix k assume "k \<le> length pre" "map fst calls' = take k (map fst pre)"
      with Cons call(1) show ?thesis by (intro disjI1 exI [of _ "Suc k"]) simp
    next
      fix more assume "map fst calls' = map fst pre @ map fst more" "follows more cs"
      with Cons call(1) show ?thesis by (intro disjI2 exI [of _ more]) simp
    qed
  qed (auto intro: exI [of _ 0])
qed auto

definition dial_call :: "sender \<Rightarrow> smtp_call" where
  "dial_call s =
     (let addr = s_host s @ '':'' @ itoa (s_port s)
      in if s_tlsMode s = ''tls'' then DialTLS addr (s_host s) else Dial addr)"

text \<open>All the calls of a delivery, for a message built at time \<open>now\<close> with random bytes \<open>b\<close>.\<close>

definition full_dialogue :: "sender \<Rightarrow> string list \<Rightarrow> string \<Rightarrow> string \<Rightarrow> gotime \<Rightarrow> string \<Rightarrow> smtp_call list" where
  "full_dialogue s to subject htmlBody now b =
     map fst (preamble s to) @ [WriteString (buildMessage now b (s_from s) to subject htmlBody), CloseData]"

lemma length_script: "length (script stamp s to subject htmlBody) = length (full_dialogue s to subject htmlBody now b)"
  by (simp add: script_def full_dialogue_def)

lemma follows_script:
  assumes "follows calls (script stamp s to subject htmlBody)"
  shows "\<exists>now b. prefix (map fst calls) (full_dialogue s to subject htmlBody now b)"
  using follows_const [OF assms [unfolded script_def]]
proof (elim disjE exE conjE)
  fix k assume "map fst calls = take k (map fst (preamble s to))"
  then show ?thesis by (simp add: full_dialogue_def take_is_prefix prefix_prefix)
next
  fix more assume more: "map fst calls = map fst (preamble s to) @ map fst more"
    "follows more [(\<lambda>w. WriteString (buildMessage (fst (stamp w)) (snd (stamp w)) (s_from s) to subject htmlBody), [Lit ''email write body'']),
        (\<lambda>_. CloseData, [Lit ''email close data''])]"
  show ?thesis
  proof (cases more)
    case Nil
    with more(1) show ?thesis by (simp add: full_dialogue_def)
  next
    case (Cons m more')
    with more(2) obtain v where "fst m = WriteString (buildMessage (fst (stamp v)) (snd (stamp v)) (s_from s) to subject htmlBody)"
        "map fst more' = [] \<or> map fst more' = [CloseData]"
      by (cases m; cases more'; auto; case_tac list; auto)
    with more(1) Cons show ?thesis
      by (intro exI [of _ "fst (stamp v)"] exI [of _ "snd (stamp v)"]) (auto simp: full_dialogue_def)
  qed
qed

lemma Send_trace:
  assumes "Send (recording smtp) stamp s to subject htmlBody (w, []) = (res, (w', tr))"
  shows "(\<exists>e. tr = [(dial_call s, Some e)] \<and> res \<noteq> None)
    \<or> (\<exists>calls closed now b. tr = (dial_call s, None) # calls @ [(CloseClient, closed)]
          \<and> prefix (map fst calls) (full_dialogue s to subject htmlBody now b) \<and> accepted (butlast calls)
          \<and> (res = None \<longleftrightarrow> map fst calls = full_dialogue s to subject htmlBody now b \<and> accepted calls))"
proof -
  obtain r w1 where d: "smtp (dial_call s) w = (r, w1)" by (meson surj_pair)
  then have dial: "dial (recording smtp) s (s_host s @ '':'' @ itoa (s_port s)) (w, []) = (r, (w1, [(dial_call s, r)]))"
    by (auto simp: dial_def recording_def dial_call_def Let_def split: if_splits)
  show ?thesis
  proof (cases r)
    case (Some e)
    with assms dial show ?thesis by (auto simp: Send_def Let_def)
  next
    case None
    obtain res' w2 where run: "dialogue (recording smtp) stamp s to subject htmlBody (w1, [(dial_call s, None)]) = (res', w2)"
      by (meson surj_pair)
    from run_script_trace [OF run [unfolded dialogue_script]] obtain calls where
      calls: "snd w2 = [(dial_call s, None)] @ calls" "follows calls (script stamp s to subject htmlBody)"
        "script_result (script stamp s to subject htmlBody) calls res'" by blast
    obtain closed where tr: "tr = (dial_call s, None) # calls @ [(CloseClient, closed)]" "res = res'"
      using assms dial None run calls(1) by (auto simp: Send_def Let_def recording_def [of _ CloseClient] split: prod.splits)
    from follows_script [OF calls(2)] obtain now b where
      "prefix (map fst calls) (full_dialogue s to subject htmlBody now b)" by blast
    with tr script_result_accepted [OF calls(3) length_script this] show ?thesis by blast
  qed
qed

text \<open>C12: A delivery dials first and closes the connection last, whatever happens; in between it makes the calls
  of the full dialogue in order, each only after the one before was accepted, and it reports success exactly
  when the dialogue was completed and every call of it accepted.\<close>

theorem email_dialogue:
  assumes "Send (recording smtp) stamp s to subject htmlBody (w, []) = (res, (w', tr))"
  shows "(\<exists>e. tr = [(dial_call s, Some e)] \<and> res \<noteq> None)
    \<or> (\<exists>calls closed now b. tr = (dial_call s, None) # calls @ [(CloseClient, closed)]
          \<and> prefix (map fst calls) (full_dialogue s to subject htmlBody now b) \<and> accepted (butlast calls)
          \<and> (res = None \<longleftrightarrow> map fst calls = full_dialogue s to subject htmlBody now b \<and> accepted calls))"
  by (rule Send_trace [OF assms])

definition demo_sender :: sender where
  "demo_sender = NewSender ''mail'' 587 ''relay@corp'' ''user'' ''secret'' ''starttls''"

text \<open>A server that accepts everything but the recipient x.\<close>

definition demo_smtp :: "unit smtp" where
  "demo_smtp c w = (if c = Rcpt ''x'' then Some (Foreign ''550'') else None, w)"

theorem email_dialogue_witness:
  "\<exists>res tr. Send (recording demo_smtp) (\<lambda>_. (zero_time, [])) demo_sender [''a'', ''x''] ''s'' ''b'' ((), []) = (res, ((), tr))
    \<and> ((\<exists>e. tr = [(dial_call demo_sender, Some e)] \<and> res \<noteq> None)
       \<or> (\<exists>calls closed now b. tr = (dial_call demo_sender, None) # calls @ [(CloseClient, closed)]
          \<and> prefix (map fst calls) (full_dialogue demo_sender [''a'', ''x''] ''s'' ''b'' now b) \<and> accepted (butlast calls)
          \<and> (res = None \<longleftrightarrow> map fst calls = full_dialogue demo_sender [''a'', ''x''] ''s'' ''b'' now b \<and> accepted calls)))"
proof -
  let ?send = "Send (recording demo_smtp) (\<lambda>_. (zero_time, [])) demo_sender [''a'', ''x''] ''s'' ''b'' ((), [])"
  obtain res w' tr where run: "?send = (res, (w', tr))" by (cases ?send) auto
  have "w' = ()" by simp
  with run have "?send = (res, ((), tr))" by simp
  from this email_dialogue [OF this] show ?thesis by blast
qed

text \<open>The password leaves only when both credentials are configured, only to the configured server, and in
  STARTTLS mode only after the server has accepted the upgrade to TLS.\<close>

lemma credentials_after_starttls:
  assumes "Send (recording smtp) stamp s to subject htmlBody (w, []) = (res, (w', tr))"
    and "(Auth u p h, r) \<in> set tr"
  shows "u = s_username s \<and> p = s_password s \<and> h = s_host s \<and> u \<noteq> [] \<and> p \<noteq> []
    \<and> (s_tlsMode s = ''starttls'' \<longrightarrow> (\<exists>before after. tr = before @ (Auth u p h, r) # after \<and> (StartTLS h, None) \<in> set before))
    \<and> (s_tlsMode s = ''tls'' \<longrightarrow> tr ! 0 = (DialTLS (h @ '':'' @ itoa (s_port s)) h, None))"
proof -
  have dc: "dial_call s \<noteq> Auth u p h" by (simp add: dial_call_def Let_def)
  from Send_trace [OF assms(1)] assms(2) dc obtain calls closed now b where
    tr: "tr = (dial_call s, None) # calls @ [(CloseClient, closed)]"
      "prefix (map fst calls) (full_dialogue s to subject htmlBody now b)" "accepted (butlast calls)"
    by auto
  from assms(2) tr(1) dc have inc: "(Auth u p h, r) \<in> set calls" by auto
  let ?auth = "s_username s \<noteq> [] \<and> s_password s \<noteq> []"
  have "Auth u p h \<in> set (full_dialogue s to subject htmlBody now b)"
    using inc set_mono_prefix [OF tr(2)] by force
  then have a: "?auth" "u = s_username s" "p = s_password s" "h = s_host s"
    by (auto simp: full_dialogue_def preamble_def split: if_splits)
  have tls: "\<exists>before after. calls = before @ (Auth u p h, r) # after \<and> (StartTLS h, None) \<in> set before"
    if mode: "s_tlsMode s = ''starttls''"
  proof -
    obtain rest where full: "full_dialogue s to subject htmlBody now b = StartTLS h # Auth u p h # rest" "Auth u p h \<notin> set rest"
      using a mode by (simp add: full_dialogue_def preamble_def) (auto)
    with tr(2) inc obtain r0 calls1 where c1: "calls = (StartTLS h, r0) # calls1" "prefix (map fst calls1) (Auth u p h # rest)"
      by (cases calls) (auto simp: prefix_Cons)
    with inc obtain r1 calls2 where c2: "calls1 = (Auth u p h, r1) # calls2" "prefix (map fst calls2) rest"
      by (cases calls1) (auto simp: prefix_Cons)
    have "(Auth u p h, r) \<notin> set calls2" using set_mono_prefix [OF c2(2)] full(2) by force
    with inc c1 c2 have "r1 = r" by auto
    moreover from tr(3) c1 c2 have "r0 = None" by simp
    ultimately show ?thesis using c1 c2 by (intro exI [of _ "[(StartTLS h, None)]"] exI [of _ calls2]) simp
  qed
  have "s_tlsMode s = ''starttls'' \<longrightarrow> (\<exists>before after. tr = before @ (Auth u p h, r) # after \<and> (StartTLS h, None) \<in> set before)"
  proof
    assume "s_tlsMode s = ''starttls''"
    from tls [OF this] obtain before after where "calls = before @ (Auth u p h, r) # after" "(StartTLS h, None) \<in> set before"
      by blast
    with tr(1) show "\<exists>before after. tr = before @ (Auth u p h, r) # after \<and> (StartTLS h, None) \<in> set before"
      by (intro exI [of _ "(dial_call s, None) # before"] exI [of _ "after @ [(CloseClient, closed)]"]) simp
  qed
  with a tr(1) show ?thesis by (simp add: dial_call_def Let_def)
qed

section \<open>The message\<close>

text \<open>
  A reader of messages that is lenient about line ends: a line ends at CR LF, at a bare LF or at a bare
  CR, and an empty line ends the headers.
\<close>

fun read_line :: "string \<Rightarrow> (string \<times> string) option" where
  "read_line [] = None"
| "read_line (c # s) =
     (if c = CHR 0x0A then Some ([], s)
      else if c = CHR 0x0D then Some ([], (case s of [] \<Rightarrow> [] | d # s' \<Rightarrow> if d = CHR 0x0A then s' else s))
      else map_option (\<lambda>(l, rest). (c # l, rest)) (read_line s))"

lemma read_line_shorter: "read_line s = Some (l, rest) \<Longrightarrow> length rest < length s"
  by (induction s arbitrary: l) (auto split: if_splits list.splits)

definition split_field :: "string \<Rightarrow> string \<times> string" where
  "split_field l = (takeWhile (\<lambda>c. c \<noteq> CHR '':'') l, drop 2 (dropWhile (\<lambda>c. c \<noteq> CHR '':'') l))"

function read_message :: "string \<Rightarrow> ((string \<times> string) list \<times> string) option" where
  "read_message s =
     (case read_line s of
        None \<Rightarrow> None
      | Some (l, rest) \<Rightarrow>
          if l = [] then Some ([], rest)
          else map_option (\<lambda>(fs, body). (split_field l # fs, body)) (read_message rest))"
  by pat_completeness auto
termination
  by (relation "measure length") (auto dest: read_line_shorter)

declare read_message.simps [simp del]

definition one_line :: "string \<Rightarrow> bool" where
  "one_line s \<longleftrightarrow> CHR 0x0D \<notin> set s \<and> CHR 0x0A \<notin> set s"

lemma one_line_append [simp]: "one_line (s @ t) \<longleftrightarrow> one_line s \<and> one_line t"
  by (auto simp: one_line_def)

lemma one_line_Cons: "one_line (c # s) \<longleftrightarrow> c \<noteq> CHR 0x0D \<and> c \<noteq> CHR 0x0A \<and> one_line s"
  by (auto simp: one_line_def)

lemma one_line_Nil [simp]: "one_line []"
  by (simp add: one_line_def)

lemma one_line_numeric: "set s \<subseteq> num_chars \<Longrightarrow> one_line s"
  by (auto simp: one_line_def num_chars_def digit_chars_def)

lemma one_line_pad_int [simp]: "one_line (pad_int w i)"
  by (rule one_line_numeric [OF pad_int_chars])

lemma one_line_Join: "list_all one_line ps \<Longrightarrow> one_line sep \<Longrightarrow> one_line (Join ps sep)"
  by (induction ps sep rule: Join.induct) auto

lemma one_line_nth: "list_all one_line xs \<Longrightarrow> i < length xs \<Longrightarrow> one_line (xs ! i)"
  by (simp add: list_all_length)

lemma one_line_weekday [simp]: "one_line (weekday_name d)"
  unfolding weekday_name_def by (rule one_line_nth) (simp_all add: one_line_def nat_less_iff)

lemma one_line_month: "1 \<le> m \<Longrightarrow> m \<le> 12 \<Longrightarrow> one_line (month_name m)"
  unfolding month_name_def by (rule one_line_nth) (simp_all add: one_line_def)

lemma one_line_date: "one_line (format_rfc1123z t)"
proof -
  obtain y m dd where d: "civil_date (t_sec t div 86400) = (y, m, dd)" by (metis prod_cases3)
  with civil_date_day_number [OF d] show ?thesis
    by (simp add: format_rfc1123z_def clock_text_def one_line_Cons one_line_month valid_date_def Let_def)
qed

lemma one_line_sanitized [simp]: "one_line (sanitizeHeader s)"
  by (auto simp: one_line_def sanitizeHeader_def)

lemma one_line_hex: "one_line (hex_encode b)"
proof -
  have "list_all (\<lambda>n. one_line [hex_digit n]) [0..<16]" by code_simp
  then have "one_line [hex_digit n]" if "n < 16" for n using that by (simp add: list_all_iff)
  moreover have "of_char c div 16 < (16 :: nat)" for c
    using nat_of_char_less_256 [of c] by (simp add: less_mult_imp_div_less)
  ultimately show ?thesis by (induction b) (auto simp: hex_encode_def one_line_Cons)
qed

lemma one_line_mono: "set s \<subseteq> set t \<Longrightarrow> one_line t \<Longrightarrow> one_line s"
  by (auto simp: one_line_def)

lemma after_last_subset: "set (after_last c s) \<subseteq> set s"
  by (auto simp: after_last_def dest: set_takeWhileD)

lemma one_line_message_id: "one_line from \<Longrightarrow> one_line (generateMessageID b from)"
  using one_line_mono [OF subset_trans [OF set_mono_prefix [OF TrimRight_prefix] after_last_subset]] 
  by (simp add: generateMessageID_def Let_def one_line_Cons one_line_hex)

lemma read_line_crlf: "one_line l \<Longrightarrow> read_line (l @ crlf @ rest) = Some (l, rest)"
  by (induction l) (auto simp: one_line_Cons crlf_def)

lemma split_field_name: "CHR '':'' \<notin> set name \<Longrightarrow> split_field (name @ '': '' @ v) = (name, v)"
  by (induction name) (auto simp: split_field_def)

lemma read_message_field:
  "one_line name \<Longrightarrow> CHR '':'' \<notin> set name \<Longrightarrow> one_line v \<Longrightarrow>
   read_message (name @ '': '' @ v @ crlf @ rest) = map_option (\<lambda>(fs, body). ((name, v) # fs, body)) (read_message rest)"
  using read_line_crlf [of "name @ '': '' @ v" rest] split_field_name [of name v]
  by (subst read_message.simps) (simp add: one_line_Cons)

lemma read_message_end: "read_message (crlf @ body) = Some ([], body)"
  using read_line_crlf [of "[]" body] by (subst read_message.simps) simp

text \<open>C15: Reading a built message back, however leniently line ends are read, gives exactly the seven headers
  the program wrote, with the subject less its line breaks, and the body unchanged: no subject or body can add
  or end a header.\<close>

theorem message_roundtrip:
  assumes "one_line from" "list_all one_line to"
  shows "read_message (buildMessage now b from to subject htmlBody) = Some
    ([(''From'', from), (''To'', Join to '', ''), (''Date'', format_rfc1123z now),
      (''Message-ID'', generateMessageID b from), (''Subject'', sanitizeHeader subject),
      (''MIME-Version'', ''1.0''), (''Content-Type'', ''text/html; charset=UTF-8'')], htmlBody)"
proof -
  have names: "one_line ''From'' \<and> one_line ''To'' \<and> one_line ''Date'' \<and> one_line ''Message-ID'' \<and> one_line ''Subject''
      \<and> one_line ''MIME-Version'' \<and> one_line ''Content-Type'' \<and> one_line ''1.0'' \<and> one_line ''text/html; charset=UTF-8''"
    by (simp add: one_line_Cons)
  have colon: "CHR '':'' \<notin> set ''From'' \<and> CHR '':'' \<notin> set ''To'' \<and> CHR '':'' \<notin> set ''Date'' \<and> CHR '':'' \<notin> set ''Message-ID''
      \<and> CHR '':'' \<notin> set ''Subject'' \<and> CHR '':'' \<notin> set ''MIME-Version'' \<and> CHR '':'' \<notin> set ''Content-Type''"
    by simp
  have to: "one_line (Join to '', '')" using assms(2) by (simp add: one_line_Join one_line_Cons)
  have built: "buildMessage now b from to subject htmlBody =
      ''From'' @ '': '' @ from @ crlf @ ''To'' @ '': '' @ Join to '', '' @ crlf @ ''Date'' @ '': '' @ format_rfc1123z now @ crlf
      @ ''Message-ID'' @ '': '' @ generateMessageID b from @ crlf @ ''Subject'' @ '': '' @ sanitizeHeader subject @ crlf
      @ ''MIME-Version'' @ '': '' @ ''1.0'' @ crlf @ ''Content-Type'' @ '': '' @ ''text/html; charset=UTF-8'' @ crlf @ crlf @ htmlBody"
    by (simp add: buildMessage_def)
  note field = read_message_field [where name = "''From''"] read_message_field [where name = "''To''"]
    read_message_field [where name = "''Date''"] read_message_field [where name = "''Message-ID''"]
    read_message_field [where name = "''Subject''"] read_message_field [where name = "''MIME-Version''"]
    read_message_field [where name = "''Content-Type''"]
  show ?thesis
    using names colon to assms(1) unfolding built
    by (simp only: field one_line_date one_line_message_id one_line_sanitized read_message_end not_False_eq_True option.map prod.case)
qed

theorem message_roundtrip_witness:
  "read_message (buildMessage zero_time [] ''a@b'' [''c@d'', ''e@f''] (''Hi'' @ crlf @ ''Bcc: evil'') (crlf @ ''x'')) = Some
    ([(''From'', ''a@b''), (''To'', Join [''c@d'', ''e@f''] '', ''), (''Date'', format_rfc1123z zero_time),
      (''Message-ID'', generateMessageID [] ''a@b''), (''Subject'', sanitizeHeader (''Hi'' @ crlf @ ''Bcc: evil'')),
      (''MIME-Version'', ''1.0''), (''Content-Type'', ''text/html; charset=UTF-8'')], crlf @ ''x'')"
  by (rule message_roundtrip) (simp_all add: one_line_Cons)

section \<open>The channel keeps its promise\<close>

text \<open>The server accepted every call of the delivery of \<open>n\<close>'s message to all the configured recipients.\<close>

definition email_subject :: "email_channel \<Rightarrow> notification \<Rightarrow> string" where
  "email_subject ch n = FormatSubject n (ec_subjectPrefix ch)"

definition email_body :: "email_channel \<Rightarrow> notification \<Rightarrow> string" where
  "email_body ch n = (case ec_formatter ch of Some f \<Rightarrow> f n | None \<Rightarrow> FormatBodyDefault n)"

definition email_accepted ::
  "'w smtp \<Rightarrow> ('w \<Rightarrow> gotime \<times> string) \<Rightarrow> email_channel \<Rightarrow> notification \<Rightarrow> 'w \<Rightarrow> 'w \<Rightarrow> bool" where
  "email_accepted smtp stamp ch n w w' \<longleftrightarrow>
     (\<exists>w1 w2. smtp (dial_call (ec_sender ch)) w = (None, w1)
        \<and> run_script smtp (script stamp (ec_sender ch) (ec_to ch) (email_subject ch n) (email_body ch n)) w1 = (None, w2)
        \<and> w' = snd (smtp CloseClient w2))"

lemma Send_ok:
  "Send smtp stamp s to subject htmlBody w = (None, w') \<longleftrightarrow>
     (\<exists>w1 w2. smtp (dial_call s) w = (None, w1) \<and> run_script smtp (script stamp s to subject htmlBody) w1 = (None, w2)
        \<and> w' = snd (smtp CloseClient w2))"
proof -
  have dial: "dial smtp s (s_host s @ CHR '':'' # itoa (s_port s)) w = smtp (dial_call s) w"
    by (simp add: dial_def dial_call_def Let_def)
  show ?thesis by (auto simp: Send_def dial dialogue_script Let_def split: option.splits prod.splits)
qed

lemma email_Send_ok: "email_Send smtp stamp ch n w = (None, w') \<longleftrightarrow> email_accepted smtp stamp ch n w w'"
  unfolding email_accepted_def Send_ok [symmetric]
  by (auto simp: email_Send_def email_subject_def email_body_def Let_def split: option.splits prod.splits)

interpretation email_channel: channel email_Name "email_Send smtp stamp ch" "email_accepted smtp stamp ch"
  for smtp stamp ch
  by unfold_locales (simp add: email_Send_ok)

text \<open>Whatever notifications the e-mail worker takes from its queue, it answers each with one result, in
  order, under its own name, and a result without an error means that the server accepted the message for
  every recipient.\<close>

lemma email_worker_reports_truth:
  assumes "worker_run email_Name (email_Send smtp stamp ch) ns w = (rs, w')"
  shows "map sr_GroupKey rs = map nGroupKey ns \<and> list_all (\<lambda>r. sr_Channel r = email_Name) rs
    \<and> (\<forall>i. i < length ns \<and> sr_Err (rs ! i) = None \<longrightarrow> (\<exists>w1 w2. email_accepted smtp stamp ch (ns ! i) w1 w2))"
  using email_channel.worker_run_results [OF assms] email_channel.worker_run_delivers [OF assms] by blast

definition sample_note :: notification where
  "sample_note = NewNotification zero_time sample_group"

definition kind_smtp :: "unit smtp" where
  "kind_smtp c w = (None, w)"

end
