(* ===== verification/DispatcherRuns.thy ===== *)
theory DispatcherRuns imports Dispatcher begin

text \<open>
  Executions of the system of \<open>Dispatcher\<close> by name: a scheduler's choices, the function that follows
  them, and the proof that what it reaches is reachable.  The runs at the end show what the dispatcher
  does when one channel's queue refuses a notification, and when a group is saved again while it is being
  delivered.
\<close>

section \<open>Following a schedule\<close>

datatype 'e choice =
    CRun | CPoll 'e | CDispatch gotime | CFanout "goerr option" nat | CCollect | CMark 'e
  | CShutdown "nat list" | CWorker nat "goerr option" nat | CCancel | CWebhook 'e alert_group

definition pick :: "'a list \<Rightarrow> nat \<Rightarrow> 'a option" where
  "pick xs j = (if j < length xs then Some (xs ! j) else None)"

fun follow ::
  "string list \<Rightarrow> dispatcher_config \<Rightarrow> ('e \<Rightarrow> int \<Rightarrow> 's \<Rightarrow> goerr + alert_group list)
   \<Rightarrow> ('e \<Rightarrow> string \<Rightarrow> 's \<Rightarrow> goerr option \<times> 's) \<Rightarrow> ('e \<Rightarrow> alert_group \<Rightarrow> 's \<Rightarrow> goerr option \<times> 's)
   \<Rightarrow> (alert_group \<Rightarrow> bool) \<Rightarrow> 'e choice \<Rightarrow> 's dstate \<Rightarrow> 's dstate option" where
  "follow names cfg gp ms sv arrives CRun s = (if d_pc s = NotStarted then Some (Run_start names cfg s) else None)"
| "follow names cfg gp ms sv arrives (CPoll e) s =
     (if d_pc s = Idle then Some (poll_step names (gp e (dc_BatchSize cfg) (d_store s)) s) else None)"
| "follow names cfg gp ms sv arrives (CDispatch now) s = pick (dispatch_step names now s) 0"
| "follow names cfg gp ms sv arrives (CFanout ctx j) s =
     (if d_cancelled s \<longrightarrow> ctx \<noteq> None then pick (fanout_step names ctx s) j else None)"
| "follow names cfg gp ms sv arrives CCollect s = pick (collect_step s) 0"
| "follow names cfg gp ms sv arrives (CMark e) s = pick (mark_step (ms e) s) 0"
| "follow names cfg gp ms sv arrives (CShutdown js) s = pick (shutdown_step names js s) 0"
| "follow names cfg gp ms sv arrives (CWorker i res j) s =
     (if i < length names then pick (worker_step names cfg i (Some res) s) j else None)"
| "follow names cfg gp ms sv arrives CCancel s = Some (s\<lparr>d_cancelled := True\<rparr>)"
| "follow names cfg gp ms sv arrives (CWebhook e g) s =
     (if arrives g then Some (s\<lparr>d_store := snd (sv e g (d_store s))\<rparr>) else None)"

lemma pick_Some: "pick xs j = Some x \<Longrightarrow> x \<in> set xs"
  by (auto simp: pick_def split: if_splits)

lemma pick_Cons [simp]: "pick (x # xs) 0 = Some x" "pick (x # xs) (Suc j) = pick xs j" "pick [] j = None"
  by (simp_all add: pick_def)

lemma follow_dstep: "follow names cfg gp ms sv arrives c s = Some s' \<Longrightarrow> dstep names cfg gp ms sv arrives s s'"
  by (cases c) (auto intro: dstep.intros dest!: pick_Some split: if_splits)

fun follow_all ::
  "string list \<Rightarrow> dispatcher_config \<Rightarrow> ('e \<Rightarrow> int \<Rightarrow> 's \<Rightarrow> goerr + alert_group list)
   \<Rightarrow> ('e \<Rightarrow> string \<Rightarrow> 's \<Rightarrow> goerr option \<times> 's) \<Rightarrow> ('e \<Rightarrow> alert_group \<Rightarrow> 's \<Rightarrow> goerr option \<times> 's)
   \<Rightarrow> (alert_group \<Rightarrow> bool) \<Rightarrow> 'e choice list \<Rightarrow> 's dstate \<Rightarrow> 's dstate option" where
  "follow_all names cfg gp ms sv arrives [] s = Some s"
| "follow_all names cfg gp ms sv arrives (c # cs) s =
     (case follow names cfg gp ms sv arrives c s of None \<Rightarrow> None | Some s' \<Rightarrow> follow_all names cfg gp ms sv arrives cs s')"

lemma follow_all_dreach:
  "follow_all names cfg gp ms sv arrives cs s = Some s' \<Longrightarrow> dreach names cfg gp ms sv arrives st0 s
     \<Longrightarrow> dreach names cfg gp ms sv arrives st0 s'"
proof (induction cs arbitrary: s)
  case (Cons c cs)
  then obtain s1 where "follow names cfg gp ms sv arrives c s = Some s1" "follow_all names cfg gp ms sv arrives cs s1 = Some s'"
    by (auto split: option.splits)
  with Cons.IH dreach.step [OF Cons.prems(2) follow_dstep] show ?case by blast
qed simp

lemmas run_dreach = follow_all_dreach [OF _ dreach.init]

section \<open>Demonstration runs\<close>

definition two_channels :: "string list" where
  "two_channels = [''pachca'', ''email'']"

definition demo_config :: dispatcher_config where
  "demo_config = \<lparr>dc_PollInterval = 5, dc_BatchSize = 10, dc_QueueSize = 2, dc_SendTimeout = 30\<rparr>"

definition demo_note :: notification where
  "demo_note = NewNotification zero_time sample_group"

abbreviation demo_run :: "env choice list \<Rightarrow> alert_group db \<Rightarrow> alert_group db dstate option" where
  "demo_run cs d \<equiv> follow_all two_channels demo_config (GetPending Some) MarkSent (Save Some) (\<lambda>_. True) cs (NewDispatcher d)"

text \<open>Both channels take and deliver the notification, and the group is about to be marked.\<close>

definition good_schedule :: "env choice list" where
  "good_schedule =
     [CRun, CPoll ok_env, CDispatch zero_time, CFanout None 0, CFanout None 0, CFanout None 0,
      CWorker 0 None 0, CWorker 0 None 0, CWorker 0 None 0, CWorker 1 None 0, CWorker 1 None 0, CWorker 1 None 0,
      CCollect, CCollect, CCollect]"

lemmas run_simps =
  follow_all.simps follow.simps Run_start_def poll_step_def dispatch_step.simps fanout_step.simps
  collect_step.simps mark_step.simps shutdown_step.simps worker_step.simps NewDispatcher_def
  result_cap_def queue_index_def NewQueue_def Enqueue_def Enqueue_select_def Dequeue_wait_def Dequeue_try_def Close_def

lemma poll_sample: "GetPending Some ok_env 10 sample_db = Inr [sample_group]"
  by (simp add: GetPending_def sample_db_def ok_env_def select_pending_def sql_limit_def no_faults_def bindE_def)

lemma good_run:
  "\<exists>s. demo_run good_schedule sample_db = Some s \<and> d_pc s = Marking demo_note [] \<and> g_enq s = [0, 1]
     \<and> g_sent s = [(0, demo_note, None), (1, demo_note, None)] \<and> d_store s = sample_db"
  by (simp add: good_schedule_def run_simps two_channels_def demo_config_def poll_sample demo_note_def Let_def)

text \<open>The context is cancelled after the poll, and the queue of the first channel then refuses.\<close>

definition skip_schedule :: "env choice list" where
  "skip_schedule =
     [CRun, CPoll ok_env, CCancel, CDispatch zero_time,
      CFanout (Some (Sentinel ErrCanceled)) 1, CFanout (Some (Sentinel ErrCanceled)) 0, CFanout (Some (Sentinel ErrCanceled)) 0,
      CWorker 1 None 0, CWorker 1 None 0, CWorker 1 None 0, CCollect, CCollect, CMark ok_env]"

lemma sample_key: "nGroupKey demo_note = ''k1''" "known_keys sample_db = {''k1''}" "gGroupKey sample_group = ''k1''"
  by (simp_all add: demo_note_def NewNotification_def sample_group_def known_keys_def sample_db_def group_row_of_def)

lemma skip_run:
  "\<exists>s. demo_run skip_schedule sample_db = Some s \<and> d_pc s = Dispatch [] \<and> g_enq s = [1]
     \<and> g_sent s = [(1, demo_note, None)] \<and> d_store s = snd (MarkSent ok_env (nGroupKey demo_note) sample_db)"
  by (simp add: skip_schedule_def run_simps two_channels_def demo_config_def poll_sample demo_note_def Let_def)

lemma marked_sample: "pending_map Some (snd (MarkSent ok_env ''k1'' sample_db)) ''k1'' = None"
proof -
  have "fst (MarkSent ok_env ''k1'' sample_db) = None
      \<and> db_wf Some (snd (MarkSent ok_env ''k1'' sample_db))
      \<and> pending_map Some (snd (MarkSent ok_env ''k1'' sample_db)) = (pending_map Some sample_db)(''k1'' := None)"
    using MarkSent_ok [of ok_env Some sample_db "''k1''"] by (simp add: ok_env_def sample_db_wf sample_key)
  then show ?thesis by simp
qed

text \<open>C16: The comment on \<open>fanOutAndCollect\<close> says that a group is marked as sent only if all channels succeed.
  It is not so: with two channels there is an execution in which the first channel's queue refuses the
  notification, although it is empty, because the context is already cancelled; the group is marked as
  sent all the same, and the first channel never sees it.\<close>

theorem refused_channel_still_marked:
  "\<exists>s. dreach two_channels demo_config (GetPending Some) MarkSent (Save Some) (\<lambda>_. True) sample_db s
       \<and> pending_map Some sample_db ''k1'' = Some sample_group \<and> pending_map Some (d_store s) ''k1'' = None
       \<and> g_sent s = [(1, demo_note, None)] \<and> length two_channels = 2"
proof -
  obtain s where s: "demo_run skip_schedule sample_db = Some s" "g_sent s = [(1, demo_note, None)]"
      "d_store s = snd (MarkSent ok_env (nGroupKey demo_note) sample_db)"
    using skip_run by blast
  have "pending_map Some sample_db ''k1'' = Some sample_group"
    by (simp add: pending_map_def sample_db_def group_row_of_def sample_group_def is_pending_def)
  with s run_dreach [OF s(1)] marked_sample show ?thesis
    by (auto simp: sample_key two_channels_def)
qed

text \<open>Alertmanager sends a newer version of the group while the older one is being delivered.\<close>

definition newer_group :: alert_group where
  "newer_group = sample_group\<lparr>gStatus := ''resolved''\<rparr>"

definition later_env :: env where
  "later_env = ok_env\<lparr>e_now := 200, e_ids := (\<lambda>i. replicate (Suc i) CHR ''b'')\<rparr>"

definition race_schedule :: "env choice list" where
  "race_schedule = good_schedule @ [CWebhook later_env newer_group, CMark ok_env]"

lemma follow_all_append:
  "follow_all names cfg gp ms sv arrives (cs @ cs') s =
     (case follow_all names cfg gp ms sv arrives cs s of None \<Rightarrow> None | Some s' \<Rightarrow> follow_all names cfg gp ms sv arrives cs' s')"
  by (induction cs arbitrary: s) (simp_all split: option.split)

lemma save_newer:
  "fst (Save Some later_env newer_group sample_db) = None"
  "pending_map Some (snd (Save Some later_env newer_group sample_db)) ''k1'' = Some newer_group"
  by (simp_all add: Save_def save_tx_def upsert_group_def later_env_def ok_env_def sample_group_def newer_group_def sample_db_def
      group_row_of_def alert_row_of_def run_stmt_def no_faults_def numeral_2_eq_2 pending_map_def is_pending_def)

text \<open>C17: \<open>MarkSent\<close> names a group by its key alone, so a group that Alertmanager updates while its previous
  version is being delivered can be lost: there is an execution in which every send so far was of the
  older version, the newer one was acknowledged to Alertmanager, and it is no longer pending.\<close>

theorem update_during_delivery_lost:
  "\<exists>s s'. dreach two_channels demo_config (GetPending Some) MarkSent (Save Some) (\<lambda>_. True) sample_db s
       \<and> dstep two_channels demo_config (GetPending Some) MarkSent (Save Some) (\<lambda>_. True) s s'
       \<and> pending_map Some (d_store s) ''k1'' = Some newer_group \<and> pending_map Some (d_store s') ''k1'' = None
       \<and> g_sent s' = [(0, demo_note, None), (1, demo_note, None)]
       \<and> nStatus demo_note = ''firing'' \<and> gStatus newer_group = ''resolved''"
proof -
  obtain s0 where s0: "demo_run good_schedule sample_db = Some s0" "d_pc s0 = Marking demo_note []"
      "g_sent s0 = [(0, demo_note, None), (1, demo_note, None)]" "d_store s0 = sample_db"
    using good_run by blast
  let ?d = "snd (Save Some later_env newer_group sample_db)"
  let ?s = "s0\<lparr>d_store := ?d\<rparr>"
  let ?s' = "?s\<lparr>d_pc := Dispatch [], d_store := snd (MarkSent ok_env ''k1'' ?d)\<rparr>"
  have "dreach two_channels demo_config (GetPending Some) MarkSent (Save Some) (\<lambda>_. True) sample_db ?s"
    using dreach.step [OF run_dreach [OF s0(1)] dstep.webhook [of _ newer_group _ _ _ _ _ _ later_env]] s0(4) by simp
  moreover have "dstep two_channels demo_config (GetPending Some) MarkSent (Save Some) (\<lambda>_. True) ?s ?s'"
    by (rule dstep.mark [of _ _ ok_env]) (simp add: mark_step.simps s0(2) sample_key)
  moreover have "pending_map Some (snd (MarkSent ok_env ''k1'' ?d)) ''k1'' = None"
  proof -
    obtain d where d: "Save Some later_env newer_group sample_db = (None, d)"
      using save_newer(1) by (metis prod.collapse)
    from sqlite_store.save_ok [OF sample_db_wf storable_Some d] have "db_wf Some d" "''k1'' \<in> known_keys d"
      by (simp_all add: newer_group_def sample_key)
    with d MarkSent_ok [of ok_env Some d "''k1''"] show ?thesis by (simp add: ok_env_def)
  qed
  ultimately show ?thesis using save_newer(2) s0(3)
    by (intro exI [of _ ?s] exI [of _ ?s'])
      (simp add: demo_note_def NewNotification_def newer_group_def sample_group_def)
qed

end
