(* ===== verification/DispatcherSafety.thy ===== *)
theory DispatcherSafety imports DispatcherRuns begin

text \<open>
  What holds in every reachable state of the dispatcher: where the notifications and results of the group
  in hand are, that none is lost, doubled or mixed up with another group's, and from it when a group is
  marked as sent, what the result channel holds, and what a shutdown leaves.
\<close>

section \<open>Invariant\<close>

text \<open>
  The work that is out for channel \<open>i\<close>: notifications in its queue or in its worker's hands, and its
  results in the result channel.
\<close>

definition unsent :: "'s dstate \<Rightarrow> nat \<Rightarrow> nat" where
  "unsent s i = length (q_ch (d_queue s i)) + (case d_worker s i of WSend n \<Rightarrow> 1 | _ \<Rightarrow> 0)"

definition unread :: "string list \<Rightarrow> 's dstate \<Rightarrow> nat \<Rightarrow> nat" where
  "unread names s i =
     (case d_worker s i of WPut r \<Rightarrow> 1 | _ \<Rightarrow> 0) + length (filter (\<lambda>r. sr_Channel r = names ! i) (d_results s))"

definition out :: "string list \<Rightarrow> 's dstate \<Rightarrow> nat \<Rightarrow> nat" where
  "out names s i = unsent s i + unread names s i"

definition sends :: "'s dstate \<Rightarrow> nat \<Rightarrow> nat" where
  "sends s i = length (filter (\<lambda>x. fst x = i) (g_sent s))"

text \<open>Everything that is out belongs to the notification \<open>n\<close>, and every result tells how a send of \<open>n\<close> ended.\<close>

definition is_result :: "string list \<Rightarrow> 's dstate \<Rightarrow> notification \<Rightarrow> nat \<Rightarrow> send_result \<Rightarrow> bool" where
  "is_result names s n i r \<longleftrightarrow>
     sr_Channel r = names ! i \<and> sr_GroupKey r = nGroupKey n \<and> (i, n, sr_Err r) \<in> set (g_sent s)"

definition mine :: "string list \<Rightarrow> 's dstate \<Rightarrow> notification \<Rightarrow> nat \<Rightarrow> bool" where
  "mine names s n i \<longleftrightarrow>
     set (q_ch (d_queue s i)) \<subseteq> {n}
     \<and> (case d_worker s i of WSend m \<Rightarrow> m = n | WPut r \<Rightarrow> is_result names s n i r | _ \<Rightarrow> True)"

definition all_of :: "string list \<Rightarrow> 's dstate \<Rightarrow> notification \<Rightarrow> bool" where
  "all_of names s n \<longleftrightarrow>
     (\<forall>i<length names. mine names s n i)
     \<and> (\<forall>r\<in>set (d_results s). \<exists>i<length names. is_result names s n i r)
     \<and> (\<forall>x\<in>set (g_sent s). fst x < length names \<and> fst (snd x) = n)"

definition quiet :: "string list \<Rightarrow> 's dstate \<Rightarrow> bool" where
  "quiet names s \<longleftrightarrow> (\<forall>i<length names. out names s i = 0)"

definition member :: "nat list \<Rightarrow> nat \<Rightarrow> nat" where
  "member xs i = (if i \<in> set xs then 1 else 0)"

definition phase :: "string list \<Rightarrow> 's dstate \<Rightarrow> bool" where
  "phase names s =
     (case d_pc s of
        NotStarted \<Rightarrow> quiet names s \<and> \<not> d_running s \<and> d_worker s = (\<lambda>_. WNew)
      | Idle \<Rightarrow> quiet names s
      | Dispatch gs \<Rightarrow> quiet names s \<and> names \<noteq> []
      | Fanout n todo k gs \<Rightarrow>
          names \<noteq> [] \<and> all_of names s n \<and> k = length (g_enq s) \<and> distinct (g_enq s @ todo)
          \<and> set (g_enq s @ todo) \<subseteq> {..<length names}
          \<and> (\<forall>i<length names. out names s i = member (g_enq s) i)
      | Collecting n k ok gs \<Rightarrow>
          all_of names s n \<and> g_enq s \<noteq> [] \<and> set (g_enq s) \<subseteq> {..<length names}
          \<and> (\<forall>i<length names. out names s i \<le> member (g_enq s) i)
          \<and> k = (\<Sum>i<length names. out names s i)
          \<and> (ok \<longrightarrow> (\<forall>i\<in>set (g_enq s). out names s i = 0 \<longrightarrow> (i, n, None) \<in> set (g_sent s)))
      | Marking n gs \<Rightarrow>
          quiet names s \<and> g_enq s \<noteq> [] \<and> set (g_enq s) \<subseteq> {..<length names}
          \<and> (\<forall>i\<in>set (g_enq s). (i, n, None) \<in> set (g_sent s))
      | Closing js \<Rightarrow> quiet names s \<and> (\<forall>i<length names. i \<in> set js \<or> q_closed (d_queue s i))
      | Waiting \<Rightarrow> quiet names s \<and> (\<forall>i<length names. q_closed (d_queue s i))
      | Stopped \<Rightarrow> quiet names s \<and> (\<forall>i<length names. d_worker s i = WDone)
      | Crashed \<Rightarrow> False)"

definition active :: "dpc \<Rightarrow> bool" where
  "active pc \<longleftrightarrow> pc \<notin> {NotStarted, Stopped, Crashed}"

definition shutting :: "dpc \<Rightarrow> bool" where
  "shutting pc \<longleftrightarrow> (\<exists>js. pc = Closing js) \<or> pc = Waiting \<or> pc = Stopped"

definition wired :: "string list \<Rightarrow> dispatcher_config \<Rightarrow> 's dstate \<Rightarrow> nat \<Rightarrow> bool" where
  "wired names cfg s i \<longleftrightarrow>
     (d_pc s \<noteq> NotStarted \<longrightarrow> d_worker s i \<noteq> WNew \<and> q_cap (d_queue s i) = nat (dc_QueueSize cfg))
     \<and> queue_ok (d_queue s i)
     \<and> (d_worker s i = WDone \<longrightarrow> q_closed (d_queue s i))
     \<and> (q_closed (d_queue s i) \<longrightarrow> shutting (d_pc s))
     \<and> (case d_worker s i of WPut r \<Rightarrow> sr_Channel r = names ! i | _ \<Rightarrow> True)
     \<and> unsent s i + sends s i = member (g_enq s) i"

definition plumbing :: "string list \<Rightarrow> dispatcher_config \<Rightarrow> 's dstate \<Rightarrow> bool" where
  "plumbing names cfg s \<longleftrightarrow>
     d_running s = active (d_pc s)
     \<and> (d_pc s = Stopped \<longrightarrow> d_resClosed s)
     \<and> (d_resClosed s \<longrightarrow> d_pc s \<in> {Waiting, Stopped} \<and> (\<forall>i<length names. d_worker s i = WDone))
     \<and> (\<forall>r\<in>set (d_results s). sr_Channel r \<in> set names)
     \<and> (\<forall>i<length names. wired names cfg s i)"

definition valid_config :: "dispatcher_config \<Rightarrow> bool" where
  "valid_config cfg \<longleftrightarrow> 0 < dc_PollInterval cfg \<and> 0 < dc_BatchSize cfg \<and> 0 < dc_QueueSize cfg"

definition dinv :: "string list \<Rightarrow> dispatcher_config \<Rightarrow> 's dstate \<Rightarrow> bool" where
  "dinv names cfg s \<longleftrightarrow> phase names s \<and> plumbing names cfg s"

section \<open>Queues by name\<close>

lemma queue_index_nth:
  assumes "distinct names" "i < length names"
  shows "queue_index names (names ! i) = i"
proof -
  have "distinct (map fst (rev (zip names [0..<length names])))"
    using assms(1) by (simp flip: rev_map)
  moreover have "(names ! i, i) \<in> set (rev (zip names [0..<length names]))"
    using assms(2) by (auto simp: set_zip)
  ultimately show ?thesis by (simp add: queue_index_def)
qed

lemma queue_indices:
  "distinct names \<Longrightarrow> map (queue_index names) (remdups names) = [0..<length names]"
  by (rule nth_equalityI) (simp_all add: queue_index_nth distinct_remdups_id)

section \<open>Steps of a worker\<close>

text \<open>A worker's step moves what is out of its own channel along, and changes nothing of the others.\<close>

lemma length_results_out:
  assumes "distinct names" "\<forall>r\<in>set rs. sr_Channel r \<in> set names"
  shows "(\<Sum>i<length names. length (filter (\<lambda>r. sr_Channel r = names ! i) rs)) = length rs"
  using assms(2)
proof (induction rs)
  case (Cons r rs)
  then obtain j where j: "j < length names" "names ! j = sr_Channel r" by (auto simp: in_set_conv_nth)
  have one: "(\<Sum>i<length names. if sr_Channel r = names ! i then 1 else 0 :: nat) = 1"
  proof -
    have "(\<Sum>i<length names. if sr_Channel r = names ! i then 1 else 0 :: nat) = (\<Sum>i<length names. if i = j then 1 else 0)"
      by (rule sum.cong) (use j assms(1) in \<open>auto simp: nth_eq_iff_index_eq\<close>)
    with j(1) show ?thesis by simp
  qed
  have "(\<Sum>i<length names. length (filter (\<lambda>r. sr_Channel r = names ! i) (r # rs)))
      = (\<Sum>i<length names. (if sr_Channel r = names ! i then 1 else 0) + length (filter (\<lambda>r. sr_Channel r = names ! i) rs))"
    by (rule sum.cong) auto
  with one Cons show ?case by (simp add: sum.distrib)
qed simp

lemma results_le_out:
  assumes "distinct names" "plumbing names cfg s"
  shows "length (d_results s) \<le> (\<Sum>i<length names. out names s i)"
proof -
  have "length (d_results s) = (\<Sum>i<length names. length (filter (\<lambda>r. sr_Channel r = names ! i) (d_results s)))"
    using assms by (simp add: plumbing_def length_results_out)
  also have "\<dots> \<le> (\<Sum>i<length names. out names s i)"
    by (rule sum_mono) (simp add: out_def unread_def)
  finally show ?thesis .
qed

lemma quiet_no_results: "distinct names \<Longrightarrow> plumbing names cfg s \<Longrightarrow> quiet names s \<Longrightarrow> d_results s = []"
  using results_le_out [of names cfg s] by (simp add: quiet_def)


lemma worker_cases [consumes 1, case_names park take finish send put panic]:
  assumes "s' \<in> set (worker_step names cfg i ret s)"
  obtains (park) "d_worker s i = WTry" "q_ch (d_queue s i) = []" "s' = s\<lparr>d_worker := (d_worker s)(i := WWait)\<rparr>"
  | (take) n rest where "d_worker s i \<in> {WTry, WWait}" "q_ch (d_queue s i) = n # rest"
      "s' = s\<lparr>d_queue := (d_queue s)(i := (d_queue s i)\<lparr>q_ch := rest\<rparr>), d_worker := (d_worker s)(i := WSend n)\<rparr>"
  | (finish) "d_worker s i = WWait" "q_ch (d_queue s i) = []" "q_done (d_queue s i)"
      "s' = s\<lparr>d_worker := (d_worker s)(i := WDone)\<rparr>"
  | (send) n res where "d_worker s i = WSend n" "ret = Some res"
      "s' = s\<lparr>d_worker := (d_worker s)(i := WPut \<lparr>sr_GroupKey = nGroupKey n, sr_Channel = names ! i, sr_Err = res\<rparr>),
             g_sent := g_sent s @ [(i, n, res)]\<rparr>"
  | (put) r where "d_worker s i = WPut r" "\<not> d_resClosed s"
      "s' = s\<lparr>d_results := d_results s @ [r], d_worker := (d_worker s)(i := WTry)\<rparr>"
  | (panic) r where "d_worker s i = WPut r" "d_resClosed s"
proof (cases "d_worker s i")
  case WTry
  with assms that(1,2) show ?thesis
    by (cases "q_ch (d_queue s i)") (auto simp: worker_step.simps Dequeue_try_def)
next
  case WWait
  show ?thesis
  proof (cases "q_ch (d_queue s i)")
    case Nil
    with WWait assms that(3) show ?thesis
      by (auto simp: worker_step.simps Dequeue_try_def Dequeue_wait_def fun_upd_def [symmetric] simp del: fun_upd_apply split: if_splits)
  next
    case (Cons n rest)
    with WWait assms that(2) show ?thesis
      by (auto simp: worker_step.simps Dequeue_try_def Dequeue_wait_def split: if_splits)
  qed
next
  case (WSend n)
  with assms that(4) show ?thesis by (cases ret) (simp_all add: worker_step.simps)
qed (use assms that(5,6) in \<open>auto simp: worker_step.simps split: if_splits\<close>)

lemmas count_defs = unsent_def unread_def out_def sends_def

lemma worker_out:
  assumes "s' \<in> set (worker_step names cfg i ret s)" "distinct names" "plumbing names cfg s"
    and "i < length names" "j < length names" "d_resClosed s = False"
  shows "out names s' j = out names s j \<and> unsent s' j + sends s' j = unsent s j + sends s j"
  using assms(1)
proof (cases rule: worker_cases)
  case (put r)
  with assms(3,4) have "sr_Channel r = names ! i" by (auto simp: plumbing_def wired_def)
  then have "sr_Channel r = names ! j \<longleftrightarrow> i = j" using assms(2,4,5) by (simp add: nth_eq_iff_index_eq)
  with put show ?thesis by (auto simp: count_defs)
qed (auto simp: count_defs assms(6))

lemma worker_frame:
  assumes "s' \<in> set (worker_step names cfg i ret s)" "d_resClosed s = False"
  shows "d_pc s' = d_pc s \<and> d_running s' = d_running s \<and> d_cancelled s' = d_cancelled s \<and> d_resClosed s' = False
    \<and> d_store s' = d_store s \<and> g_enq s' = g_enq s \<and> set (g_sent s) \<subseteq> set (g_sent s')
    \<and> (\<forall>j. q_closed (d_queue s' j) = q_closed (d_queue s j) \<and> q_cap (d_queue s' j) = q_cap (d_queue s j))"
  using assms(1) by (cases rule: worker_cases) (auto simp: assms(2))

lemma is_result_mono: "is_result names s n i r \<Longrightarrow> set (g_sent s) \<subseteq> set (g_sent s') \<Longrightarrow> is_result names s' n i r"
  by (auto simp: is_result_def)

lemma mine_cong:
  "mine names s n j \<Longrightarrow> d_queue s' j = d_queue s j \<Longrightarrow> d_worker s' j = d_worker s j \<Longrightarrow>
     set (g_sent s) \<subseteq> set (g_sent s') \<Longrightarrow> mine names s' n j"
  by (auto simp: mine_def is_result_def split: wstate.splits)

lemma worker_others:
  assumes "s' \<in> set (worker_step names cfg i ret s)" "d_resClosed s = False" "j \<noteq> i"
  shows "d_worker s' j = d_worker s j \<and> d_queue s' j = d_queue s j \<and> unsent s' j = unsent s j \<and> sends s' j = sends s j"
  using assms(1) by (cases rule: worker_cases) (auto simp: assms(2,3) assms(3) [symmetric] unsent_def sends_def)

lemma worker_mine:
  assumes "s' \<in> set (worker_step names cfg i ret s)" "d_resClosed s = False" "mine names s n i"
  shows "mine names s' n i \<and> (\<forall>r\<in>set (d_results s') - set (d_results s). is_result names s' n i r)
    \<and> (\<forall>x\<in>set (g_sent s') - set (g_sent s). fst x = i \<and> fst (snd x) = n)"
  using assms(1) by (cases rule: worker_cases) (use assms(2,3) in \<open>auto simp: mine_def is_result_def\<close>)

lemma worker_all_of:
  assumes "s' \<in> set (worker_step names cfg i ret s)" "d_resClosed s = False" "i < length names" "all_of names s n"
  shows "all_of names s' n"
proof -
  from assms(3,4) have m: "mine names s n i" by (simp add: all_of_def)
  note w = worker_mine [OF assms(1,2) m]
  from worker_frame [OF assms(1,2)] have sub: "set (g_sent s) \<subseteq> set (g_sent s')" by simp
  have "mine names s' n j" if "j < length names" for j
    using that w worker_others [OF assms(1,2)] mine_cong [OF _ _ _ sub] assms(4) unfolding all_of_def by metis
  moreover have "\<exists>i<length names. is_result names s' n i r" if "r \<in> set (d_results s')" for r
    using that w assms(3,4) is_result_mono [OF _ sub] unfolding all_of_def by blast
  moreover have "\<forall>x\<in>set (g_sent s'). fst x < length names \<and> fst (snd x) = n"
    using w assms(3,4) unfolding all_of_def by (metis DiffI)
  ultimately show ?thesis unfolding all_of_def by blast
qed

lemma worker_wired:
  assumes "s' \<in> set (worker_step names cfg i ret s)" "d_resClosed s = False" "wired names cfg s i"
  shows "wired names cfg s' i"
  using assms(1)
proof (cases rule: worker_cases)
  case (take n rest)
  with assms(3) show ?thesis by (auto simp: wired_def queue_ok_def unsent_def sends_def)
next
  case (send n res)
  with assms(3) show ?thesis by (simp add: wired_def queue_ok_def unsent_def sends_def)
next
  case (put r)
  with assms(3) show ?thesis by (simp add: wired_def queue_ok_def unsent_def sends_def)
next
  case finish
  with assms(3) show ?thesis by (simp add: wired_def queue_ok_def unsent_def sends_def)
next
  case park
  with assms(3) show ?thesis by (simp add: wired_def queue_ok_def unsent_def sends_def)
qed (use assms(2) in simp)

lemma wired_cong:
  "wired names cfg s j \<Longrightarrow> d_worker s' j = d_worker s j \<Longrightarrow> d_queue s' j = d_queue s j \<Longrightarrow> unsent s' j = unsent s j \<Longrightarrow>
     sends s' j = sends s j \<Longrightarrow> d_pc s' = d_pc s \<Longrightarrow> g_enq s' = g_enq s \<Longrightarrow> wired names cfg s' j"
  by (simp add: wired_def)

lemma worker_plumbing:
  assumes "s' \<in> set (worker_step names cfg i ret s)" "i < length names" "d_resClosed s = False"
    and "plumbing names cfg s"
  shows "plumbing names cfg s'"
proof -
  note frame = worker_frame [OF assms(1,3)]
  have "wired names cfg s i" using assms(2,4) by (simp add: plumbing_def)
  have old: "\<forall>r\<in>set (d_results s). sr_Channel r \<in> set names" using assms(4) by (simp add: plumbing_def)
  have chan: "\<forall>r\<in>set (d_results s'). sr_Channel r \<in> set names"
    using assms(1)
  proof (cases rule: worker_cases)
    case (put r)
    with \<open>wired names cfg s i\<close> assms(2) have "sr_Channel r \<in> set names" by (simp add: wired_def)
    with put old show ?thesis by simp
  qed (use old assms(3) in simp_all)
  have wired: "wired names cfg s' j" if "j < length names" for j
  proof (cases "j = i")
    case True
    with worker_wired [OF assms(1,3) \<open>wired names cfg s i\<close>] show ?thesis by simp
  next
    case False
    from that assms(4) have "wired names cfg s j" by (simp add: plumbing_def)
    with worker_others [OF assms(1,3) False] frame show ?thesis using wired_cong [of names cfg s j s'] by simp
  qed
  from assms(3,4) frame have "d_running s' = active (d_pc s')" "\<not> d_resClosed s'" "d_pc s' \<noteq> Stopped"
    by (auto simp: plumbing_def)
  with wired chan show ?thesis unfolding plumbing_def by blast
qed


lemma worker_not_done: "s' \<in> set (worker_step names cfg i ret s) \<Longrightarrow> d_worker s i \<noteq> WDone \<and> d_worker s i \<noteq> WNew"
  by (cases rule: worker_cases) auto

lemma worker_open:
  assumes "s' \<in> set (worker_step names cfg i ret s)" "i < length names" "dinv names cfg s"
  shows "d_resClosed s = False"
  using assms worker_not_done [OF assms(1)] by (auto simp: dinv_def plumbing_def phase_def)

lemma worker_dinv:
  assumes "s' \<in> set (worker_step names cfg i ret s)" "distinct names" "i < length names" "dinv names cfg s"
  shows "dinv names cfg s'"
proof -
  note opn = worker_open [OF assms(1,3,4)]
  from assms(4) have ph: "phase names s" and pl: "plumbing names cfg s" by (simp_all add: dinv_def)
  note frame = worker_frame [OF assms(1) opn]
  have out: "j < length names \<Longrightarrow> out names s' j = out names s j" for j
    using worker_out [OF assms(1,2) pl assms(3) _ opn] by simp
  then have quiet: "quiet names s' = quiet names s" and sum: "(\<Sum>j<length names. out names s' j) = (\<Sum>j<length names. out names s j)"
    by (simp_all add: quiet_def)
  have sub: "set (g_sent s) \<subseteq> set (g_sent s')" using frame by simp
  have all: "all_of names s n \<Longrightarrow> all_of names s' n" for n using worker_all_of [OF assms(1) opn assms(3)] .
  have "phase names s'"
  proof (cases "d_pc s")
    case (Collecting n k ok gs)
    note c = this
    have "(i, n, None) \<in> set (g_sent s')" if h: ok "i \<in> set (g_enq s)" "out names s' i = 0" for i
    proof -
      from c ph have e: "set (g_enq s) \<subseteq> {..<length names}"
        "ok \<longrightarrow> (\<forall>i\<in>set (g_enq s). out names s i = 0 \<longrightarrow> (i, n, None) \<in> set (g_sent s))" by (simp_all add: phase_def)
      with h have "out names s i = 0" using out [of i] by auto
      with e h sub show ?thesis by blast
    qed
    with Collecting ph frame all out sum show ?thesis by (simp add: phase_def)
  qed (use ph frame all out quiet sub worker_not_done [OF assms(1)] assms(3) in \<open>auto simp: phase_def\<close>)
  with worker_plumbing [OF assms(1,3) opn pl] show ?thesis by (simp add: dinv_def)
qed

section \<open>Steps of the dispatcher\<close>

lemmas counts_cong = unsent_def unread_def out_def sends_def quiet_def

lemma is_result_upd [simp]:
  "is_result names (s\<lparr>d_pc := pc\<rparr>) = is_result names s" "is_result names (s\<lparr>d_store := st\<rparr>) = is_result names s"
  "is_result names (s\<lparr>d_cancelled := c\<rparr>) = is_result names s" "is_result names (s\<lparr>d_queue := q\<rparr>) = is_result names s"
  "is_result names (s\<lparr>d_results := rs\<rparr>) = is_result names s" "is_result names (s\<lparr>g_enq := es\<rparr>) = is_result names s"
  by (simp_all add: fun_eq_iff is_result_def)

lemma counts_upd [simp]:
  "unsent (s\<lparr>d_pc := pc\<rparr>) = unsent s" "sends (s\<lparr>d_pc := pc\<rparr>) = sends s"
  "out names (s\<lparr>d_pc := pc\<rparr>) = out names s" "quiet names (s\<lparr>d_pc := pc\<rparr>) = quiet names s"
  "all_of names (s\<lparr>d_pc := pc\<rparr>) n = all_of names s n"
  "unsent (s\<lparr>d_store := st\<rparr>) = unsent s" "sends (s\<lparr>d_store := st\<rparr>) = sends s"
  "out names (s\<lparr>d_store := st\<rparr>) = out names s" "quiet names (s\<lparr>d_store := st\<rparr>) = quiet names s"
  "all_of names (s\<lparr>d_store := st\<rparr>) n = all_of names s n"
  "unsent (s\<lparr>d_cancelled := c\<rparr>) = unsent s" "sends (s\<lparr>d_cancelled := c\<rparr>) = sends s"
  "out names (s\<lparr>d_cancelled := c\<rparr>) = out names s" "quiet names (s\<lparr>d_cancelled := c\<rparr>) = quiet names s"
  "all_of names (s\<lparr>d_cancelled := c\<rparr>) n = all_of names s n"
  by (simp_all add: fun_eq_iff counts_cong all_of_def mine_def cong: wstate.case_cong)

lemma env_dinv [simp]:
  "dinv names cfg (s\<lparr>d_cancelled := c\<rparr>) = dinv names cfg s" "dinv names cfg (s\<lparr>d_store := st\<rparr>) = dinv names cfg s"
  by (simp_all add: dinv_def phase_def plumbing_def wired_def cong: dpc.case_cong)

lemma plumbing_pc:
  assumes "plumbing names cfg s" "d_pc s \<noteq> NotStarted" "d_pc s \<noteq> Waiting" "active pc" "active (d_pc s)" "shutting (d_pc s) \<longrightarrow> shutting pc"
  shows "plumbing names cfg (s\<lparr>d_pc := pc\<rparr>)"
  using assms by (auto simp: plumbing_def wired_def active_def unsent_def sends_def)

lemma init_dinv: "dinv names cfg (NewDispatcher st)"
  by (simp add: dinv_def phase_def plumbing_def wired_def NewDispatcher_def counts_cong member_def no_queue_def
      queue_ok_def active_def shutting_def)

lemma quiet_start: "quiet names s \<Longrightarrow> i < length names \<Longrightarrow> unsent s i = 0 \<and> unread names s i = 0"
  by (simp add: quiet_def out_def)

lemma quiet_channel:
  assumes "quiet names s" "i < length names"
  shows "q_ch (d_queue s i) = []" "\<And>n. d_worker s i \<noteq> WSend n" "\<And>r. d_worker s i \<noteq> WPut r"
  using assms by (auto simp: quiet_def counts_cong split: wstate.splits)

lemma run_dinv:
  assumes "dinv names cfg s" "distinct names" "d_pc s = NotStarted" "valid_config cfg"
  shows "dinv names cfg (Run_start names cfg s)"
proof -
  from assms(4) have "0 < dc_BatchSize cfg" by (simp add: valid_config_def)
  then have "0 \<le> int (length names) * dc_BatchSize cfg" by simp
  with assms(4) have ok: "0 \<le> result_cap names cfg" "0 < dc_QueueSize cfg" "0 < dc_PollInterval cfg"
    unfolding valid_config_def result_cap_def by linarith+
  from assms(1,3) have q: "quiet names s" and pl: "plumbing names cfg s" by (simp_all add: dinv_def phase_def)
  have res: "d_results s = []" by (rule quiet_no_results [OF assms(2) pl q])
  have w: "wired names cfg (Run_start names cfg s) i" if i: "i < length names" for i
  proof -
    from pl i have "wired names cfg s i" by (simp add: plumbing_def)
    then have "sends s i = member (g_enq s) i"
      using quiet_start [OF q i] by (simp add: wired_def)
    with i ok show ?thesis
      by (simp add: Run_start_def wired_def counts_cong NewQueue_def queue_ok_def)
  qed
  have "quiet names (Run_start names cfg s)"
    unfolding quiet_def using res ok assms(4) by (simp add: Run_start_def counts_cong NewQueue_def valid_config_def)
  moreover have "d_pc (Run_start names cfg s) = Idle" "d_running (Run_start names cfg s)"
    "d_results (Run_start names cfg s) = []" "d_resClosed (Run_start names cfg s) = d_resClosed s"
    using ok res by (simp_all add: Run_start_def)
  ultimately show ?thesis
    using w pl assms(3) by (simp add: dinv_def phase_def plumbing_def active_def)
qed

lemma poll_dinv:
  assumes "dinv names cfg s" "d_pc s = Idle"
  shows "dinv names cfg (poll_step names got s)"
proof (cases "poll_step names got s = s")
  case False
  then obtain gs where s': "poll_step names got s = s\<lparr>d_pc := Dispatch gs\<rparr>" "names \<noteq> []"
    by (auto simp: poll_step_def split: sum.splits if_splits)
  have "plumbing names cfg (s\<lparr>d_pc := Dispatch gs\<rparr>)"
    by (rule plumbing_pc) (use assms in \<open>auto simp: dinv_def active_def shutting_def\<close>)
  with s' assms show ?thesis by (simp add: dinv_def phase_def counts_cong)
qed (use assms in simp)

lemma dispatch_dinv:
  assumes "dinv names cfg s" "distinct names" "s' \<in> set (dispatch_step names now s)"
  shows "dinv names cfg s'"
proof -
  from assms(3) obtain gs where pc: "d_pc s = Dispatch gs" by (cases "d_pc s") (auto simp: dispatch_step.simps)
  with assms(1) have q: "quiet names s" and ne: "names \<noteq> []" and pl: "plumbing names cfg s"
    by (simp_all add: dinv_def phase_def)
  show ?thesis
  proof (cases gs)
    case Nil
    with assms(3) pc have s': "s' = s\<lparr>d_pc := Idle\<rparr>" by (simp add: dispatch_step.simps)
    have "plumbing names cfg s'"
      unfolding s' by (rule plumbing_pc [OF pl]) (simp_all add: pc active_def shutting_def)
    with s' q show ?thesis by (simp add: dinv_def phase_def counts_cong)
  next
    case (Cons g gs')
    let ?n = "NewNotification now g"
    from Cons assms(3) pc have s': "s' = s\<lparr>d_pc := Fanout ?n [0..<length names] 0 gs', g_enq := [], g_sent := []\<rparr>"
      by (simp add: dispatch_step.simps)
    have res: "d_results s = []" by (rule quiet_no_results [OF assms(2) pl q])
    have q': "quiet names s'" using q by (simp add: s' counts_cong)
    have all: "all_of names s' ?n"
      using quiet_channel [OF q] res by (auto simp: s' all_of_def mine_def split: wstate.split)
    have w: "wired names cfg s' i" if i: "i < length names" for i
    proof -
      from pl i have "wired names cfg s i" by (simp add: plumbing_def)
      with quiet_start [OF q i] show ?thesis
        by (auto simp: wired_def s' counts_cong pc member_def shutting_def)
    qed
    with pl have "plumbing names cfg s'" by (simp add: plumbing_def s' pc active_def)
    moreover from all q' ne have "phase names s'"
      by (auto simp: phase_def s' quiet_def member_def)
    ultimately show ?thesis by (simp add: dinv_def)
  qed
qed

lemma mark_dinv:
  assumes "dinv names cfg s" "s' \<in> set (mark_step mark s)"
  shows "dinv names cfg s'"
proof -
  from assms(2) obtain n gs where pc: "d_pc s = Marking n gs"
    and s': "s' = s\<lparr>d_pc := Dispatch gs, d_store := snd (mark (nGroupKey n) (d_store s))\<rparr>"
    by (cases "d_pc s") (auto simp: mark_step.simps)
  with assms(1) have ph: "quiet names s" "names \<noteq> []" and pl: "plumbing names cfg s"
    by (auto simp: dinv_def phase_def)
  have "plumbing names cfg (s\<lparr>d_pc := Dispatch gs\<rparr>)"
    by (rule plumbing_pc [OF pl]) (simp_all add: pc active_def shutting_def)
  with ph have "dinv names cfg (s\<lparr>d_pc := Dispatch gs\<rparr>)" by (simp add: dinv_def phase_def)
  then show ?thesis unfolding s' by (simp only: env_dinv)
qed


lemma sum_one: "finite A \<Longrightarrow> j \<in> A \<Longrightarrow> (\<And>i. i \<in> A \<Longrightarrow> f i = f' i + (if i = j then 1 else 0 :: nat)) \<Longrightarrow> sum f A = Suc (sum f' A)"
  by (simp add: sum.distrib)

lemma sum_member: "distinct xs \<Longrightarrow> set xs \<subseteq> {..<n} \<Longrightarrow> (\<Sum>i<n. member xs i) = length xs"
proof (induction xs)
  case (Cons x xs)
  then show ?case by (subst sum_one [where j = x and f' = "member xs"]) (auto simp: member_def)
qed (simp add: member_def)

lemma enqueued_dinv:
  assumes "dinv names cfg s" "d_pc s = Fanout n (i # todo) k gs" "(None, q) \<in> set (Enqueue ctx n (d_queue s i))"
  shows "dinv names cfg (s\<lparr>d_pc := Fanout n todo (Suc k) gs, d_queue := (d_queue s)(i := q), g_enq := g_enq s @ [i]\<rparr>)"
    (is "dinv names cfg ?s'")
proof -
  from assms(1,2) have ph: "names \<noteq> []" "all_of names s n" "k = length (g_enq s)" "distinct (g_enq s @ i # todo)"
      "set (g_enq s @ i # todo) \<subseteq> {..<length names}" "\<And>j. j < length names \<Longrightarrow> out names s j = member (g_enq s) j"
    and pl: "plumbing names cfg s" by (auto simp: dinv_def phase_def)
  from ph(5) have i: "i < length names" by simp
  with pl have w: "wired names cfg s i" by (simp add: plumbing_def)
  then have "queue_ok (d_queue s i)" by (simp add: wired_def)
  note q = notify_queue.enqueue_ok [OF this assms(3)]
  have cnt: "unsent ?s' j = unsent s j + (if j = i then 1 else 0)" "sends ?s' j = sends s j"
    "unread names ?s' j = unread names s j" for j
    using q by (simp_all add: counts_cong)
  have mem: "member (g_enq s @ [i]) j = member (g_enq s) j + (if j = i then 1 else 0)" for j
    using ph(4) by (auto simp: member_def)
  have "all_of names ?s' n"
    using ph(2) q by (auto simp: all_of_def mine_def cong: wstate.case_cong)
  moreover have "\<forall>j<length names. out names ?s' j = member (g_enq ?s') j"
    using ph(6) mem by (simp add: out_def cnt)
  ultimately have "phase names ?s'"
    using ph by (simp add: phase_def)
  moreover have "wired names cfg ?s' j" if "j < length names" for j
  proof -
    from pl that have "wired names cfg s j" by (simp add: plumbing_def)
    with q mem [of j] cnt [of j] assms(2) show ?thesis by (auto simp: wired_def shutting_def)
  qed
  ultimately show ?thesis using pl assms(2) by (simp add: dinv_def plumbing_def active_def)
qed

lemma fanout_dinv:
  assumes "dinv names cfg s" "distinct names" "s' \<in> set (fanout_step names ctx s)"
  shows "dinv names cfg s'"
proof -
  from assms(3) obtain n todo k gs where pc: "d_pc s = Fanout n todo k gs"
    by (cases "d_pc s") (auto simp: fanout_step.simps)
  with assms(1) have ph: "names \<noteq> []" "all_of names s n" "k = length (g_enq s)" "distinct (g_enq s @ todo)"
      "set (g_enq s @ todo) \<subseteq> {..<length names}" "\<forall>j<length names. out names s j = member (g_enq s) j"
    and pl: "plumbing names cfg s" by (auto simp: dinv_def phase_def)
  have move: "plumbing names cfg (s\<lparr>d_pc := pc'\<rparr>)" if "active pc'" for pc'
    by (rule plumbing_pc [OF pl]) (use that pc in \<open>simp_all add: active_def shutting_def\<close>)
  show ?thesis
  proof (cases todo)
    case (Cons i todo')
    with ph(5) have "queue_index names (names ! i) = i" using queue_index_nth [OF assms(2)] by simp
    with assms(3) Cons pc consider
        (ok) q where "(None, q) \<in> set (Enqueue ctx n (d_queue s i))"
          "s' = s\<lparr>d_pc := Fanout n todo' (Suc k) gs, d_queue := (d_queue s)(i := q), g_enq := g_enq s @ [i]\<rparr>"
      | (failed) "s' = s\<lparr>d_pc := Fanout n todo' k gs\<rparr>"
      by (auto simp: fanout_step.simps Let_def split: option.splits)
    then show ?thesis
    proof cases
      case ok
      with enqueued_dinv [OF assms(1)] pc Cons show ?thesis by blast
    next
      case failed
      with ph Cons move [of "Fanout n todo' k gs"] show ?thesis by (simp add: dinv_def phase_def active_def)
    qed
  next
    case Nil
    with assms(3) pc have s': "s' = s\<lparr>d_pc := (if k = 0 then Dispatch gs else Collecting n k True gs)\<rparr>"
      by (simp add: fanout_step.simps)
    show ?thesis
    proof (cases "k = 0")
      case True
      with ph have "quiet names s" by (simp add: quiet_def member_def)
      with True s' ph(1) move [of "Dispatch gs"] show ?thesis by (simp add: dinv_def phase_def active_def)
    next
      case False
      have "k = (\<Sum>i<length names. out names s i)"
        using ph sum_member [of "g_enq s" "length names"] Nil by simp
      moreover have "\<forall>i\<in>set (g_enq s). out names s i \<noteq> 0"
        using ph by (auto simp: member_def)
      moreover have "s' = s\<lparr>d_pc := Collecting n k True gs\<rparr>" "g_enq s \<noteq> []" using False s' ph(3) by auto
      moreover have "\<forall>j<length names. out names s j \<le> member (g_enq s) j" using ph(6) by simp
      ultimately show ?thesis
        using ph(2,5) move [of "Collecting n k True gs"] by (auto simp: dinv_def phase_def active_def)
    qed
  qed
qed


lemma receive_dinv:
  assumes "dinv names cfg s" "distinct names" "d_pc s = Collecting n (Suc k) ok gs" "d_results s = r # rs"
  shows "dinv names cfg (s\<lparr>d_results := rs, d_pc := Collecting n k (if sr_Err r \<noteq> None then False else ok) gs\<rparr>)"
    (is "dinv names cfg ?s'")
proof -
  from assms(1,3) have all: "all_of names s n" and enq: "g_enq s \<noteq> []" "set (g_enq s) \<subseteq> {..<length names}"
    and le: "\<forall>i<length names. out names s i \<le> member (g_enq s) i" and sum: "Suc k = (\<Sum>i<length names. out names s i)"
    and ok: "ok \<Longrightarrow> i \<in> set (g_enq s) \<Longrightarrow> out names s i = 0 \<Longrightarrow> (i, n, None) \<in> set (g_sent s)"
    and pl: "plumbing names cfg s" for i by (auto simp: dinv_def phase_def)
  from all assms(4) obtain j where j: "j < length names" "is_result names s n j r" by (auto simp: all_of_def)
  have out: "out names s i = out names ?s' i + (if i = j then 1 else 0)" if "i < length names" for i
    using that j assms(2,4) by (simp add: counts_cong is_result_def nth_eq_iff_index_eq)
  have sum': "k = (\<Sum>i<length names. out names ?s' i)"
    using sum sum_one [of "{..<length names}" j "out names s" "out names ?s'"] out j(1) by simp
  have le': "\<forall>i<length names. out names ?s' i \<le> member (g_enq s) i"
  proof (intro allI impI)
    fix i assume "i < length names"
    with le out [of i] show "out names ?s' i \<le> member (g_enq s) i" by (metis add_leD1)
  qed
  have ok': "(i, n, None) \<in> set (g_sent s)"
    if "(if sr_Err r \<noteq> None then False else ok)" "i \<in> set (g_enq s)" "out names ?s' i = 0" for i
  proof (cases "i = j")
    case True
    with that j(2) show ?thesis by (auto simp: is_result_def split: if_splits)
  next
    case False
    from that(2) enq(2) have "i < length names" by auto
    with out [of i] that(3) False have "out names s i = 0" by simp
    with ok that(1,2) show ?thesis by (auto split: if_splits)
  qed
  have all': "all_of names ?s' n"
    using all assms(4) by (auto simp: all_of_def mine_def cong: wstate.case_cong)
  have "phase names ?s'"
    using all' enq le' sum' ok' by (simp add: phase_def)
  moreover have "plumbing names cfg ?s'"
    using pl assms(3,4) by (auto simp: plumbing_def wired_def counts_cong active_def shutting_def)
  ultimately show ?thesis by (simp add: dinv_def)
qed

lemma collect_dinv:
  assumes "dinv names cfg s" "distinct names" "s' \<in> set (collect_step s)"
  shows "dinv names cfg s'"
proof -
  from assms(3) obtain n k ok gs where pc: "d_pc s = Collecting n k ok gs"
    by (cases "d_pc s") (auto simp: collect_step.simps)
  show ?thesis
  proof (cases k)
    case (Suc k')
    with assms(3) pc obtain r rs where "d_results s = r # rs"
      "s' = s\<lparr>d_results := rs, d_pc := Collecting n k' (if sr_Err r \<noteq> None then False else ok) gs\<rparr>"
      by (cases "d_results s") (auto simp: collect_step.simps)
    with receive_dinv [OF assms(1,2)] pc Suc show ?thesis by blast
  next
    case 0
    with assms(3) pc have s': "s' = s\<lparr>d_pc := (if \<not> ok then Dispatch gs else Marking n gs)\<rparr>"
      by (simp add: collect_step.simps)
    from assms(1) pc 0 have quiet: "quiet names s" and pl: "plumbing names cfg s"
      and enq: "g_enq s \<noteq> []" "set (g_enq s) \<subseteq> {..<length names}"
      and ok: "ok \<Longrightarrow> i \<in> set (g_enq s) \<Longrightarrow> out names s i = 0 \<Longrightarrow> (i, n, None) \<in> set (g_sent s)" for i
      by (auto simp: dinv_def phase_def quiet_def)
    have "\<forall>i\<in>set (g_enq s). (i, n, None) \<in> set (g_sent s)" if ok
      using that enq(2) quiet ok unfolding quiet_def by blast
    moreover from enq have "names \<noteq> []" by (cases names) auto
    moreover have "plumbing names cfg s'"
      unfolding s' by (rule plumbing_pc [OF pl]) (simp_all add: pc active_def shutting_def)
    ultimately show ?thesis using s' quiet enq by (simp add: dinv_def phase_def)
  qed
qed

lemma shutdown_dinv:
  assumes "dinv names cfg s" "distinct names" "s' \<in> set (shutdown_step names js s)"
  shows "dinv names cfg s'"
proof -
  from assms(1) have ph: "phase names s" and pl: "plumbing names cfg s" by (simp_all add: dinv_def)
  show ?thesis
  proof (cases "d_pc s")
    case Idle
    with assms(3) have js: "mset js = mset [0..<length names]" and s': "s' = s\<lparr>d_pc := Closing js\<rparr>"
      using queue_indices [OF assms(2)] by (auto simp: shutdown_step.simps split: if_splits)
    from js have "set js = {0..<length names}" by (metis set_mset_mset set_upt)
    moreover have "plumbing names cfg s'"
      unfolding s' by (rule plumbing_pc [OF pl]) (simp_all add: Idle active_def shutting_def)
    ultimately show ?thesis using s' ph Idle by (simp add: dinv_def phase_def)
  next
    case (Closing ks)
    show ?thesis
    proof (cases ks)
      case Nil
      with assms(3) Closing have s': "s' = s\<lparr>d_pc := Waiting\<rparr>" by (simp add: shutdown_step.simps)
      have "plumbing names cfg s'"
        unfolding s' by (rule plumbing_pc [OF pl]) (simp_all add: Closing active_def shutting_def)
      with s' ph Closing Nil show ?thesis by (simp add: dinv_def phase_def)
    next
      case (Cons j ks')
      with assms(3) Closing have s': "s' = s\<lparr>d_pc := Closing ks', d_queue := (d_queue s)(j := Close (d_queue s j))\<rparr>"
        by (simp add: shutdown_step.simps)
      have cnt: "unsent s' i = unsent s i" "sends s' i = sends s i" "out names s' i = out names s i" for i
        by (simp_all add: s' counts_cong Close_def)
      have "wired names cfg s' i" if "i < length names" for i
      proof -
        from pl that have "wired names cfg s i" by (simp add: plumbing_def)
        with cnt [of i] Closing show ?thesis
          by (auto simp: wired_def s' Close_def queue_ok_def shutting_def)
      qed
      with pl Closing have "plumbing names cfg s'" by (simp add: plumbing_def s' active_def)
      moreover have "phase names s'"
        using ph Closing Cons cnt by (auto simp: phase_def s' quiet_def Close_def)
      ultimately show ?thesis by (simp add: dinv_def)
    qed
  next
    case Waiting
    from ph Waiting have q: "quiet names s" by (simp add: phase_def)
    note none = quiet_no_results [OF assms(2) pl q]
    show ?thesis
    proof (cases "d_resClosed s")
      case False
      with assms(3) Waiting have fin: "\<forall>i<length names. d_worker s i = WDone" and s': "s' = s\<lparr>d_resClosed := True\<rparr>"
        by (auto simp: shutdown_step.simps split: if_splits)
      from q have "quiet names s'" by (simp add: s' counts_cong)
      moreover have "plumbing names cfg s'"
        using pl Waiting fin by (auto simp: plumbing_def wired_def s' counts_cong active_def shutting_def)
      ultimately show ?thesis using ph Waiting s' by (simp add: dinv_def phase_def)
    next
      case True
      with pl have fin: "\<forall>i<length names. d_worker s i = WDone" by (simp add: plumbing_def)
      from assms(3) Waiting True none have s': "s' = s\<lparr>d_pc := Stopped, d_running := False\<rparr>"
        by (simp add: shutdown_step.simps)
      from q have "quiet names s'" by (simp add: s' counts_cong)
      moreover have "plumbing names cfg s'"
        using pl Waiting True by (auto simp: plumbing_def wired_def s' counts_cong active_def shutting_def)
      ultimately show ?thesis using fin s' by (simp add: dinv_def phase_def)
    qed
  qed (use assms(3) in \<open>simp_all add: shutdown_step.simps\<close>)
qed

lemma dreach_dinv:
  assumes "dreach names cfg get_pending mark_sent save arrives st0 s" "distinct names" "valid_config cfg"
  shows "dinv names cfg s"
  using assms(1)
proof (induction rule: dreach.induct)
  case init
  show ?case by (rule init_dinv)
next
  case (step s s')
  from step.hyps(2) show ?case
  proof (cases rule: dstep.cases)
    case run
    with run_dinv step.IH assms(2,3) show ?thesis by blast
  next
    case (poll e)
    with poll_dinv step.IH show ?thesis by blast
  next
    case (dispatch now)
    with dispatch_dinv step.IH assms(2) show ?thesis by blast
  next
    case (fanout ctx)
    with fanout_dinv step.IH assms(2) show ?thesis by blast
  next
    case collect
    with collect_dinv step.IH assms(2) show ?thesis by blast
  next
    case (mark e)
    with mark_dinv step.IH show ?thesis by blast
  next
    case (shutdown js)
    with shutdown_dinv step.IH assms(2) show ?thesis by blast
  next
    case (worker i ret)
    with worker_dinv step.IH assms(2) show ?thesis by blast
  qed (use step.IH in simp_all)
qed

section \<open>The store behind the dispatcher\<close>

context alert_store begin

lemma dreach_store_inv:
  assumes "dreach names cfg get_pending mark_sent save arrives st0 s" "inv st0" "\<And>g. arrives g \<Longrightarrow> storable g"
  shows "inv (d_store s)"
  using assms(1)
proof (induction rule: dreach.induct)
  case init
  with assms(2) show ?case by (simp add: NewDispatcher_def)
next
  case (step s s')
  from step.hyps(2) show ?case
  proof (cases rule: dstep.cases)
    case run
    with step.IH show ?thesis by (simp add: Run_start_def)
  next
    case (poll e)
    with step.IH show ?thesis by (simp add: poll_step_def split: sum.split)
  next
    case (dispatch now)
    with step.IH show ?thesis by (cases "d_pc s") (auto simp: dispatch_step.simps split: list.splits)
  next
    case (fanout ctx)
    with step.IH show ?thesis
      by (cases "d_pc s") (auto simp: fanout_step.simps Let_def split: list.splits option.splits)
  next
    case collect
    with step.IH show ?thesis by (cases "d_pc s") (auto simp: collect_step.simps split: list.splits nat.splits)
  next
    case (mark e)
    then show ?thesis
      using mark_sent_inv [OF step.IH surjective_pairing] by (cases "d_pc s") (auto simp: mark_step.simps)
  next
    case (shutdown js)
    with step.IH show ?thesis by (cases "d_pc s") (auto simp: shutdown_step.simps split: list.splits if_splits)
  next
    case (worker i ret)
    with step.IH show ?thesis by (cases rule: worker_cases [OF worker(2)]) (auto simp: worker_step.simps)
  next
    case (webhook g e)
    then show ?thesis using save_inv [OF step.IH assms(3) surjective_pairing] by simp
  qed (use step.IH in simp)
qed

lemma pend_drop:
  assumes "dstep names cfg get_pending mark_sent save arrives s s'" "inv (d_store s)" "\<And>g. arrives g \<Longrightarrow> storable g"
    and "pend (d_store s) k = Some g" "pend (d_store s') k = None"
  shows "\<exists>n gs. d_pc s = Marking n gs \<and> nGroupKey n = k"
  using assms(1)
proof (cases rule: dstep.cases)
  case run
  with assms(4,5) show ?thesis by (simp add: Run_start_def split: if_splits)
next
  case (poll e)
  with assms(4,5) show ?thesis by (simp add: poll_step_def split: sum.splits if_splits)
next
  case (dispatch now)
  with assms(4,5) show ?thesis by (cases "d_pc s") (auto simp: dispatch_step.simps split: list.splits)
next
  case (fanout ctx)
  with assms(4,5) show ?thesis
    by (cases "d_pc s") (auto simp: fanout_step.simps Let_def split: list.splits option.splits)
next
  case collect
  with assms(4,5) show ?thesis by (cases "d_pc s") (auto simp: collect_step.simps split: list.splits nat.splits)
next
  case (mark e)
  then obtain n gs where "d_pc s = Marking n gs" "d_store s' = snd (mark_sent e (nGroupKey n) (d_store s))"
    by (cases "d_pc s") (auto simp: mark_step.simps)
  with mark_sent_frame [OF assms(2) surjective_pairing, of k] assms(4,5) show ?thesis by fastforce
next
  case (shutdown js)
  with assms(4,5) show ?thesis by (cases "d_pc s") (auto simp: shutdown_step.simps split: list.splits if_splits)
next
  case (worker i ret)
  with assms(4,5) show ?thesis by (cases rule: worker_cases [OF worker(2)]) (auto simp: worker_step.simps)
next
  case (webhook g' e)
  obtain r st where sv: "save e g' (d_store s) = (r, st)" by (meson surj_pair)
  show ?thesis
  proof (cases r)
    case None
    with save_ok [OF assms(2) assms(3) sv [unfolded None]] webhook assms(4,5) sv show ?thesis
      by (auto split: if_splits)
  next
    case (Some err)
    with save_err [OF sv [unfolded Some]] webhook assms(4,5) sv show ?thesis by simp
  qed
qed (use assms(4,5) in simp)

end

section \<open>Properties\<close>

text \<open>What was done for the notification \<open>n\<close> when it is about to be marked as sent.\<close>

definition delivered_to :: "string list \<Rightarrow> 's dstate \<Rightarrow> notification \<Rightarrow> bool" where
  "delivered_to names s n \<longleftrightarrow>
     g_enq s \<noteq> [] \<and> set (g_enq s) \<subseteq> {..<length names}
     \<and> (\<forall>i<length names. filter (\<lambda>x. fst x = i) (g_sent s) = (if i \<in> set (g_enq s) then [(i, n, None)] else []))"

lemma marking_delivered:
  assumes "dinv names cfg s" "d_pc s = Marking n gs"
  shows "delivered_to names s n"
proof -
  from assms have q: "quiet names s" and e: "g_enq s \<noteq> []" "set (g_enq s) \<subseteq> {..<length names}"
    and ok: "\<forall>i\<in>set (g_enq s). (i, n, None) \<in> set (g_sent s)"
    and w: "\<And>i. i < length names \<Longrightarrow> unsent s i + sends s i = member (g_enq s) i"
    by (auto simp: dinv_def phase_def plumbing_def wired_def)
  have "filter (\<lambda>x. fst x = i) (g_sent s) = (if i \<in> set (g_enq s) then [(i, n, None)] else [])" if i: "i < length names" for i
  proof (cases "i \<in> set (g_enq s)")
    case True
    with w [OF i] quiet_start [OF q i] have "length (filter (\<lambda>x. fst x = i) (g_sent s)) = 1"
      by (simp add: sends_def member_def)
    then obtain x where x: "filter (\<lambda>x. fst x = i) (g_sent s) = [x]" by (auto simp: length_Suc_conv)
    moreover from ok True have "(i, n, None) \<in> set (filter (\<lambda>x. fst x = i) (g_sent s))" by simp
    ultimately show ?thesis using True by simp
  next
    case False
    with w [OF i] quiet_start [OF q i] show ?thesis by (simp add: sends_def member_def)
  qed
  with e show ?thesis by (simp add: delivered_to_def)
qed

text \<open>C2: While the dispatcher, its workers and webhook requests run in any interleaving, a pending group stops
  being pending in one way only: the dispatcher marks it after a notification with its key was enqueued
  to at least one channel, each channel that took it called \<open>Send\<close> for it exactly once, and all those
  sends succeeded.  So a failed delivery always leaves the group pending.\<close>

theorem pending_only_dropped_after_delivery:
  assumes "dreach names cfg (GetPending unmarshal) MarkSent (Save marshal) arrives d0 s"
    and "distinct names" "valid_config cfg" "db_wf unmarshal d0" "\<And>g. arrives g \<Longrightarrow> storable marshal unmarshal g"
    and "dstep names cfg (GetPending unmarshal) MarkSent (Save marshal) arrives s s'"
    and "pending_map unmarshal (d_store s) k = Some g" "pending_map unmarshal (d_store s') k = None"
  shows "\<exists>n gs. d_pc s = Marking n gs \<and> nGroupKey n = k \<and> delivered_to names s n"
proof -
  from sqlite_store.dreach_store_inv [OF assms(1,4,5)] have "db_wf unmarshal (d_store s)" by simp
  from sqlite_store.pend_drop [OF assms(6) this assms(5,7,8)]
  obtain n gs where "d_pc s = Marking n gs" "nGroupKey n = k" by blast
  with marking_delivered [OF dreach_dinv [OF assms(1-3)]] show ?thesis by blast
qed

lemma demo_valid: "valid_config demo_config" "distinct two_channels"
  by (simp_all add: valid_config_def demo_config_def two_channels_def)

definition good_state :: "alert_group db dstate" where
  "good_state = the (demo_run good_schedule sample_db)"

lemma good_state:
  "dreach two_channels demo_config (GetPending Some) MarkSent (Save Some) (\<lambda>_. True) sample_db good_state"
  "d_pc good_state = Marking demo_note []" "d_store good_state = sample_db"
  using good_run run_dreach by (fastforce simp: good_state_def)+

definition marked_state :: "alert_group db dstate" where
  "marked_state = good_state\<lparr>d_pc := Dispatch [], d_store := snd (MarkSent ok_env ''k1'' sample_db)\<rparr>"

lemma marked_step:
  "dstep two_channels demo_config (GetPending Some) MarkSent (Save Some) (\<lambda>_. True) good_state marked_state"
  by (rule dstep.mark [of _ _ ok_env]) (simp add: mark_step.simps good_state marked_state_def sample_key)

lemma sample_pending: "pending_map Some sample_db ''k1'' = Some sample_group"
  by (simp add: pending_map_def sample_db_def group_row_of_def sample_group_def is_pending_def)

theorem pending_only_dropped_after_delivery_witness:
  "\<exists>n gs. d_pc good_state = Marking n gs \<and> nGroupKey n = ''k1'' \<and> delivered_to two_channels good_state n"
  by (rule pending_only_dropped_after_delivery [OF good_state(1) demo_valid(2,1) sample_db_wf _ marked_step,
        where g = sample_group])
    (simp_all add: good_state sample_pending marked_state_def marked_sample)

text \<open>C22: The results the collecting loop receives are the right ones: in every reachable state whatever is in
  the result channel answers the notification in hand (the branch that logs a key mismatch is never
  taken), there are never more results than the loop still expects, and outside the loop there are none;
  no goroutine ever panics.\<close>

theorem results_belong_to_current:
  assumes "dreach names cfg get_pending mark_sent save arrives st0 s" "distinct names" "valid_config cfg"
  shows "d_pc s \<noteq> Crashed
    \<and> (\<forall>n k ok gs. d_pc s = Collecting n k ok gs \<longrightarrow>
          length (d_results s) \<le> k \<and> (\<forall>r\<in>set (d_results s). sr_GroupKey r = nGroupKey n))
    \<and> (d_pc s \<in> {Idle, Waiting, Stopped} \<longrightarrow> d_results s = [])"
proof -
  from dreach_dinv [OF assms] have ph: "phase names s" and pl: "plumbing names cfg s" by (simp_all add: dinv_def)
  have "length (d_results s) \<le> k \<and> (\<forall>r\<in>set (d_results s). sr_GroupKey r = nGroupKey n)"
    if "d_pc s = Collecting n k ok gs" for n k ok gs
    using results_le_out [OF assms(2) pl] ph that by (auto simp: phase_def all_of_def is_result_def)
  moreover have "d_results s = []" if "d_pc s \<in> {Idle, Waiting, Stopped}"
    using quiet_no_results [OF assms(2) pl] ph that by (auto simp: phase_def)
  ultimately show ?thesis using ph by (auto simp: phase_def)
qed

lemma collect_run:
  "\<exists>s. demo_run (take 12 good_schedule) sample_db = Some s \<and> d_pc s = Collecting demo_note 2 True [] \<and> d_results s \<noteq> []"
  by (simp add: good_schedule_def run_simps two_channels_def demo_config_def poll_sample demo_note_def Let_def)

definition collect_state :: "alert_group db dstate" where
  "collect_state = the (demo_run (take 12 good_schedule) sample_db)"

lemma collect_state:
  "dreach two_channels demo_config (GetPending Some) MarkSent (Save Some) (\<lambda>_. True) sample_db collect_state"
  "d_pc collect_state = Collecting demo_note 2 True []" "d_results collect_state \<noteq> []"
  using collect_run run_dreach by (fastforce simp: collect_state_def)+

theorem results_belong_to_current_witness:
  "d_pc collect_state \<noteq> Crashed \<and> length (d_results collect_state) \<le> 2
   \<and> (\<exists>r\<in>set (d_results collect_state). sr_GroupKey r = nGroupKey demo_note)"
  using results_belong_to_current [OF collect_state(1) demo_valid(2,1)] collect_state(2,3)
  by (cases "d_results collect_state") auto

text \<open>The dispatcher is giving out a notification or waiting for the results of one.\<close>

fun in_fanout :: "dpc \<Rightarrow> bool" where
  "in_fanout (Fanout n todo k gs) \<longleftrightarrow> True"
| "in_fanout (Collecting n k ok gs) \<longleftrightarrow> True"
| "in_fanout _ \<longleftrightarrow> False"

text \<open>C11: Nothing is left behind, and a shutdown throws nothing away.  Whenever the dispatcher is through with a
  notification - so after every single fan-out, and all through a shutdown - all queues and the result channel
  are empty, no worker has anything in its hands, and each channel has sent that notification exactly
  once if its queue had accepted it, and not at all if not.  So the loop that drains the closed result
  channel never finds a result, and when \<open>Run\<close> has returned, every worker has returned, every queue is
  closed and the readiness check fails.\<close>

theorem shutdown_is_clean:
  assumes "dreach names cfg get_pending mark_sent save arrives st0 s" "distinct names" "valid_config cfg"
  shows "(\<not> in_fanout (d_pc s) \<longrightarrow> d_results s = []
      \<and> (\<forall>i<length names. q_ch (d_queue s i) = [] \<and> (\<forall>n. d_worker s i \<noteq> WSend n) \<and> (\<forall>r. d_worker s i \<noteq> WPut r)
            \<and> length (filter (\<lambda>x. fst x = i) (g_sent s)) = (if i \<in> set (g_enq s) then 1 else 0)))
    \<and> (d_resClosed s \<longrightarrow> d_results s = [] \<and> (\<forall>i<length names. d_worker s i = WDone))
    \<and> (d_pc s = Stopped \<longrightarrow> (\<forall>i<length names. d_worker s i = WDone \<and> q_closed (d_queue s i)) \<and> fst (dispatcher_Check s) \<noteq> None)"
proof -
  from dreach_dinv [OF assms] have ph: "phase names s" and pl: "plumbing names cfg s" by (simp_all add: dinv_def)
  have quiet: "quiet names s" if "\<not> in_fanout (d_pc s)" using ph that by (cases "d_pc s") (simp_all add: phase_def)
  have sent: "sends s i = member (g_enq s) i" if "quiet names s" "i < length names" for i
  proof -
    from pl that(2) have "wired names cfg s i" by (simp add: plumbing_def)
    with quiet_start [OF that] show ?thesis by (simp add: wired_def)
  qed
  have closed: "d_resClosed s \<longrightarrow> \<not> in_fanout (d_pc s) \<and> (\<forall>i<length names. d_worker s i = WDone)"
    using pl by (auto simp: plumbing_def)
  have stopped: "(\<forall>i<length names. d_worker s i = WDone \<and> q_closed (d_queue s i)) \<and> \<not> d_running s" if "d_pc s = Stopped"
    using ph pl that by (simp add: phase_def plumbing_def wired_def active_def)
  show ?thesis
    using quiet quiet_no_results [OF assms(2) pl] quiet_channel [of names s] sent closed stopped
    by (auto simp: sends_def member_def dispatcher_Check_def)
qed

definition stop_schedule :: "env choice list" where
  "stop_schedule =
     [CRun, CCancel, CShutdown [1, 0], CShutdown [], CShutdown [], CShutdown [],
      CWorker 0 None 0, CWorker 1 None 0, CWorker 0 None 0, CWorker 1 None 0, CShutdown [], CShutdown []]"

lemma stop_run: "\<exists>s. demo_run stop_schedule sample_db = Some s \<and> d_pc s = Stopped"
  by (simp add: stop_schedule_def run_simps two_channels_def demo_config_def Let_def less_Suc_eq numeral_2_eq_2)

definition stop_state :: "alert_group db dstate" where
  "stop_state = the (demo_run stop_schedule sample_db)"

lemma stop_state:
  "dreach two_channels demo_config (GetPending Some) MarkSent (Save Some) (\<lambda>_. True) sample_db stop_state"
  "d_pc stop_state = Stopped"
  using stop_run run_dreach by (fastforce simp: stop_state_def)+

lemma good_state_enq: "g_enq good_state = [0, 1]"
  using good_run by (auto simp: good_state_def)

theorem shutdown_is_clean_witness:
  "length (filter (\<lambda>x. fst x = 1) (g_sent good_state)) = 1 \<and> d_results stop_state = [] \<and> fst (dispatcher_Check stop_state) \<noteq> None"
proof (intro conjI)
  note good = shutdown_is_clean [OF good_state(1) demo_valid(2,1), THEN conjunct1]
  have "1 < length two_channels" by (simp add: two_channels_def)
  with good good_state_enq good_state(2) show "length (filter (\<lambda>x. fst x = 1) (g_sent good_state)) = 1" by simp
  note stop = shutdown_is_clean [OF stop_state(1) demo_valid(2,1)]
  from stop [THEN conjunct1] stop_state(2) show "d_results stop_state = []" by simp
  from stop [THEN conjunct2] stop_state(2) show "fst (dispatcher_Check stop_state) \<noteq> None" by blast
qed

end
