(* ===== verification/DispatcherLiveness.thy ===== *)
theory DispatcherLiveness imports DispatcherSafety begin

text \<open>
  Between two polls the dispatcher and its workers come to an end: a measure of the work ahead that every
  step of theirs decreases, and the proof that none of them is ever stuck before the work is done.
\<close>

section \<open>Termination\<close>

fun todo :: "wstate \<Rightarrow> nat" where
  "todo WNew = 0"
| "todo WTry = 2"
| "todo WWait = 1"
| "todo (WSend n) = 4"
| "todo (WPut r) = 3"
| "todo WDone = 0"

definition backlog :: "'s dstate \<Rightarrow> nat \<Rightarrow> nat" where
  "backlog s i = 4 * length (q_ch (d_queue s i)) + todo (d_worker s i)"

fun ahead :: "nat \<Rightarrow> dpc \<Rightarrow> nat" where
  "ahead m NotStarted = 0"
| "ahead m Idle = m + 3"
| "ahead m (Dispatch gs) = m + 4 + (8 * m + 4) * length gs"
| "ahead m (Fanout n us k gs) = m + 5 + (8 * m + 4) * length gs + 7 * length us + 2 * k + 1"
| "ahead m (Collecting n k ok gs) = m + 5 + (8 * m + 4) * length gs + k + 1"
| "ahead m (Marking n gs) = m + 5 + (8 * m + 4) * length gs"
| "ahead m (Closing js) = length js + 2"
| "ahead m Waiting = 1"
| "ahead m Stopped = 0"
| "ahead m Crashed = 0"

definition work :: "string list \<Rightarrow> 's dstate \<Rightarrow> nat" where
  "work names s = (\<Sum>i<length names. backlog s i) + ahead (length names) (d_pc s) + (if d_resClosed s then 0 else 1)"


text \<open>The steps of the program's own goroutines between two polls.\<close>

inductive istep ::
  "string list \<Rightarrow> dispatcher_config \<Rightarrow> ('e \<Rightarrow> string \<Rightarrow> 's \<Rightarrow> goerr option \<times> 's) \<Rightarrow> 's dstate \<Rightarrow> 's dstate \<Rightarrow> bool"
  for names cfg mark_sent where
  dispatch: "s' \<in> set (dispatch_step names now s) \<Longrightarrow> istep names cfg mark_sent s s'"
| fanout: "(d_cancelled s \<longrightarrow> ctx \<noteq> None) \<Longrightarrow> s' \<in> set (fanout_step names ctx s) \<Longrightarrow> istep names cfg mark_sent s s'"
| collect: "s' \<in> set (collect_step s) \<Longrightarrow> istep names cfg mark_sent s s'"
| mark: "s' \<in> set (mark_step (mark_sent e) s) \<Longrightarrow> istep names cfg mark_sent s s'"
| shutdown: "s' \<in> set (shutdown_step names js s) \<Longrightarrow> istep names cfg mark_sent s s'"
| worker: "i < length names \<Longrightarrow> s' \<in> set (worker_step names cfg i ret s) \<Longrightarrow> istep names cfg mark_sent s s'"

lemma istep_dstep: "istep names cfg mark_sent s s' \<Longrightarrow> dstep names cfg get_pending mark_sent save arrives s s'"
  by (induction rule: istep.induct) (blast intro: dstep.intros)+

lemma istep_dinv:
  "istep names cfg mark_sent s s' \<Longrightarrow> distinct names \<Longrightarrow> dinv names cfg s \<Longrightarrow> dinv names cfg s'"
  by (induction rule: istep.induct)
    (blast intro: dispatch_dinv fanout_dinv collect_dinv mark_dinv shutdown_dinv worker_dinv)+

lemma work_worker:
  assumes "s' \<in> set (worker_step names cfg i ret s)" "i < length names" "d_resClosed s = False"
  shows "work names s' < work names s"
proof -
  have less: "backlog s' i < backlog s i"
    using assms(1) by (cases rule: worker_cases) (auto simp: backlog_def assms(3))
  have same: "backlog s' j = backlog s j" if "j \<noteq> i" for j
    using worker_others [OF assms(1,3) that] by (simp add: backlog_def)
  have "(\<Sum>j<length names. backlog s' j) < (\<Sum>j<length names. backlog s j)"
    by (rule sum_strict_mono_ex1) (use less same assms(2) in \<open>auto, metis less_imp_le order_refl\<close>)
  with worker_frame [OF assms(1,3)] assms(3) show ?thesis by (simp add: work_def)
qed

lemma backlog_pc [simp]: "backlog (s\<lparr>d_pc := pc\<rparr>) = backlog s"
  by (simp add: fun_eq_iff backlog_def)

lemma work_fanout:
  assumes "s' \<in> set (fanout_step names ctx s)" "distinct names" "dinv names cfg s"
  shows "work names s' < work names s"
proof -
  from assms(1) obtain n us k gs where pc: "d_pc s = Fanout n us k gs"
    by (cases "d_pc s") (auto simp: fanout_step.simps)
  show ?thesis
  proof (cases us)
    case Nil
    with assms(1) pc show ?thesis by (auto simp: fanout_step.simps work_def)
  next
    case (Cons i us')
    with assms(3) pc have i: "i < length names" by (auto simp: dinv_def phase_def)
    with assms(1) Cons pc queue_index_nth [OF assms(2) i] consider
        (ok) q where "(None, q) \<in> set (Enqueue ctx n (d_queue s i))"
          "s' = s\<lparr>d_pc := Fanout n us' (Suc k) gs, d_queue := (d_queue s)(i := q), g_enq := g_enq s @ [i]\<rparr>"
      | (failed) "s' = s\<lparr>d_pc := Fanout n us' k gs\<rparr>"
      by (auto simp: fanout_step.simps Let_def split: option.splits)
    then show ?thesis
    proof cases
      case ok
      from assms(3) i have "queue_ok (d_queue s i)" by (simp add: dinv_def plumbing_def wired_def)
      from notify_queue.enqueue_ok [OF this ok(1)]
      have "backlog s' j = backlog s j + (if j = i then 4 else 0)" for j by (simp add: backlog_def ok(2))
      then have "(\<Sum>j<length names. backlog s' j) = (\<Sum>j<length names. backlog s j) + 4"
        using i by (simp add: sum.distrib)
      with Cons pc ok(2) show ?thesis by (simp add: work_def)
    next
      case failed
      with Cons pc show ?thesis by (simp add: work_def)
    qed
  qed
qed

lemma work_cong: "d_queue s' = d_queue s \<Longrightarrow> d_worker s' = d_worker s \<Longrightarrow> d_resClosed s' = d_resClosed s \<Longrightarrow> ahead (length names) (d_pc s') < ahead (length names) (d_pc s)
    \<Longrightarrow> work names s' < work names s"
  by (simp add: work_def backlog_def)

lemma istep_work:
  assumes "istep names cfg mark_sent s s'" "distinct names" "dinv names cfg s"
  shows "work names s' < work names s"
  using assms(1)
proof (cases rule: istep.cases)
  case (dispatch now)
  then show ?thesis
    by (cases "d_pc s") (auto simp: dispatch_step.simps algebra_simps intro!: work_cong split: list.splits)
next
  case (fanout ctx)
  with work_fanout assms(2,3) show ?thesis by blast
next
  case collect
  then show ?thesis
    by (cases "d_pc s") (auto simp: collect_step.simps intro!: work_cong split: nat.splits list.splits)
next
  case (mark e)
  then show ?thesis by (cases "d_pc s") (auto simp: mark_step.simps intro!: work_cong)
next
  case (shutdown js)
  show ?thesis
  proof (cases "d_pc s")
    case Idle
    with shutdown have "mset js = mset [0..<length names]" "s' = s\<lparr>d_pc := Closing js\<rparr>"
      using queue_indices [OF assms(2)] by (auto simp: shutdown_step.simps split: if_splits)
    then show ?thesis using Idle mset_eq_length [of js "[0..<length names]"] by (intro work_cong) simp_all
  next
    case (Closing ks)
    have "backlog (s\<lparr>d_pc := pc, d_queue := (d_queue s)(j := Close (d_queue s j))\<rparr>) i = backlog s i" for pc j i
      by (simp add: backlog_def Close_def)
    with shutdown Closing show ?thesis by (cases ks) (auto simp: shutdown_step.simps work_def)
  next
    case Waiting
    with assms(3) have "d_results s = []"
      using quiet_no_results [OF assms(2)] by (auto simp: dinv_def phase_def)
    with shutdown Waiting show ?thesis
      by (auto simp: shutdown_step.simps work_def backlog_def split: if_splits)
  qed (use shutdown in \<open>simp_all add: shutdown_step.simps\<close>)
next
  case (worker i ret)
  with work_worker [OF worker(2,1) worker_open [OF worker(2,1) assms(3)]] show ?thesis by simp
qed

lemma isteps_work:
  "(istep names cfg mark_sent ^^ k) s s' \<Longrightarrow> distinct names \<Longrightarrow> dinv names cfg s \<Longrightarrow>
     dinv names cfg s' \<and> k + work names s' \<le> work names s"
proof (induction k arbitrary: s')
  case (Suc k)
  then obtain s1 where s1: "(istep names cfg mark_sent ^^ k) s s1" "istep names cfg mark_sent s1 s'" by auto
  with Suc have ih: "dinv names cfg s1" "k + work names s1 \<le> work names s" by simp_all
  from istep_work [OF s1(2) Suc.prems(2) ih(1)] ih(2) istep_dinv [OF s1(2) Suc.prems(2) ih(1)] show ?case by simp
qed simp


section \<open>No deadlock\<close>

lemma out_le_one:
  assumes "dinv names cfg s" "i < length names"
  shows "out names s i \<le> 1"
proof -
  have "out names s i \<le> member (g_enq s) i \<or> out names s i = 0"
    using assms by (cases "d_pc s") (auto simp: dinv_def phase_def quiet_def)
  then show ?thesis by (auto simp: member_def split: if_splits)
qed

lemma result_room:
  assumes "dinv names cfg s" "distinct names" "valid_config cfg" "i < length names" "d_worker s i = WPut r"
  shows "d_resClosed s = False \<and> int (length (d_results s)) < result_cap names cfg"
proof
  have "\<not> quiet names s" using assms(4,5) quiet_channel(3) by blast
  with assms(1) show "d_resClosed s = False" by (auto simp: dinv_def plumbing_def phase_def)
  have "length (d_results s) = (\<Sum>i<length names. length (filter (\<lambda>r. sr_Channel r = names ! i) (d_results s)))"
    using assms(1,2) by (simp add: dinv_def plumbing_def length_results_out)
  also have "\<dots> \<le> (\<Sum>i<length names. out names s i)"
    by (rule sum_mono) (simp add: out_def unread_def)
  also have "\<dots> \<le> (\<Sum>i<length names. 1)"
    by (rule sum_mono) (use out_le_one [OF assms(1)] in simp)
  finally have "int (length (d_results s)) \<le> int (length names)" by simp
  moreover have "int (length names) * 1 \<le> int (length names) * dc_BatchSize cfg"
    using assms(3) by (intro mult_left_mono) (simp_all add: valid_config_def)
  ultimately show "int (length (d_results s)) < result_cap names cfg" by (simp add: result_cap_def)
qed

lemma nonempty_step: "xs \<noteq> [] \<Longrightarrow> (\<And>x. x \<in> set xs \<Longrightarrow> P x) \<Longrightarrow> \<exists>x. P x"
  by (meson list.set_sel(1))

text \<open>A worker that has something to do can take a step, once its channel's \<open>Send\<close> has returned if it is in one.\<close>

lemma worker_can:
  assumes "dinv names cfg s" "distinct names" "valid_config cfg" "i < length names"
    and "0 < unsent s i \<or> (\<exists>r. d_worker s i = WPut r) \<or> d_worker s i = WTry
         \<or> (d_worker s i = WWait \<and> q_closed (d_queue s i))"
  shows "worker_step names cfg i (Some res) s \<noteq> [] \<or> d_worker s i = WNew \<or> d_worker s i = WDone"
proof (cases "d_worker s i")
  case WTry
  then show ?thesis
    by (cases "q_ch (d_queue s i)") (simp_all add: worker_step.simps Dequeue_try_def)
next
  case WWait
  from assms(1,4) have "queue_ok (d_queue s i)" by (simp add: dinv_def plumbing_def wired_def)
  with WWait assms(5) show ?thesis
    by (cases "q_ch (d_queue s i)")
      (auto simp: worker_step.simps Dequeue_wait_def Dequeue_try_def unsent_def queue_ok_def)
next
  case (WPut r)
  with result_room [OF assms(1-4)] show ?thesis by (simp add: worker_step.simps)
qed (simp_all add: worker_step.simps)

lemma busy_worker_steps:
  assumes "dinv names cfg s" "distinct names" "valid_config cfg" "i < length names" "\<not> shutting (d_pc s)" "d_pc s \<noteq> NotStarted"
    and "0 < unsent s i \<or> (\<exists>r. d_worker s i = WPut r)"
  shows "worker_step names cfg i (Some res) s \<noteq> []"
proof -
  from assms(1,4,5,6) have "d_worker s i \<noteq> WNew" "d_worker s i \<noteq> WDone"
    by (auto simp: dinv_def plumbing_def wired_def)
  with worker_can [OF assms(1-4)] assms(7) show ?thesis by blast
qed

lemma collect_ready:
  assumes "dinv names cfg s" "distinct names" "valid_config cfg" "d_pc s = Collecting n k ok gs"
  shows "collect_step s \<noteq> [] \<or> (\<exists>i<length names. worker_step names cfg i (Some None) s \<noteq> [])"
proof (cases "k = 0 \<or> d_results s \<noteq> []")
  case True
  with assms(4) have "collect_step s \<noteq> []"
    by (cases k; cases "d_results s") (simp_all add: collect_step.simps)
  then show ?thesis ..
next
  case False
  with assms(1,4) have "(\<Sum>i<length names. out names s i) \<noteq> 0" by (auto simp: dinv_def phase_def)
  then obtain i where i: "i < length names" "out names s i \<noteq> 0" by (auto simp: sum_eq_0_iff)
  with False have "0 < unsent s i \<or> (\<exists>r. d_worker s i = WPut r)"
    by (auto simp: out_def unread_def split: wstate.splits)
  with busy_worker_steps [OF assms(1-3) i(1)] assms(4) i(1) show ?thesis by (simp add: shutting_def) blast
qed

lemma enqueue_can: "queue_ok q \<Longrightarrow> Enqueue (Some e) n q \<noteq> []"
  by (simp add: Enqueue_def Enqueue_select_def)

section \<open>Sends that do not return\<close>

text \<open>
  \<open>hangs i n\<close>: the call of channel \<open>i\<close>'s \<open>Send\<close> for \<open>n\<close> never returns.  \<open>live_step\<close> has the steps that are then
  possible, those in which each worker in such a call stays in it, and \<open>hung\<close> says that there is one.
\<close>

definition hung :: "string list \<Rightarrow> (nat \<Rightarrow> notification \<Rightarrow> bool) \<Rightarrow> 's dstate \<Rightarrow> bool" where
  "hung names hangs s \<longleftrightarrow> (\<exists>i<length names. \<exists>n. d_worker s i = WSend n \<and> hangs i n)"

definition still_hung :: "(nat \<Rightarrow> notification \<Rightarrow> bool) \<Rightarrow> 's dstate \<Rightarrow> 's dstate \<Rightarrow> bool" where
  "still_hung hangs s s' \<longleftrightarrow> (\<forall>i n. d_worker s i = WSend n \<and> hangs i n \<longrightarrow> d_worker s' i = WSend n)"

definition live_step ::
  "string list \<Rightarrow> dispatcher_config \<Rightarrow> ('e \<Rightarrow> string \<Rightarrow> 's \<Rightarrow> goerr option \<times> 's) \<Rightarrow> (nat \<Rightarrow> notification \<Rightarrow> bool)
   \<Rightarrow> 's dstate \<Rightarrow> 's dstate \<Rightarrow> bool" where
  "live_step names cfg mark_sent hangs s s' \<longleftrightarrow> istep names cfg mark_sent s s' \<and> still_hung hangs s s'"

lemma live_all_return: "live_step names cfg mark_sent (\<lambda>_ _. False) = istep names cfg mark_sent"
  by (simp add: fun_eq_iff live_step_def still_hung_def)

lemma never_hung: "\<not> hung names (\<lambda>_ _. False) s"
  by (simp add: hung_def)

lemma live_dispatcher: "istep names cfg mark_sent s s' \<Longrightarrow> d_worker s' = d_worker s \<Longrightarrow> live_step names cfg mark_sent hangs s s'"
  by (simp add: live_step_def still_hung_def)

lemma dispatcher_workers:
  "s' \<in> set (dispatch_step names now s) \<Longrightarrow> d_worker s' = d_worker s"
  "s' \<in> set (fanout_step names ctx s) \<Longrightarrow> d_worker s' = d_worker s"
  "s' \<in> set (collect_step s) \<Longrightarrow> d_worker s' = d_worker s"
  "s' \<in> set (mark_step mark s) \<Longrightarrow> d_worker s' = d_worker s"
  "s' \<in> set (shutdown_step names js s) \<Longrightarrow> d_worker s' = d_worker s"
  subgoal by (cases "d_pc s") (auto simp: dispatch_step.simps split: list.splits)
  subgoal by (cases "d_pc s") (auto simp: fanout_step.simps Let_def split: list.splits option.splits)
  subgoal by (cases "d_pc s") (auto simp: collect_step.simps split: list.splits nat.splits)
  subgoal by (cases "d_pc s") (auto simp: mark_step.simps)
  subgoal by (cases "d_pc s") (auto simp: shutdown_step.simps split: list.splits if_splits)
  done

lemma live_worker:
  assumes "worker_step names cfg i (Some res) s \<noteq> []" "i < length names" "dinv names cfg s"
  shows "(\<exists>s'. live_step names cfg mark_sent hangs s s') \<or> hung names hangs s"
proof (cases "hung names hangs s")
  case False
  from assms(1) obtain s' where s': "s' \<in> set (worker_step names cfg i (Some res) s)" by (meson list.set_sel(1))
  have "still_hung hangs s s'"
    unfolding still_hung_def
  proof (intro allI impI, elim conjE)
    fix j n assume h: "d_worker s j = WSend n" "hangs j n"
    with False assms(2) have "j \<noteq> i" by (auto simp: hung_def)
    with worker_others [OF s' worker_open [OF s' assms(2,3)]] h(1) show "d_worker s' j = WSend n" by simp
  qed
  with istep.worker [OF assms(2) s'] show ?thesis by (auto simp: live_step_def)
qed simp

lemma internal_progress:
  assumes "dinv names cfg s" "distinct names" "valid_config cfg" "d_pc s \<notin> {NotStarted, Idle, Stopped}"
  shows "(\<exists>s'. live_step names cfg mark_sent hangs s s') \<or> hung names hangs s"
proof (cases "d_pc s")
  case (Dispatch gs)
  then have "dispatch_step names zero_time s \<noteq> []" by (cases gs) (simp_all add: dispatch_step.simps)
  then show ?thesis using live_dispatcher [OF istep.dispatch dispatcher_workers(1)] by (meson list.set_sel(1))
next
  case (Fanout n us k gs)
  have "fanout_step names (Some (Sentinel ErrDeadlineExceeded)) s \<noteq> []"
  proof (cases us)
    case (Cons i us')
    with assms(1) Fanout have i: "i < length names" by (auto simp: dinv_def phase_def)
    with assms(1) have "queue_ok (d_queue s i)" by (simp add: dinv_def plumbing_def wired_def)
    with Fanout Cons enqueue_can queue_index_nth [OF assms(2) i] show ?thesis
      by (simp add: fanout_step.simps Let_def)
  qed (simp add: Fanout fanout_step.simps)
  then obtain s' where s': "s' \<in> set (fanout_step names (Some (Sentinel ErrDeadlineExceeded)) s)" by (meson list.set_sel(1))
  from live_dispatcher [OF istep.fanout [OF _ s'] dispatcher_workers(2) [OF s']] show ?thesis by blast
next
  case (Collecting n k ok gs)
  from collect_ready [OF assms(1-3) this] show ?thesis
  proof
    assume "collect_step s \<noteq> []"
    then show ?thesis using live_dispatcher [OF istep.collect dispatcher_workers(3)] by (meson list.set_sel(1))
  next
    assume "\<exists>i<length names. worker_step names cfg i (Some None) s \<noteq> []"
    with live_worker [OF _ _ assms(1)] show ?thesis by blast
  qed
next
  case (Marking n gs)
  have "mark_step (mark_sent undefined) s \<noteq> []" by (simp add: Marking mark_step.simps)
  then show ?thesis using live_dispatcher [OF istep.mark dispatcher_workers(4)] by (meson list.set_sel(1))
next
  case (Closing js)
  then have "shutdown_step names [] s \<noteq> []" by (cases js) (simp_all add: shutdown_step.simps)
  then show ?thesis using live_dispatcher [OF istep.shutdown dispatcher_workers(5)] by (meson list.set_sel(1))
next
  case Waiting
  show ?thesis
  proof (cases "\<forall>i<length names. d_worker s i = WDone")
    case True
    with Waiting have "shutdown_step names [] s \<noteq> []" by (simp add: shutdown_step.simps split: list.split)
    then show ?thesis using live_dispatcher [OF istep.shutdown dispatcher_workers(5)] by (meson list.set_sel(1))
  next
    case False
    then obtain i where i: "i < length names" "d_worker s i \<noteq> WDone" by blast
    from assms(1) Waiting i(1) have q: "quiet names s" "q_closed (d_queue s i)" "d_worker s i \<noteq> WNew"
      by (auto simp: dinv_def phase_def plumbing_def wired_def)
    with quiet_channel [OF q(1) i(1)] i have "d_worker s i = WTry \<or> d_worker s i = WWait" by (cases "d_worker s i") auto
    with worker_can [OF assms(1-3) i(1), of None] q i(2) have "worker_step names cfg i (Some None) s \<noteq> []" by blast
    then show ?thesis by (rule live_worker [OF _ i(1) assms(1)])
  qed
next
  case Crashed
  with assms(1) show ?thesis by (simp add: dinv_def phase_def)
qed (use assms(4) in simp_all)

lemma shutdown_can:
  assumes "dinv names cfg s" "distinct names" "d_pc s = Idle" "d_cancelled s"
  shows "\<exists>s'. live_step names cfg mark_sent hangs s s'"
proof -
  have "shutdown_step names [0..<length names] s \<noteq> []"
    using assms(3,4) queue_indices [OF assms(2)] by (simp add: shutdown_step.simps)
  then show ?thesis using live_dispatcher [OF istep.shutdown dispatcher_workers(5)] by (meson list.set_sel(1))
qed

lemma istep_cancelled: "istep names cfg mark_sent s s' \<Longrightarrow> distinct names \<Longrightarrow> dinv names cfg s \<Longrightarrow> d_cancelled s' = d_cancelled s"
proof (induction rule: istep.induct)
  case (worker i s' ret s)
  with worker_frame worker_open show ?case by metis
next
  case (fanout s ctx s')
  then show ?case by (cases "d_pc s") (auto simp: fanout_step.simps Let_def split: list.splits option.splits)
next
  case (dispatch s' now s)
  then show ?case by (cases "d_pc s") (auto simp: dispatch_step.simps split: list.splits)
next
  case (collect s' s)
  then show ?case by (cases "d_pc s") (auto simp: collect_step.simps split: list.splits nat.splits)
next
  case (mark s' e s)
  then show ?case by (cases "d_pc s") (auto simp: mark_step.simps)
next
  case (shutdown s' js s)
  then show ?case by (cases "d_pc s") (auto simp: shutdown_step.simps split: list.splits if_splits)
qed

lemma isteps_cancelled:
  "(istep names cfg mark_sent ^^ k) s s' \<Longrightarrow> distinct names \<Longrightarrow> dinv names cfg s \<Longrightarrow> d_cancelled s' = d_cancelled s"
proof (induction k arbitrary: s')
  case (Suc k)
  then obtain s1 where s1: "(istep names cfg mark_sent ^^ k) s s1" "istep names cfg mark_sent s1 s'" by auto
  with Suc isteps_work [OF s1(1) Suc.prems(2,3)] istep_cancelled [OF s1(2) Suc.prems(2)] show ?case by simp
qed simp

text \<open>C5: The dispatcher comes to rest, unless a channel's \<open>Send\<close> does not return.  Let \<open>hangs\<close> say for which
  notifications a channel's \<open>Send\<close> never returns.  From any reachable state the dispatcher and its workers,
  left to themselves, take at most \<open>work names s\<close> further steps, whatever the sends return and however
  long the queues are full; and they stop only where they should - waiting for the next tick if the
  context is live, and with \<open>Run\<close> returned if it is cancelled - or where a worker is in a \<open>Send\<close> that never
  returns.  So if all sends return, nothing hangs; nothing else is assumed of the sends.\<close>

theorem dispatcher_never_hangs:
  assumes "dreach names cfg get_pending mark_sent save arrives st0 s" "distinct names" "valid_config cfg"
    and "(istep names cfg mark_sent ^^ k) s s'"
  shows "k \<le> work names s
    \<and> ((\<nexists>s''. live_step names cfg mark_sent hangs s' s'') \<longrightarrow>
         d_pc s' \<in> {NotStarted, Idle, Stopped} \<and> (d_cancelled s \<longrightarrow> d_pc s' \<noteq> Idle)
         \<or> (\<exists>i<length names. \<exists>n. d_worker s' i = WSend n \<and> hangs i n))"
proof -
  note i = dreach_dinv [OF assms(1-3)]
  from isteps_work [OF assms(4,2) i] have d: "dinv names cfg s'" and k: "k \<le> work names s" by simp_all
  have c: "d_cancelled s' = d_cancelled s" by (rule isteps_cancelled [OF assms(4,2) i])
  have "d_pc s' \<in> {NotStarted, Idle, Stopped} \<and> (d_cancelled s \<longrightarrow> d_pc s' \<noteq> Idle)"
    if "\<nexists>s''. live_step names cfg mark_sent hangs s' s''" "\<not> hung names hangs s'"
    using internal_progress [OF d assms(2,3)] shutdown_can [OF d assms(2)] c that by blast
  with k show ?thesis unfolding hung_def by blast
qed

theorem dispatcher_never_hangs_witness: "1 \<le> work two_channels good_state"
proof -
  have "istep two_channels demo_config MarkSent good_state marked_state"
    by (rule istep.mark [of _ _ ok_env]) (simp add: mark_step.simps good_state marked_state_def sample_key)
  then have "(istep two_channels demo_config MarkSent ^^ 1) good_state marked_state" by auto
  with dispatcher_never_hangs [OF good_state(1) demo_valid(2,1)] show ?thesis by blast
qed

text \<open>A worker is never stuck with work in its hands once its channel's \<open>Send\<close> has returned: there is room
  for the result in the result channel, which is not closed, so every notification a queue holds and
  every result a worker holds moves on.\<close>

lemma worker_never_blocked:
  assumes "dreach names cfg get_pending mark_sent save arrives st0 s" "distinct names" "valid_config cfg"
    and "i < length names" "d_worker s i = WPut r \<or> q_ch (d_queue s i) \<noteq> [] \<or> (\<exists>n. d_worker s i = WSend n)"
  shows "(d_worker s i = WPut r \<longrightarrow> int (length (d_results s)) < result_cap names cfg \<and> \<not> d_resClosed s)
         \<and> worker_step names cfg i (Some res) s \<noteq> []"
proof -
  note inv = dreach_dinv [OF assms(1-3)]
  have "\<not> quiet names s" using assms(4,5) quiet_channel [of names s i] by blast
  with inv have pc: "\<not> shutting (d_pc s)" "d_pc s \<noteq> NotStarted"
    by (auto simp: dinv_def phase_def shutting_def)
  with inv assms(4) have "d_worker s i \<noteq> WNew" "d_worker s i \<noteq> WDone"
    by (auto simp: dinv_def plumbing_def wired_def)
  moreover from assms(5) have "0 < unsent s i \<or> (\<exists>r. d_worker s i = WPut r)"
    by (auto simp: unsent_def)
  ultimately have "worker_step names cfg i (Some res) s \<noteq> []"
    using worker_can [OF inv assms(2,3,4)] by blast
  with result_room [OF inv assms(2,3,4)] show ?thesis by blast
qed

end
