(* ===== verification/StoreLifecycle.thy ===== *)
theory StoreLifecycle imports Calls begin

text \<open>
  Opening and closing the SQLite store (\<open>internal/storage/sqlite/store.go\<close>: \<open>ConfigurePragmas\<close>, \<open>New\<close>,
  \<open>Close\<close>) as calls on \<open>database/sql\<close>.  The log lines of \<open>New\<close> are calls too, because they carry the
  data source name; logging never fails, so its answer is ignored.
\<close>

datatype db_call =
    LogDSN string string
  | OpenDB string
  | SetMaxOpenConns int
  | ExecPragma string
  | WalCheckpoint
  | CloseDB

definition pragmas :: "string list" where
  "pragmas = [''journal_mode=WAL'', ''foreign_keys=ON'', ''busy_timeout=5000'', ''synchronous=NORMAL'']"

fun pragma_loop :: "(db_call, 'w) calls \<Rightarrow> string list \<Rightarrow> 'w \<Rightarrow> goerr option \<times> 'w" where
  "pragma_loop call [] = (\<lambda>w. (None, w))"
| "pragma_loop call (p # ps) = try_call call (ExecPragma (''PRAGMA '' @ p)) [Lit ''sqlite pragma '', Str p] (pragma_loop call ps)"

definition ConfigurePragmas :: "(db_call, 'w) calls \<Rightarrow> 'w \<Rightarrow> goerr option \<times> 'w" where
  "ConfigurePragmas call = pragma_loop call pragmas"

definition sqlite_New :: "(db_call, 'w) calls \<Rightarrow> string \<Rightarrow> 'w \<Rightarrow> goerr option \<times> 'w" where
  "sqlite_New call dsn w =
     (let (_, w) = call (LogDSN ''opening SQLite database'' dsn) w
      in case call (OpenDB dsn) w of
           (Some err, w) \<Rightarrow> (Some (Errorf [Lit ''sqlite open''] err), w)
         | (None, w) \<Rightarrow>
             (let (_, w) = call (SetMaxOpenConns 1) w
              in case ConfigurePragmas call w of
                   (Some err, w) \<Rightarrow> (let (_, w) = call CloseDB w in (Some err, w))
                 | (None, w) \<Rightarrow> (let (_, w) = call (LogDSN ''SQLite store initialized'' dsn) w in (None, w))))"

definition sqlite_Close :: "(db_call, 'w) calls \<Rightarrow> 'w \<Rightarrow> goerr option \<times> 'w" where
  "sqlite_Close call w = (let (_, w) = call WalCheckpoint w in call CloseDB w)"

section \<open>What reaches the driver\<close>

definition pragma_script :: "string list \<Rightarrow> (('w \<Rightarrow> db_call) \<times> fmtpart list) list" where
  "pragma_script ps = map (\<lambda>p. (\<lambda>_. ExecPragma (''PRAGMA '' @ p), [Lit ''sqlite pragma '', Str p])) ps"

lemma pragma_loop_script: "pragma_loop call ps = run_script call (pragma_script ps)"
proof (induction ps)
  case Nil
  show ?case by (rule ext) (simp add: pragma_script_def)
next
  case (Cons p ps)
  then show ?case by (simp add: pragma_script_def run_script_const)
qed

lemma follows_pragmas:
  "follows calls (pragma_script ps) \<Longrightarrow> prefix (map fst calls) (map (\<lambda>p. ExecPragma (''PRAGMA '' @ p)) ps)"
proof (induction ps arbitrary: calls)
  case (Cons p ps)
  then show ?case by (cases calls) (auto simp: pragma_script_def)
next
  case Nil
  then show ?case by (cases calls) (simp_all add: pragma_script_def)
qed

definition pragma_calls :: "db_call list" where
  "pragma_calls = map (\<lambda>p. ExecPragma (''PRAGMA '' @ p)) pragmas"

lemma ConfigurePragmas_trace:
  fixes w :: 'w
  assumes "ConfigurePragmas (recording call) (w, tr) = (res, w')"
  shows "\<exists>calls. snd w' = tr @ calls \<and> prefix (map fst calls) pragma_calls
    \<and> (if res = None then map fst calls = pragma_calls \<and> accepted calls else \<not> accepted calls)"
proof -
  let ?s = "pragma_script pragmas :: (('w \<times> (db_call \<times> goerr option) list \<Rightarrow> db_call) \<times> fmtpart list) list"
  from run_script_trace [OF assms [unfolded ConfigurePragmas_def pragma_loop_script]] obtain calls where
    calls: "snd w' = tr @ calls" "follows calls ?s" "script_result ?s calls res" by blast
  from follows_pragmas [OF calls(2)] have p: "prefix (map fst calls) pragma_calls" by (simp only: pragma_calls_def)
  have "length ?s = length pragma_calls" by (simp add: pragma_script_def pragma_calls_def)
  from script_result_accepted [OF calls(3) this p] script_result_failed [OF calls(3)]
  have "if res = None then map fst calls = pragma_calls \<and> accepted calls else \<not> accepted calls" by presburger
  with calls(1) p show ?thesis by blast
qed

text \<open>C29: Opening the store gives a store only after every pragma was set, in order, on a pool limited to one
  connection; when one is refused the database is closed again, so no failed start leaves it open.\<close>

theorem store_opens_or_closes:
  assumes "sqlite_New (recording call) dsn (w, []) = (res, (w', tr))"
  shows "(\<exists>r e. tr = [(LogDSN ''opening SQLite database'' dsn, r), (OpenDB dsn, Some e)] \<and> res \<noteq> None)
    \<or> (\<exists>r r1 calls last. tr = (LogDSN ''opening SQLite database'' dsn, r) # (OpenDB dsn, None) # (SetMaxOpenConns 1, r1) # calls @ [last]
          \<and> prefix (map fst calls) pragma_calls
          \<and> (if res = None then map fst calls = pragma_calls \<and> accepted calls \<and> fst last = LogDSN ''SQLite store initialized'' dsn
             else \<not> accepted calls \<and> fst last = CloseDB))"
proof -
  obtain r w1 where 1: "call (LogDSN ''opening SQLite database'' dsn) w = (r, w1)" by (meson surj_pair)
  obtain e w2 where 2: "call (OpenDB dsn) w1 = (e, w2)" by (meson surj_pair)
  show ?thesis
  proof (cases e)
    case (Some err)
    with assms 1 2 show ?thesis by (auto simp: sqlite_New_def recording_def)
  next
    case None
    obtain r1 w3 where 3: "call (SetMaxOpenConns 1) w2 = (r1, w3)" by (meson surj_pair)
    let ?tr = "[(LogDSN ''opening SQLite database'' dsn, r), (OpenDB dsn, None), (SetMaxOpenConns 1, r1)]"
    obtain res' w4 where 4: "ConfigurePragmas (recording call) (w3, ?tr) = (res', w4)" by (meson surj_pair)
    from ConfigurePragmas_trace [OF 4] obtain calls where
      calls: "snd w4 = ?tr @ calls" "prefix (map fst calls) pragma_calls"
        "if res' = None then map fst calls = pragma_calls \<and> accepted calls else \<not> accepted calls"
      by blast
    obtain last where last: "tr = ?tr @ calls @ [last]" "res = res'"
        "fst last = (if res' = None then LogDSN ''SQLite store initialized'' dsn else CloseDB)"
      using assms 1 2 3 4 None calls(1)
      by (cases res') (auto simp: sqlite_New_def recording_def split: prod.splits)
    with calls show ?thesis
      by (intro disjI2 exI [of _ r] exI [of _ r1] exI [of _ calls] exI [of _ last]) (simp split: if_splits)
  qed
qed

definition locked_db :: "(db_call, unit) calls" where
  "locked_db c w = (if c = ExecPragma ''PRAGMA foreign_keys=ON'' then Some (Foreign ''locked'') else None, w)"

theorem store_opens_or_closes_witness:
  "\<exists>res tr. sqlite_New (recording locked_db) ''f'' ((), []) = (res, ((), tr)) \<and> res \<noteq> None
     \<and> (\<exists>r r1 calls last. tr = (LogDSN ''opening SQLite database'' ''f'', r) # (OpenDB ''f'', None) # (SetMaxOpenConns 1, r1) # calls @ [last]
          \<and> prefix (map fst calls) pragma_calls \<and> \<not> accepted calls \<and> fst last = CloseDB)"
proof -
  have run: "sqlite_New (recording locked_db) ''f'' ((), []) =
      (Some (Errorf [Lit ''sqlite pragma '', Str ''foreign_keys=ON''] (Foreign ''locked'')),
       ((), [(LogDSN ''opening SQLite database'' ''f'', None), (OpenDB ''f'', None), (SetMaxOpenConns 1, None),
             (ExecPragma ''PRAGMA journal_mode=WAL'', None), (ExecPragma ''PRAGMA foreign_keys=ON'', Some (Foreign ''locked'')),
             (CloseDB, None)]))"
    by (simp add: sqlite_New_def recording_def locked_db_def ConfigurePragmas_def pragmas_def try_call_def)
  from store_opens_or_closes [OF run] run show ?thesis by auto
qed

text \<open>Closing always closes the database, whether or not the checkpoint succeeded, and reports what that gave.\<close>

lemma sqlite_Close_trace:
  "sqlite_Close (recording call) (w, []) = (res, (w', tr)) \<Longrightarrow> \<exists>r. tr = [(WalCheckpoint, r), (CloseDB, res)]"
  by (auto simp: sqlite_Close_def recording_def split: prod.splits)

text \<open>The data source name, which \<open>LogValue\<close> of the configuration redacts, is logged as it is on every successful start.\<close>

lemma sqlite_New_logs_dsn:
  assumes "sqlite_New (recording call) dsn (w, []) = (None, (w', tr))"
  shows "LogDSN ''SQLite store initialized'' dsn \<in> fst ` set tr"
proof -
  obtain r where "call (LogDSN ''SQLite store initialized'' dsn) = r" by blast
  with assms show ?thesis
    by (auto simp: sqlite_New_def recording_def [of _ "LogDSN ''SQLite store initialized'' dsn"] split: prod.splits option.splits)
qed

end
