(* ===== verification/Application.thy ===== *)
theory Application imports ConfigProperties EmailSender DispatcherLiveness StoreLifecycle begin

text \<open>
  \<open>main.go\<close>: \<open>run\<close> puts the components together, starts them and takes them down.

  The setup is a function on the calls the store makes when it is opened.  From the start of the two
  goroutines on, \<open>run\<close> is a step relation on a state that holds the dispatcher's system, the HTTP server's
  phase, the signal context, the error channel and the store.
\<close>

section \<open>Building the components\<close>

datatype 't app_channel =
    PachcaChannel pachca_client int
  | EmailChannel sender "string list" string "'t engine option"

fun channel_name :: "'t app_channel \<Rightarrow> string" where
  "channel_name (PachcaChannel _ _) = pachca_Name"
| "channel_name (EmailChannel _ _ _ _) = email_Name"

text \<open>The channels of a configuration; \<open>new_engine\<close> is \<open>template.NewEngine\<close> on the template directory.\<close>

definition build_channels :: "(string \<Rightarrow> goerr + 't engine) \<Rightarrow> config \<Rightarrow> goerr + 't app_channel list" where
  "build_channels new_engine c =
     (let p = c_Pachca c; m = c_Email c;
          channels = (if p_Enabled p then [PachcaChannel (NewClient (p_BaseURL p) (p_Token p)) (p_ChatID p)] else [])
      in if m_Enabled m
         then (let emailSender = NewSender (m_SMTPHost m) (m_SMTPPort m) (m_From m) (m_Username m) (m_Password m) (m_TLSMode m)
               in bindE (if t_Dir (c_Template c) \<noteq> []
                         then (case new_engine (t_Dir (c_Template c)) of
                                 Inl err \<Rightarrow> Inl (Errorf [Lit ''template engine''] err)
                               | Inr e \<Rightarrow> Inr (Some e))
                         else Inr None)
                    (\<lambda>formatter. Inr (channels @ [EmailChannel emailSender (m_To m) (m_SubjectPrefix m) formatter])))
         else Inr channels)"

definition dispatcher_config_of :: "config \<Rightarrow> dispatcher_config" where
  "dispatcher_config_of c =
     \<lparr>dc_PollInterval = c_NotifyPollInterval c, dc_BatchSize = c_NotifyBatchSize c,
      dc_QueueSize = c_NotifyQueueSize c, dc_SendTimeout = c_NotifySendTimeout c\<rparr>"

text \<open>\<open>run\<close> up to the start of the goroutines.\<close>

definition run_setup ::
  "golib \<Rightarrow> (db_call, 'w) calls \<Rightarrow> (string \<Rightarrow> goerr + 't engine) \<Rightarrow> (string \<Rightarrow> string) \<Rightarrow> 'w
   \<Rightarrow> (goerr + config \<times> 't app_channel list) \<times> 'w" where
  "run_setup lib call new_engine getenv w =
     (case Load lib getenv of
        Inl err \<Rightarrow> (Inl err, w)
      | Inr c \<Rightarrow>
          if c_DatabaseDriver c = ''sqlite''
          then (case sqlite_New call (c_DatabaseDSN c) w of
                  (Some err, w) \<Rightarrow> (Inl err, w)
                | (None, w) \<Rightarrow>
                    (case build_channels new_engine c of
                       Inl err \<Rightarrow> (Inl err, w)
                     | Inr channels \<Rightarrow> (Inr (c, channels), w)))
          else (Inl (Opaque [Lit ''unsupported database driver: '', Str (c_DatabaseDriver c)]), w))"

definition server_config_of :: "config \<Rightarrow> server_config" where
  "server_config_of c =
     \<lparr>srv_Port = c_Port c, srv_ShutdownTimeout = c_ShutdownTimeout c, srv_PreStopDelay = c_PreStopDelay c\<rparr>"

text \<open>The HTTP handler of the application, on the state of the dispatcher's system, which holds the store.\<close>

definition on_store :: "('a \<Rightarrow> goerr option \<times> 'a) \<Rightarrow> 'a dstate \<Rightarrow> goerr option \<times> 'a dstate" where
  "on_store f s = (let (r, st) = f (d_store s) in (r, s\<lparr>d_store := st\<rparr>))"

definition app_handler ::
  "(string \<Rightarrow> string) \<Rightarrow> (int \<Rightarrow> string \<Rightarrow> decode_result) \<Rightarrow> (alert_group \<Rightarrow> 'p option) \<Rightarrow> (int \<Rightarrow> nat \<Rightarrow> string \<Rightarrow> nat)
   \<Rightarrow> (request, 'p db dstate) handler \<Rightarrow> (int \<Rightarrow> 'p db dstate \<Rightarrow> 'p db dstate) \<Rightarrow> config \<Rightarrow> env \<Rightarrow> (request, 'p db dstate) handler" where
  "app_handler q decode marshal acc nomatch sleep c e =
     New acc nomatch sleep (server_config_of c)
       (Some (HandleWebhook q decode (\<lambda>g. on_store (Receive (Save marshal) (c_MaxAlertsPerPayload c) e g)) (c_MaxPayloadSize c)))
       [(store_Name, on_store (store_Check e)), (dispatcher_Name, dispatcher_Check)]"

section \<open>Running and shutting down\<close>

text \<open>
  Where \<open>run\<close> is: in its select; in \<open>srv.Shutdown\<close>; waiting for the dispatcher, in the shutdown
  sequence or in \<open>cleanup\<close>; closing the store; returned, with its result.  The server: serving (or about
  to), failed (\<open>Start\<close> returned an error), closed (all requests answered), or left with requests that
  outlived the shutdown timeout.
\<close>

datatype mpc = Selecting | StoppingHTTP | AwaitingDispatcher "goerr option" | ClosingStore "goerr option" | Exited "goerr option"

datatype server_phase = Serving | ServerFailed | ServerClosed | ServerTimedOut

record 's app =
  a_pc :: mpc
  a_signal :: bool
  a_errCh :: "goerr option"
  a_server :: server_phase
  a_disp :: "'s dstate"
  a_open :: bool

definition app_init :: "'s \<Rightarrow> 's app" where
  "app_init st =
     \<lparr>a_pc = Selecting, a_signal = False, a_errCh = None, a_server = Serving, a_disp = NewDispatcher st, a_open = True\<rparr>"

text \<open>Cancelling the dispatcher's context, which \<open>dispatcherCancel\<close> does, and so does cancelling its parent.\<close>

abbreviation cancel_dispatcher :: "'s app \<Rightarrow> 's app" where
  "cancel_dispatcher s \<equiv> s\<lparr>a_disp := (a_disp s)\<lparr>d_cancelled := True\<rparr>\<rparr>"

text \<open>The steps of \<open>run\<close> itself after it has started the goroutines.\<close>

inductive main_step :: "'s app \<Rightarrow> 's app \<Rightarrow> bool" where
  select_error: "a_pc s = Selecting \<Longrightarrow> a_errCh s = Some err \<Longrightarrow>
     main_step s (cancel_dispatcher (s\<lparr>a_pc := AwaitingDispatcher (Some err)\<rparr>))"
| select_signal: "a_pc s = Selecting \<Longrightarrow> a_signal s \<Longrightarrow> main_step s (s\<lparr>a_pc := StoppingHTTP\<rparr>)"
| http_closed: "a_pc s = StoppingHTTP \<Longrightarrow>
     main_step s (cancel_dispatcher (s\<lparr>a_pc := AwaitingDispatcher None, a_server := ServerClosed\<rparr>))"
| http_timeout: "a_pc s = StoppingHTTP \<Longrightarrow>
     main_step s (cancel_dispatcher (s\<lparr>a_pc := AwaitingDispatcher (Some err), a_server := ServerTimedOut\<rparr>))"
| dispatcher_done: "a_pc s = AwaitingDispatcher r \<Longrightarrow> d_pc (a_disp s) = Stopped \<Longrightarrow> main_step s (s\<lparr>a_pc := ClosingStore r\<rparr>)"
| close_store: "a_pc s = ClosingStore r \<Longrightarrow> main_step s (s\<lparr>a_pc := Exited r, a_open := False\<rparr>)"

text \<open>\<open>BeginTx\<close> on a database that has been closed fails, and \<open>Save\<close> with it.\<close>

definition save_if_open ::
  "('e \<Rightarrow> alert_group \<Rightarrow> 's \<Rightarrow> goerr option \<times> 's) \<Rightarrow> bool \<Rightarrow> 'e \<Rightarrow> alert_group \<Rightarrow> 's \<Rightarrow> goerr option \<times> 's" where
  "save_if_open save is_open e g st =
     (if is_open then save e g st else (Some (Errorf [Lit ''sqlite begin tx''] (Foreign ''sql: database is closed'')), st))"

text \<open>All steps: those of \<open>run\<close>, of the dispatcher and its workers, the signal, the server and its requests.  A request
  that outlived the shutdown timeout may still save a group, or try to after the store is closed.\<close>

inductive app_step ::
  "string list \<Rightarrow> dispatcher_config \<Rightarrow> ('e \<Rightarrow> int \<Rightarrow> 's \<Rightarrow> goerr + alert_group list)
   \<Rightarrow> ('e \<Rightarrow> string \<Rightarrow> 's \<Rightarrow> goerr option \<times> 's) \<Rightarrow> ('e \<Rightarrow> alert_group \<Rightarrow> 's \<Rightarrow> goerr option \<times> 's) \<Rightarrow> (alert_group \<Rightarrow> bool)
   \<Rightarrow> 's app \<Rightarrow> 's app \<Rightarrow> bool"
  for names cfg get_pending mark_sent save arrives where
  main: "main_step s s' \<Longrightarrow> app_step names cfg get_pending mark_sent save arrives s s'"
| start: "d_pc (a_disp s) = NotStarted \<Longrightarrow>
     app_step names cfg get_pending mark_sent save arrives s (s\<lparr>a_disp := Run_start names cfg (a_disp s)\<rparr>)"
| poll: "d_pc (a_disp s) = Idle \<Longrightarrow> app_step names cfg get_pending mark_sent save arrives s
     (s\<lparr>a_disp := poll_step names (get_pending e (dc_BatchSize cfg) (d_store (a_disp s))) (a_disp s)\<rparr>)"
| internal: "istep names cfg mark_sent (a_disp s) d \<Longrightarrow> app_step names cfg get_pending mark_sent save arrives s (s\<lparr>a_disp := d\<rparr>)"
| signal: "app_step names cfg get_pending mark_sent save arrives s (cancel_dispatcher (s\<lparr>a_signal := True\<rparr>))"
| server_error: "a_server s = Serving \<Longrightarrow>
     app_step names cfg get_pending mark_sent save arrives s (s\<lparr>a_server := ServerFailed, a_errCh := Some err\<rparr>)"
| webhook: "a_server s \<noteq> ServerClosed \<Longrightarrow> arrives g \<Longrightarrow> app_step names cfg get_pending mark_sent save arrives s
     (s\<lparr>a_disp := (a_disp s)\<lparr>d_store := snd (save_if_open save (a_open s) e g (d_store (a_disp s)))\<rparr>\<rparr>)"

inductive app_reach ::
  "string list \<Rightarrow> dispatcher_config \<Rightarrow> ('e \<Rightarrow> int \<Rightarrow> 's \<Rightarrow> goerr + alert_group list)
   \<Rightarrow> ('e \<Rightarrow> string \<Rightarrow> 's \<Rightarrow> goerr option \<times> 's) \<Rightarrow> ('e \<Rightarrow> alert_group \<Rightarrow> 's \<Rightarrow> goerr option \<times> 's) \<Rightarrow> (alert_group \<Rightarrow> bool)
   \<Rightarrow> 's \<Rightarrow> 's app \<Rightarrow> bool"
  for names cfg get_pending mark_sent save arrives st0 where
  init: "app_reach names cfg get_pending mark_sent save arrives st0 (app_init st0)"
| step: "app_reach names cfg get_pending mark_sent save arrives st0 s \<Longrightarrow>
     app_step names cfg get_pending mark_sent save arrives s s' \<Longrightarrow> app_reach names cfg get_pending mark_sent save arrives st0 s'"

inductive_cases main_stepE: "main_step s s'"

section \<open>The dispatcher inside the application\<close>

lemma main_step_disp: "main_step s s' \<Longrightarrow> a_disp s' = a_disp s \<or> a_disp s' = (a_disp s)\<lparr>d_cancelled := True\<rparr>"
  by (induction rule: main_step.induct) auto

text \<open>Whatever the application does, its dispatcher's system makes steps of its own relation or none.\<close>

lemma app_step_dstep:
  assumes "app_step names cfg get_pending mark_sent save arrives s s'"
  shows "a_disp s' = a_disp s \<or> dstep names cfg get_pending mark_sent save arrives (a_disp s) (a_disp s')"
  using assms
proof (cases rule: app_step.cases)
  case main
  with main_step_disp [OF this] dstep.cancel show ?thesis by metis
next
  case (internal d)
  with istep_dstep show ?thesis by fastforce
next
  case (webhook g e)
  then show ?thesis by (cases "a_open s") (auto simp: save_if_open_def intro: dstep.webhook)
qed (auto intro: dstep.run dstep.poll dstep.cancel)

text \<open>While the server serves and the store is open, every step of the dispatcher's system can be taken inside the application.\<close>

lemma dstep_app_step:
  assumes "dstep names cfg get_pending mark_sent save arrives (a_disp s) d" "a_server s = Serving" "a_open s"
  shows "\<exists>b. app_step names cfg get_pending mark_sent save arrives s (s\<lparr>a_signal := b, a_disp := d\<rparr>)"
  using assms(1)
proof (cases rule: dstep.cases)
  case run
  with app_step.start [of s] show ?thesis by (intro exI [of _ "a_signal s"]) simp
next
  case (poll e)
  with app_step.poll [of s] show ?thesis by (intro exI [of _ "a_signal s"]) simp
next
  case cancel
  have "app_step names cfg get_pending mark_sent save arrives s (cancel_dispatcher (s\<lparr>a_signal := True\<rparr>))" by (rule app_step.signal)
  with cancel show ?thesis by (intro exI [of _ True]) simp
next
  case (webhook g e)
  with app_step.webhook [where s = s and g = g and e = e] assms(2,3) show ?thesis
    by (intro exI [of _ "a_signal s"]) (simp add: save_if_open_def)
qed (use app_step.internal [of names cfg mark_sent s] in
    \<open>(intro exI [of _ "a_signal s"], simp, blast intro: istep.intros)+\<close>)

lemma app_reach_dreach:
  "app_reach names cfg get_pending mark_sent save arrives st0 s \<Longrightarrow>
     dreach names cfg get_pending mark_sent save arrives st0 (a_disp s)"
proof (induction rule: app_reach.induct)
  case init
  show ?case by (simp add: app_init_def dreach.init)
next
  case (step s s')
  with app_step_dstep [OF step.hyps(2)] show ?case by (metis dreach.step)
qed

lemma stopped_stays:
  assumes "istep names cfg mark_sent d d'" "dinv names cfg d"
  shows "d_pc d \<noteq> Stopped"
proof
  assume pc: "d_pc d = Stopped"
  with assms(2) have "\<forall>i<length names. d_worker d i = WDone" by (simp add: dinv_def phase_def)
  with assms(1) pc show False
    by (cases rule: istep.cases)
      (simp_all add: dispatch_step.simps fanout_step.simps collect_step.simps mark_step.simps shutdown_step.simps worker_step.simps)
qed

section \<open>The order of shutting down\<close>

definition ainv :: "'s app \<Rightarrow> bool" where
  "ainv s \<longleftrightarrow>
     (a_signal s \<longrightarrow> d_cancelled (a_disp s))
     \<and> (case a_pc s of
          Selecting \<Rightarrow> a_open s \<and> a_server s \<in> {Serving, ServerFailed} \<and> (a_server s = ServerFailed \<longrightarrow> a_errCh s \<noteq> None)
        | StoppingHTTP \<Rightarrow> a_open s \<and> a_signal s
        | AwaitingDispatcher r \<Rightarrow> a_open s \<and> d_cancelled (a_disp s) \<and> (r = None \<longrightarrow> a_server s = ServerClosed \<and> a_signal s)
        | ClosingStore r \<Rightarrow> a_open s \<and> d_pc (a_disp s) = Stopped \<and> (r = None \<longrightarrow> a_server s = ServerClosed \<and> a_signal s)
        | Exited r \<Rightarrow> \<not> a_open s \<and> d_pc (a_disp s) = Stopped \<and> (r = None \<longrightarrow> a_server s = ServerClosed \<and> a_signal s))"

lemma istep_keeps_cancelled:
  assumes "istep names cfg mark_sent d d'" "distinct names" "dinv names cfg d"
  shows "d_cancelled d' = d_cancelled d"
  by (rule istep_cancelled [OF assms])

lemma ainv_step:
  assumes "app_step names cfg get_pending mark_sent save arrives s s'" "ainv s" "distinct names" "dinv names cfg (a_disp s)"
  shows "ainv s'"
  using assms(1)
proof (cases rule: app_step.cases)
  case main
  then show ?thesis using assms(2) by (cases rule: main_stepE) (auto simp: ainv_def)
next
  case start
  with assms(2) show ?thesis by (auto simp: ainv_def Run_start_def split: mpc.splits)
next
  case (poll e)
  with assms(2) show ?thesis by (auto simp: ainv_def poll_step_def split: mpc.splits sum.splits)
next
  case (internal d)
  from istep_keeps_cancelled [OF internal(2) assms(3,4)] stopped_stays [OF internal(2) assms(4)] internal(1) assms(2)
  show ?thesis by (auto simp: ainv_def split: mpc.splits)
next
  case signal
  with assms(2) show ?thesis by (auto simp: ainv_def split: mpc.splits)
next
  case (server_error err)
  with assms(2) show ?thesis by (auto simp: ainv_def split: mpc.splits)
next
  case (webhook g e)
  with assms(2) show ?thesis by (auto simp: ainv_def split: mpc.splits)
qed

lemma app_reach_ainv:
  assumes "app_reach names cfg get_pending mark_sent save arrives st0 s" "distinct names" "valid_config cfg"
  shows "ainv s \<and> dinv names cfg (a_disp s)"
proof -
  from dreach_dinv [OF app_reach_dreach [OF assms(1)] assms(2,3)] have d: "dinv names cfg (a_disp s)" .
  from assms(1) have "ainv s"
  proof (induction rule: app_reach.induct)
    case init
    show ?case by (simp add: ainv_def app_init_def)
  next
    case (step s s')
    with dreach_dinv [OF app_reach_dreach [OF step.hyps(1)] assms(2,3)] ainv_step assms(2) show ?case by blast
  qed
  with d show ?thesis by blast
qed

section \<open>A loaded configuration fits its components\<close>

lemma built_names:
  "build_channels new_engine c = Inr channels \<Longrightarrow>
     map channel_name channels = (if p_Enabled (c_Pachca c) then [pachca_Name] else []) @ (if m_Enabled (c_Email c) then [email_Name] else [])"
  by (auto simp: build_channels_def Let_def bindE_Inr split: if_splits)

lemma setup_ok:
  assumes "run_setup lib call new_engine getenv w = (Inr (c, channels), w')"
  shows "good_config lib c" "distinct (map channel_name channels)" "valid_config (dispatcher_config_of c)"
proof -
  from assms have l: "Load lib getenv = Inr c" and b: "build_channels new_engine c = Inr channels"
    by (auto simp: run_setup_def split: sum.splits prod.splits option.splits if_splits)
  show g: "good_config lib c" by (rule Load_good [OF l])
  show "distinct (map channel_name channels)"
    unfolding built_names [OF b] by (simp add: pachca_Name_def email_Name_def)
  show "valid_config (dispatcher_config_of c)"
    using g by (simp add: good_config_def good_notify_def in_bounds_def valid_config_def dispatcher_config_of_def)
qed

text \<open>The branch for another database driver is never taken: the configuration does not let it pass.\<close>

lemma driver_always_known: "Load lib getenv = Inr c \<Longrightarrow> c_DatabaseDriver c = ''sqlite''"
  using Load_good by (auto simp: good_config_def good_server_def)

text \<open>C6: The dispatcher and its workers never use a closed store, nor does any request of a shutdown that reports
  success.  For every configuration that loads and in every interleaving of dispatcher, workers, requests and
  signals, the store is closed only by the last step of \<open>run\<close>, after the dispatcher's \<open>Run\<close> has returned;
  \<open>run\<close> reports success only when a signal asked for it and the HTTP server had answered all its requests
  (only after a shutdown that timed out, which \<open>run\<close> reports as an error, can a request that is left over meet the closed store); and
  no goroutine panics.\<close>

theorem store_outlives_users:
  assumes "run_setup lib call new_engine getenv w = (Inr (c, channels), w')"
    and "app_reach (map channel_name channels) (dispatcher_config_of c) get_pending mark_sent save arrives st0 s"
  shows "(a_open s \<longleftrightarrow> (\<forall>r. a_pc s \<noteq> Exited r)) \<and> (a_open s \<or> d_pc (a_disp s) = Stopped)
    \<and> (a_pc s = Exited None \<longrightarrow> a_server s = ServerClosed \<and> a_signal s) \<and> d_pc (a_disp s) \<noteq> Crashed"
proof -
  from app_reach_ainv [OF assms(2) setup_ok(2,3) [OF assms(1)]] have i: "ainv s" "dinv (map channel_name channels) (dispatcher_config_of c) (a_disp s)"
    by blast+
  then have "d_pc (a_disp s) \<noteq> Crashed" by (auto simp: dinv_def phase_def)
  with i(1) show ?thesis by (auto simp: ainv_def split: mpc.splits)
qed

text \<open>The sequence that the comments of \<open>run\<close> announce (first the HTTP server, then the dispatcher) is not what
  happens: the dispatcher's context is a child of the signal's, so it is cancelled before the server stops.\<close>

lemma dispatcher_stops_before_http:
  assumes "app_reach names cfg get_pending mark_sent save arrives st0 s" "distinct names" "valid_config cfg"
    and "a_pc s = StoppingHTTP"
  shows "d_cancelled (a_disp s)"
  using app_reach_ainv [OF assms(1-3)] assms(4) by (auto simp: ainv_def)

section \<open>Shutting down comes to an end\<close>

inductive own_step ::
  "string list \<Rightarrow> dispatcher_config \<Rightarrow> ('e \<Rightarrow> string \<Rightarrow> 's \<Rightarrow> goerr option \<times> 's) \<Rightarrow> 's app \<Rightarrow> 's app \<Rightarrow> bool"
  for names cfg mark_sent where
  main: "main_step s s' \<Longrightarrow> own_step names cfg mark_sent s s'"
| start: "d_pc (a_disp s) = NotStarted \<Longrightarrow> own_step names cfg mark_sent s (s\<lparr>a_disp := Run_start names cfg (a_disp s)\<rparr>)"
| internal: "istep names cfg mark_sent (a_disp s) d \<Longrightarrow> own_step names cfg mark_sent s (s\<lparr>a_disp := d\<rparr>)"

lemma own_app_step: "own_step names cfg mark_sent s s' \<Longrightarrow> app_step names cfg get_pending mark_sent save arrives s s'"
  by (induction rule: own_step.induct) (auto intro: app_step.main app_step.start app_step.internal)

fun main_left :: "mpc \<Rightarrow> nat" where
  "main_left Selecting = 4"
| "main_left StoppingHTTP = 3"
| "main_left (AwaitingDispatcher r) = 2"
| "main_left (ClosingStore r) = 1"
| "main_left (Exited r) = 0"

definition app_work :: "string list \<Rightarrow> 's app \<Rightarrow> nat" where
  "app_work names s =
     main_left (a_pc s) + work names (a_disp s)
     + (if d_pc (a_disp s) = NotStarted then 3 * length names + 5 else 0)"

lemma work_cancelled [simp]: "work names (d\<lparr>d_cancelled := b\<rparr>) = work names d"
  by (simp add: work_def backlog_def)

lemma work_started: "valid_config cfg \<Longrightarrow> work names (Run_start names cfg d) \<le> 3 * length names + 4"
proof -
  assume v: "valid_config cfg"
  then have "0 \<le> int (length names) * dc_BatchSize cfg" by (simp add: valid_config_def)
  with v have "\<not> result_cap names cfg < 0" by (simp add: result_cap_def)
  with v show ?thesis by (auto simp: Run_start_def work_def backlog_def valid_config_def NewQueue_def)
qed

lemma istep_started:
  assumes "istep names cfg mark_sent d d'" "dinv names cfg d"
  shows "d_pc d \<noteq> NotStarted \<and> d_pc d' \<noteq> NotStarted"
  using assms(1)
proof (cases rule: istep.cases)
  case (worker i res)
  from worker(2) worker_not_done have "d_worker d i \<noteq> WNew" by blast
  with assms(2) have "d_pc d \<noteq> NotStarted" by (auto simp: dinv_def phase_def)
  moreover have "d_pc d' = d_pc d" using worker_frame worker_open worker assms(2) by metis
  ultimately show ?thesis by auto
next
  case (dispatch now)
  then show ?thesis by (cases "d_pc d") (auto simp: dispatch_step.simps split: list.splits)
next
  case (fanout ctx)
  then show ?thesis by (cases "d_pc d") (auto simp: fanout_step.simps Let_def split: list.splits option.splits)
next
  case collect
  then show ?thesis by (cases "d_pc d") (auto simp: collect_step.simps split: list.splits nat.splits)
next
  case (mark e)
  then show ?thesis by (cases "d_pc d") (auto simp: mark_step.simps)
next
  case (shutdown js)
  then show ?thesis by (cases "d_pc d") (auto simp: shutdown_step.simps split: list.splits if_splits)
qed

lemma own_step_work:
  assumes "own_step names cfg mark_sent s s'" "distinct names" "valid_config cfg" "dinv names cfg (a_disp s)"
  shows "app_work names s' < app_work names s"
  using assms(1)
proof (cases rule: own_step.cases)
  case main
  then show ?thesis by (cases rule: main_stepE) (auto simp: app_work_def)
next
  case start
  have "d_pc (Run_start names cfg (a_disp s)) \<noteq> NotStarted" by (simp add: Run_start_def)
  with start work_started [OF assms(3), of names "a_disp s"] show ?thesis by (simp add: app_work_def)
next
  case (internal d)
  from istep_started [OF internal(2) assms(4)] internal istep_work [OF internal(2) assms(2,4)] show ?thesis by (simp add: app_work_def)
qed

text \<open>What makes \<open>run\<close> leave its select: a signal or a failed server.\<close>

definition stopping :: "'s app \<Rightarrow> bool" where
  "stopping s \<longleftrightarrow> a_signal s \<or> a_server s = ServerFailed \<or> a_pc s \<noteq> Selecting"

lemma own_step_stopping: "own_step names cfg mark_sent s s' \<Longrightarrow> stopping s \<Longrightarrow> stopping s'"
  by (auto simp: stopping_def elim!: own_step.cases main_stepE)

lemma own_step_inv:
  assumes "own_step names cfg mark_sent s s'" "ainv s" "dinv names cfg (a_disp s)" "distinct names" "valid_config cfg"
  shows "ainv s' \<and> dinv names cfg (a_disp s')"
proof -
  have a: "app_step names cfg (\<lambda>_ _ _. Inr []) mark_sent (\<lambda>_ _ st. (None, st)) (\<lambda>_. True) s s'"
    by (rule own_app_step [OF assms(1)])
  have "dinv names cfg (a_disp s')"
    using assms(1)
  proof (cases rule: own_step.cases)
    case main
    with main_step_disp [OF main] assms(3) show ?thesis by auto
  next
    case start
    with run_dinv [OF assms(3,4)] assms(5) show ?thesis by simp
  next
    case (internal d)
    with istep_dinv assms(3,4) show ?thesis by fastforce
  qed
  with ainv_step [OF a assms(2,4,3)] show ?thesis by blast
qed

lemma own_steps:
  "(own_step names cfg mark_sent ^^ k) s s' \<Longrightarrow> ainv s \<Longrightarrow> dinv names cfg (a_disp s) \<Longrightarrow> distinct names \<Longrightarrow> valid_config cfg \<Longrightarrow>
     ainv s' \<and> dinv names cfg (a_disp s') \<and> k + app_work names s' \<le> app_work names s \<and> (stopping s \<longrightarrow> stopping s')"
proof (induction k arbitrary: s')
  case (Suc k)
  then obtain s1 where s1: "(own_step names cfg mark_sent ^^ k) s s1" "own_step names cfg mark_sent s1 s'" by auto
  with Suc.IH [OF s1(1)] Suc.prems have ih: "ainv s1" "dinv names cfg (a_disp s1)" "k + app_work names s1 \<le> app_work names s" "stopping s \<longrightarrow> stopping s1"
    by simp_all
  from own_step_work [OF s1(2) Suc.prems(4,5) ih(2)] own_step_inv [OF s1(2) ih(1,2) Suc.prems(4,5)] own_step_stopping [OF s1(2)] ih
  show ?case by simp
qed simp

text \<open>As for the dispatcher alone: the steps that remain possible when the \<open>Send\<close>s with \<open>hangs\<close> do not return.\<close>

definition live_own_step ::
  "string list \<Rightarrow> dispatcher_config \<Rightarrow> ('e \<Rightarrow> string \<Rightarrow> 's \<Rightarrow> goerr option \<times> 's) \<Rightarrow> (nat \<Rightarrow> notification \<Rightarrow> bool)
   \<Rightarrow> 's app \<Rightarrow> 's app \<Rightarrow> bool" where
  "live_own_step names cfg mark_sent hangs s s' \<longleftrightarrow> own_step names cfg mark_sent s s' \<and> still_hung hangs (a_disp s) (a_disp s')"

lemma live_main: "main_step s s' \<Longrightarrow> live_own_step names cfg mark_sent hangs s s'"
  using main_step_disp [of s s'] by (auto simp: live_own_step_def still_hung_def intro: own_step.main)

lemma live_internal:
  assumes "live_step names cfg mark_sent hangs (a_disp s) d"
  shows "live_own_step names cfg mark_sent hangs s (s\<lparr>a_disp := d\<rparr>)"
  using assms own_step.internal [of names cfg mark_sent s d] by (simp add: live_own_step_def live_step_def)

lemma live_start:
  assumes "d_pc (a_disp s) = NotStarted" "dinv names cfg (a_disp s)"
  shows "live_own_step names cfg mark_sent hangs s (s\<lparr>a_disp := Run_start names cfg (a_disp s)\<rparr>)"
proof -
  from assms have "d_worker (a_disp s) i \<noteq> WSend n" for i n by (auto simp: dinv_def phase_def)
  then have "still_hung hangs (a_disp s) d" for d by (simp add: still_hung_def)
  with own_step.start [OF assms(1)] show ?thesis by (simp add: live_own_step_def)
qed

lemma own_step_progress:
  assumes "ainv s" "dinv names cfg (a_disp s)" "distinct names" "valid_config cfg" "stopping s" "\<forall>r. a_pc s \<noteq> Exited r"
  shows "(\<exists>s'. live_own_step names cfg mark_sent hangs s s') \<or> hung names hangs (a_disp s)"
proof (cases "a_pc s")
  case Selecting
  with assms(5) have "a_signal s \<or> a_server s = ServerFailed" by (simp add: stopping_def)
  with assms(1) Selecting have "\<exists>s'. main_step s s'"
    by (auto simp: ainv_def intro: main_step.select_signal main_step.select_error)
  then show ?thesis using live_main by blast
next
  case StoppingHTTP
  then show ?thesis using live_main main_step.http_closed by blast
next
  case (AwaitingDispatcher r)
  with assms(1) have c: "d_cancelled (a_disp s)" by (simp add: ainv_def)
  consider "d_pc (a_disp s) = NotStarted" | "d_pc (a_disp s) = Idle" | "d_pc (a_disp s) = Stopped"
    | "d_pc (a_disp s) \<notin> {NotStarted, Idle, Stopped}" by blast
  then show ?thesis
  proof cases
    case 1
    with live_start assms(2) show ?thesis by blast
  next
    case 2
    with shutdown_can [OF assms(2,3) _ c] live_internal show ?thesis by blast
  next
    case 3
    with AwaitingDispatcher show ?thesis using live_main main_step.dispatcher_done by blast
  next
    case 4
    with internal_progress [OF assms(2,3,4)] live_internal show ?thesis by blast
  qed
next
  case (ClosingStore r)
  then show ?thesis using live_main main_step.close_store by blast
next
  case (Exited r)
  with assms(6) show ?thesis by blast
qed

text \<open>C4: Shutting down comes to an end, unless a channel's \<open>Send\<close> does not return.  Let \<open>hangs\<close> say for which
  notifications a channel's \<open>Send\<close> never returns.  Once a signal has arrived or the server has failed, \<open>run\<close>, the
  dispatcher and the workers, left to themselves, can take at most a computed number of steps, and they only
  come to rest when \<open>run\<close> has returned or where a worker is in a \<open>Send\<close> that never returns.  So if all sends return, the
  wait for the dispatcher cannot last for ever.\<close>

theorem shutdown_terminates:
  assumes "run_setup lib call new_engine getenv w = (Inr (c, channels), w')"
    and "app_reach (map channel_name channels) (dispatcher_config_of c) get_pending mark_sent save arrives st0 s"
    and "(own_step (map channel_name channels) (dispatcher_config_of c) mark_sent ^^ k) s s'"
  shows "k \<le> app_work (map channel_name channels) s
    \<and> (stopping s \<and> (\<nexists>s''. live_own_step (map channel_name channels) (dispatcher_config_of c) mark_sent hangs s' s'')
       \<longrightarrow> (\<exists>r. a_pc s' = Exited r) \<or> (\<exists>i<length channels. \<exists>n. d_worker (a_disp s') i = WSend n \<and> hangs i n))"
proof -
  note ok = setup_ok(2,3) [OF assms(1)]
  from app_reach_ainv [OF assms(2) ok] own_steps [OF assms(3) _ _ ok] have
    i: "ainv s'" "dinv (map channel_name channels) (dispatcher_config_of c) (a_disp s')"
       "k + app_work (map channel_name channels) s' \<le> app_work (map channel_name channels) s" "stopping s \<longrightarrow> stopping s'" by blast+
  have "hung (map channel_name channels) hangs (a_disp s')" if "stopping s" "\<forall>r. a_pc s' \<noteq> Exited r"
      "\<nexists>s''. live_own_step (map channel_name channels) (dispatcher_config_of c) mark_sent hangs s' s''"
    using own_step_progress [OF i(1,2) ok _ that(2)] i(4) that(1,3) by blast
  with i(3) show ?thesis unfolding hung_def length_map by (meson add_leD1)
qed

text \<open>The exception is real, and nothing bounds it: while a worker is in a \<open>Send\<close> that has not returned, the
  dispatcher is in the fan-out of that notification, and \<open>run\<close> neither closes the store nor returns, whatever
  else has happened, the signal and the end of the shutdown timeout included.\<close>

lemma stalled_send_blocks:
  assumes "run_setup lib call new_engine getenv w = (Inr (c, channels), w')"
    and "app_reach (map channel_name channels) (dispatcher_config_of c) get_pending mark_sent save arrives st0 s"
    and "i < length channels" "d_worker (a_disp s) i = WSend n"
  shows "in_fanout (d_pc (a_disp s)) \<and> a_open s \<and> (\<forall>r. a_pc s \<noteq> ClosingStore r \<and> a_pc s \<noteq> Exited r)"
proof -
  note ok = setup_ok(2,3) [OF assms(1)]
  from app_reach_ainv [OF assms(2) ok] have
    i: "ainv s" "dinv (map channel_name channels) (dispatcher_config_of c) (a_disp s)" by blast+
  have "\<not> quiet (map channel_name channels) (a_disp s)"
    using quiet_channel(2) [of "map channel_name channels" "a_disp s" i] assms(3,4) by auto
  with i(2) assms(3,4) have f: "in_fanout (d_pc (a_disp s))"
    by (cases "d_pc (a_disp s)") (auto simp: dinv_def phase_def)
  with i(1) show ?thesis by (auto simp: ainv_def split: mpc.splits)
qed

section \<open>No acknowledged alert is lost\<close>

interpretation app_receiver: webhook_receiver "\<lambda>g. on_store (Receive (Save marshal) m e g)"
  "\<lambda>g s s'. s' = s\<lparr>d_store := snd (Save marshal e g (d_store s))\<rparr> \<and> fst (Save marshal e g (d_store s)) = None"
  for marshal :: "alert_group \<Rightarrow> 'p option" and m e
proof unfold_locales
  fix g err and s s' :: "'p db dstate"
  show "s' = s\<lparr>d_store := snd (Save marshal e g (d_store s))\<rparr> \<and> fst (Save marshal e g (d_store s)) = None"
    if "on_store (Receive (Save marshal) m e g) s = (None, s')"
    using that by (auto simp: on_store_def Receive_None split: prod.splits)
  show "s' = s" if "on_store (Receive (Save marshal) m e g) s = (Some err, s')"
    using that sqlite_store.receive_err_unchanged by (fastforce simp: on_store_def split: prod.splits)
qed

lemma acknowledged_step:
  assumes "app_handler q decode marshal acc nomatch sleep c e r d = (as, oc, d')"
    and "rq_method r = ''POST''" "rq_path r = ''/api/v1/alerts''" "status_of (response as) = Some 200"
  shows "\<exists>g. decode (c_MaxPayloadSize c) (rq_body r) = Decoded g \<and> fst (Save marshal e g (d_store d)) = None
    \<and> d' = d\<lparr>d_store := snd (Save marshal e g (d_store d))\<rparr>"
proof -
  obtain as' where h: "HandleWebhook q decode (\<lambda>g. on_store (Receive (Save marshal) (c_MaxAlertsPerPayload c) e g)) (c_MaxPayloadSize c) r d
      = (as', Returned, d')" and resp: "response as = response as'"
    by (rule server_webhook [OF assms(1) [unfolded app_handler_def] assms(2,3)])
  from app_receiver.acknowledged [OF h] resp assms(4) show ?thesis by auto
qed

lemma pending_kept_or_delivered:
  assumes "(app_step names cfg (GetPending unmarshal) MarkSent (Save marshal) arrives)\<^sup>*\<^sup>* s1 s2"
    and "dreach names cfg (GetPending unmarshal) MarkSent (Save marshal) arrives d0 (a_disp s1)"
    and "distinct names" "valid_config cfg" "db_wf unmarshal d0" "\<And>g. arrives g \<Longrightarrow> storable marshal unmarshal g"
    and "pending_map unmarshal (d_store (a_disp s1)) k \<noteq> None"
  shows "dreach names cfg (GetPending unmarshal) MarkSent (Save marshal) arrives d0 (a_disp s2)
    \<and> (pending_map unmarshal (d_store (a_disp s2)) k \<noteq> None
       \<or> (\<exists>u n gs. (app_step names cfg (GetPending unmarshal) MarkSent (Save marshal) arrives)\<^sup>*\<^sup>* s1 u
            \<and> (app_step names cfg (GetPending unmarshal) MarkSent (Save marshal) arrives)\<^sup>*\<^sup>* u s2
            \<and> d_pc (a_disp u) = Marking n gs \<and> nGroupKey n = k \<and> delivered_to names (a_disp u) n))"
  using assms(1)
proof (induction rule: rtranclp_induct)
  case base
  with assms(2,7) show ?case by blast
next
  case (step s s')
  let ?step = "app_step names cfg (GetPending unmarshal) MarkSent (Save marshal) arrives"
  note d = step.IH [THEN conjunct1]
  note ds = app_step_dstep [OF step.hyps(2)]
  have d': "dreach names cfg (GetPending unmarshal) MarkSent (Save marshal) arrives d0 (a_disp s')"
    using ds d dreach.step by metis
  show ?case
  proof (cases "pending_map unmarshal (d_store (a_disp s)) k = None \<or> pending_map unmarshal (d_store (a_disp s')) k \<noteq> None")
    case True
    with step d' show ?thesis by (metis rtranclp.rtrancl_into_rtrancl)
  next
    case False
    then obtain g where g: "pending_map unmarshal (d_store (a_disp s)) k = Some g" "pending_map unmarshal (d_store (a_disp s')) k = None"
      by auto
    then have "dstep names cfg (GetPending unmarshal) MarkSent (Save marshal) arrives (a_disp s) (a_disp s')" using ds by auto
    from sqlite_store.pend_drop [OF this sqlite_store.dreach_store_inv [OF d assms(5,6)] assms(6) g]
    obtain n gs where n: "d_pc (a_disp s) = Marking n gs" "nGroupKey n = k" by blast
    with marking_delivered [OF dreach_dinv [OF d assms(3,4)]] step.hyps d' show ?thesis by blast
  qed
qed

text \<open>End to end: no acknowledged alert is lost.  When a webhook request is answered with 200, then in every later
  state of the application - whatever requests, failures, polls, signals and shutdowns come in between - the
  group's key is still pending in the store, or in between the dispatcher was about to mark a notification with
  that key after every channel that took it had sent it successfully.\<close>

lemma acknowledged_never_lost:
  assumes "run_setup lib call new_engine getenv w = (Inr (c, channels), w')"
    and "app_reach (map channel_name channels) (dispatcher_config_of c) (GetPending unmarshal) MarkSent (Save marshal) arrives d0 s"
    and "db_wf unmarshal d0" "\<And>g. arrives g \<Longrightarrow> storable marshal unmarshal g"
    and "app_handler q decode marshal acc nomatch sleep c e r (a_disp s) = (as, oc, d1)"
    and "rq_method r = ''POST''" "rq_path r = ''/api/v1/alerts''" "status_of (response as) = Some 200"
    and "\<And>g. decode (c_MaxPayloadSize c) (rq_body r) = Decoded g \<Longrightarrow> arrives g"
    and "(app_step (map channel_name channels) (dispatcher_config_of c) (GetPending unmarshal) MarkSent (Save marshal) arrives)\<^sup>*\<^sup>*
           (s\<lparr>a_disp := d1\<rparr>) s2"
  shows "\<exists>g. decode (c_MaxPayloadSize c) (rq_body r) = Decoded g
    \<and> (pending_map unmarshal (d_store (a_disp s2)) (gGroupKey g) \<noteq> None
       \<or> (\<exists>u n gs. (app_step (map channel_name channels) (dispatcher_config_of c) (GetPending unmarshal) MarkSent (Save marshal) arrives)\<^sup>*\<^sup>*
              (s\<lparr>a_disp := d1\<rparr>) u
            \<and> (app_step (map channel_name channels) (dispatcher_config_of c) (GetPending unmarshal) MarkSent (Save marshal) arrives)\<^sup>*\<^sup>* u s2
            \<and> d_pc (a_disp u) = Marking n gs \<and> nGroupKey n = gGroupKey g \<and> delivered_to (map channel_name channels) (a_disp u) n))"
proof -
  note ok = setup_ok(2,3) [OF assms(1)]
  note d = app_reach_dreach [OF assms(2)]
  from acknowledged_step [OF assms(5-8)] obtain g where
    g: "decode (c_MaxPayloadSize c) (rq_body r) = Decoded g" "fst (Save marshal e g (d_store (a_disp s))) = None"
       "d1 = (a_disp s)\<lparr>d_store := snd (Save marshal e g (d_store (a_disp s)))\<rparr>" by blast
  have "db_wf unmarshal (d_store (a_disp s))" by (rule sqlite_store.dreach_store_inv [OF d assms(3,4)])
  from sqlite_store.save_ok [OF this assms(4) [OF assms(9) [OF g(1)]]] g(2)
  have p: "pending_map unmarshal (d_store d1) (gGroupKey g) \<noteq> None"
    by (metis (no_types, lifting) g(3) dstate.select_convs(8) dstate.surjective dstate.update_convs(8) fun_upd_same option.distinct(1) prod.collapse)
  have d1: "dreach (map channel_name channels) (dispatcher_config_of c) (GetPending unmarshal) MarkSent (Save marshal) arrives d0 d1"
    unfolding g(3) by (rule dreach.step [OF d], rule dstep.webhook, rule assms(9) [OF g(1)])
  from pending_kept_or_delivered [OF assms(10) _ ok assms(3,4)] d1 p g(1) show ?thesis by auto
qed

section \<open>Readiness of the application\<close>

text \<open>C26: The readiness probe of the whole application, through the server and its middleware, answers 200 exactly
  when the database can be written and the dispatcher is running, and 503 otherwise, and it leaves what is
  stored as it was.\<close>

theorem application_readiness:
  assumes "app_handler q decode marshal acc nomatch sleep c e r s = (as, oc, s')"
    and "rq_method r = ''GET''" "rq_path r = ''/readyz''"
  shows "status_of (response as) = Some (if store_healthy e (d_store s) \<and> d_running s then 200 else 503) \<and> oc = Returned
    \<and> pending_map unmarshal (d_store s') = pending_map unmarshal (d_store s)"
proof -
  let ?checks = "[(store_Name, on_store (store_Check e)), (dispatcher_Name, dispatcher_Check)]"
  obtain res st where chk: "store_Check e (d_store s) = (res, st)" by (meson surj_pair)
  have healthy: "res = None \<longleftrightarrow> store_healthy e (d_store s)"
    using store_checker.check_iff [of e "d_store s"] chk by simp
  have kept: "pending_map unmarshal st = pending_map unmarshal (d_store s)"
    using store_Check_keeps(2) [of unmarshal e "d_store s"] chk by simp
  obtain code b where h: "HandleReadyz ?checks r s = (reply code b, Returned, s\<lparr>d_store := st\<rparr>)"
      "code = (if store_healthy e (d_store s) \<and> d_running s then 200 else 503)"
    using chk healthy by (cases res; cases "d_running s")
      (auto simp: HandleReadyz_def on_store_def dispatcher_Check_def reply_def store_Name_def dispatcher_Name_def)
  have "ServeMux nomatch (routes sleep (srv_PreStopDelay (server_config_of c)) ah ?checks) r s = (reply code b, Returned, s\<lparr>d_store := st\<rparr>)" for ah
    by (simp only: route_readyz [OF assms(2,3)] h)
  from Logging_Recovery_reply [where h = "ServeMux _ _", OF this] assms(1)
  have "as = reply code b @ [LogRequest code (acc code 0 b)]" "oc = Returned" "s' = s\<lparr>d_store := st\<rparr>"
    by (auto simp: app_handler_def New_def)
  with h(2) kept show ?thesis by simp
qed

section \<open>Concrete runs\<close>

definition open_db :: "(db_call, unit) calls" where
  "open_db c w = (None, w)"

definition demo_channels :: "unit app_channel list" where
  "demo_channels =
     [PachcaChannel (NewClient ''https://h'' ''tok'') 7,
      EmailChannel (NewSender ''mail'' 25 ''a@b'' [] [] ''none'') [''c@d'', ''e@f''] [] None]"

abbreviation demo_setup :: "(goerr + config \<times> unit app_channel list) \<times> unit" where
  "demo_setup \<equiv> run_setup demo_lib open_db (\<lambda>_. Inl (Foreign ''none'')) (environment_of demo_lib demo_settings) ()"

lemma demo_setup: "demo_setup = (Inr (demo_settings, demo_channels), ())"
proof -
  have "pragma_loop open_db ps () = (None, ())" for ps
    by (induction ps) (simp_all add: try_call_def open_db_def)
  then have "ConfigurePragmas open_db () = (None, ())" by (simp add: ConfigurePragmas_def)
  then have "sqlite_New open_db dsn () = (None, ())" for dsn
    by (simp add: sqlite_New_def open_db_def)
  moreover have "build_channels (\<lambda>_. Inl (Foreign ''none'')) demo_settings = Inr demo_channels"
    by (simp add: build_channels_def demo_settings_def default_config_def demo_channels_def)
  moreover have "c_DatabaseDriver demo_settings = ''sqlite''" by (simp add: demo_settings_def default_config_def)
  ultimately show ?thesis by (simp add: run_setup_def demo_load)
qed

abbreviation demo_names :: "string list" where
  "demo_names \<equiv> map channel_name demo_channels"

lemma demo_init:
  "app_reach demo_names (dispatcher_config_of demo_settings) (GetPending Some) MarkSent (Save Some) (\<lambda>_. True) (migrated 0) (app_init (migrated 0))"
  by (rule app_reach.init)

definition after_save :: "alert_group db dstate" where
  "after_save = (NewDispatcher (migrated 0))\<lparr>d_store := snd (Save Some fixed_env sample_group (migrated 0))\<rparr>"

lemma demo_request_served:
  "app_handler (\<lambda>s. s) (\<lambda>_ _. Decoded sample_group) Some net_write demo_nomatch (\<lambda>_ s. s) demo_settings fixed_env demo_request
     (a_disp (app_init (migrated 0))) = (reply 200 ok_body @ [LogRequest 200 15], Returned, after_save)"
proof -
  let ?h = "HandleWebhook (\<lambda>s. s) (\<lambda>_ _. Decoded sample_group)
      (\<lambda>g. on_store (Receive (Save Some) (c_MaxAlertsPerPayload demo_settings) fixed_env g)) (c_MaxPayloadSize demo_settings)"
  have n: "c_MaxAlertsPerPayload demo_settings = 100" by (simp add: demo_settings_def default_config_def)
  have "?h demo_request (NewDispatcher (migrated 0)) = (reply 200 ok_body, Returned, after_save)"
    by (simp add: HandleWebhook_def demo_request_def Receive_def validate_sample_group save_sample reply_def on_store_def n
        NewDispatcher_def after_save_def)
  then have "ServeMux demo_nomatch (routes (\<lambda>_ s. s) delay (Some ?h) cs) demo_request (NewDispatcher (migrated 0))
      = (reply 200 ok_body, Returned, after_save)" for delay cs
    by (simp add: route_alerts demo_request_def)
  from Logging_Recovery_reply [where h = "ServeMux _ _", OF this]
  show ?thesis by (simp add: app_handler_def New_def ok_body_def app_init_def net_write_def final_status_def informational_def bodyless_def)
qed

theorem store_outlives_users_witness:
  "(a_open (app_init (migrated 0) :: alert_group db app) \<longleftrightarrow> (\<forall>r. a_pc (app_init (migrated 0) :: alert_group db app) \<noteq> Exited r))
   \<and> d_pc (a_disp (app_init (migrated 0) :: alert_group db app)) \<noteq> Crashed"
  using store_outlives_users [OF demo_setup demo_init] by blast

theorem shutdown_terminates_witness: "1 \<le> app_work demo_names (app_init (migrated 0) :: alert_group db app)"
proof -
  let ?s = "app_init (migrated 0) :: alert_group db app"
  have "own_step demo_names (dispatcher_config_of demo_settings) MarkSent ?s
      (?s\<lparr>a_disp := Run_start demo_names (dispatcher_config_of demo_settings) (a_disp ?s)\<rparr>)"
    by (rule own_step.start) (simp add: app_init_def NewDispatcher_def)
  then have "(own_step demo_names (dispatcher_config_of demo_settings) MarkSent ^^ 1) ?s
      (?s\<lparr>a_disp := Run_start demo_names (dispatcher_config_of demo_settings) (a_disp ?s)\<rparr>)" by auto
  from shutdown_terminates [OF demo_setup demo_init this] show ?thesis by blast
qed

definition probe_request :: request where
  "probe_request = demo_request\<lparr>rq_method := ''GET'', rq_path := ''/readyz''\<rparr>"

theorem application_readiness_witness:
  "\<exists>as s'. app_handler (\<lambda>s. s) (\<lambda>_ _. BadJSON) Some net_write demo_nomatch (\<lambda>_ s. s) demo_settings fixed_env probe_request
       (NewDispatcher (migrated 0)) = (as, Returned, s') \<and> status_of (response as) = Some 503"
proof -
  let ?run = "app_handler (\<lambda>s. s) (\<lambda>_ _. BadJSON) Some net_write demo_nomatch (\<lambda>_ s. s) demo_settings fixed_env probe_request
       (NewDispatcher (migrated 0))"
  obtain as oc s' where run: "?run = (as, oc, s')" by (metis prod_cases3)
  from application_readiness [OF run] have "status_of (response as) = Some 503 \<and> oc = Returned"
    by (simp add: probe_request_def NewDispatcher_def)
  with run show ?thesis by blast
qed

text \<open>A start that fails on the templates leaves the database open: the store is opened before, and this error
  path does not close it.\<close>

lemma template_error_leaves_store_open:
  assumes "Load lib getenv = Inr c" "sqlite_New call (c_DatabaseDSN c) w = (None, w')" "build_channels new_engine c = Inl err"
  shows "run_setup lib call new_engine getenv w = (Inl err, w')"
  using assms driver_always_known [OF assms(1)] by (simp add: run_setup_def)

end
