(* ===== verification/DispatcherDelivery.thy ===== *)
theory DispatcherDelivery imports DispatcherLiveness begin

text \<open>
  What the dispatcher achieves: every notification in its hands was made from a group that was pending
  before, and a poll whose sends and store updates succeed delivers everything it found.
\<close>

section \<open>Where notifications come from\<close>

text \<open>The groups of the batch that are still to do, and the notification in hand.\<close>

fun batch_left :: "dpc \<Rightarrow> alert_group list" where
  "batch_left (Dispatch gs) = gs"
| "batch_left (Fanout n us k gs) = gs"
| "batch_left (Collecting n k ok gs) = gs"
| "batch_left (Marking n gs) = gs"
| "batch_left _ = []"

fun in_hand :: "dpc \<Rightarrow> notification option" where
  "in_hand (Fanout n us k gs) = Some n"
| "in_hand (Collecting n k ok gs) = Some n"
| "in_hand (Marking n gs) = Some n"
| "in_hand _ = None"

lemma key_NewNotification [simp]: "nGroupKey (NewNotification now g) = gGroupKey g"
  by (simp add: NewNotification_def)

definition note_of :: "(alert_group \<Rightarrow> bool) \<Rightarrow> notification \<Rightarrow> bool" where
  "note_of Q n \<longleftrightarrow> (\<exists>g now. Q g \<and> n = NewNotification now g)"

lemma note_of_new [intro]: "Q g \<Longrightarrow> note_of Q (NewNotification now g)"
  by (auto simp: note_of_def)

text \<open>All groups the dispatcher holds satisfy \<open>Q\<close>, those behind the notification in hand included.\<close>

definition made_from :: "(alert_group \<Rightarrow> bool) \<Rightarrow> dpc \<Rightarrow> bool" where
  "made_from Q pc \<longleftrightarrow>
     list_all Q (batch_left pc) \<and> (\<forall>n. in_hand pc = Some n \<longrightarrow> note_of Q n)"

lemma made_from_simps [simp]:
  "made_from Q NotStarted" "made_from Q Idle" "made_from Q (Closing js)" "made_from Q Waiting" "made_from Q Stopped" "made_from Q Crashed"
  "made_from Q (Dispatch gs) \<longleftrightarrow> list_all Q gs"
  "made_from Q (Fanout n us k gs) \<longleftrightarrow> list_all Q gs \<and> note_of Q n"
  "made_from Q (Collecting n k' ok gs) \<longleftrightarrow> list_all Q gs \<and> note_of Q n"
  "made_from Q (Marking n gs) \<longleftrightarrow> list_all Q gs \<and> note_of Q n"
  by (auto simp: made_from_def)

lemma istep_made_from:
  assumes "istep names cfg mark_sent s s'" "made_from Q (d_pc s)"
  shows "made_from Q (d_pc s')"
  using assms(1)
proof (cases rule: istep.cases)
  case (dispatch now)
  with assms(2) show ?thesis by (cases "d_pc s") (auto simp: dispatch_step.simps split: list.splits)
next
  case (fanout ctx)
  with assms(2) show ?thesis
    by (cases "d_pc s") (auto simp: fanout_step.simps Let_def split: list.splits option.splits)
next
  case collect
  with assms(2) show ?thesis by (cases "d_pc s") (auto simp: collect_step.simps split: list.splits nat.splits)
next
  case (mark e)
  with assms(2) show ?thesis by (cases "d_pc s") (auto simp: mark_step.simps)
next
  case (shutdown js)
  with assms(2) show ?thesis by (cases "d_pc s") (auto simp: shutdown_step.simps split: list.splits if_splits)
next
  case (worker i res)
  with assms(2) show ?thesis by (cases rule: worker_cases [OF worker(2)]) (auto simp: worker_step.simps)
qed

lemma dstep_cases:
  assumes "dstep names cfg get_pending mark_sent save arrives s s'"
  obtains (run) "d_pc s = NotStarted" "s' = Run_start names cfg s"
  | (poll) e where "d_pc s = Idle" "s' = poll_step names (get_pending e (dc_BatchSize cfg) (d_store s)) s"
  | (internal) "istep names cfg mark_sent s s'"
  | (cancel) "s' = s\<lparr>d_cancelled := True\<rparr>"
  | (webhook) g e where "arrives g" "s' = s\<lparr>d_store := snd (save e g (d_store s))\<rparr>"
  using assms by (cases rule: dstep.cases) (blast intro: istep.intros)+

lemma istep_store:
  assumes "istep names cfg mark_sent s s'"
  shows "d_store s' = d_store s
    \<or> (\<exists>e n gs. d_pc s = Marking n gs \<and> d_store s' = snd (mark_sent e (nGroupKey n) (d_store s)))"
  using assms
proof (cases rule: istep.cases)
  case (dispatch now)
  then show ?thesis by (cases "d_pc s") (auto simp: dispatch_step.simps split: list.splits)
next
  case (fanout ctx)
  then show ?thesis by (cases "d_pc s") (auto simp: fanout_step.simps Let_def split: list.splits option.splits)
next
  case collect
  then show ?thesis by (cases "d_pc s") (auto simp: collect_step.simps split: list.splits nat.splits)
next
  case (mark e)
  then show ?thesis by (cases "d_pc s") (auto simp: mark_step.simps)
next
  case (shutdown js)
  then show ?thesis by (cases "d_pc s") (auto simp: shutdown_step.simps split: list.splits if_splits)
next
  case (worker i res)
  then have "d_store s' = d_store s" by (cases rule: worker_cases [OF worker(2)]) (auto simp: worker_step.simps)
  then show ?thesis ..
qed

context alert_store begin

lemma dreach_origin:
  assumes "dreach names cfg get_pending mark_sent save arrives st0 s" "inv st0" "\<And>g. arrives g \<Longrightarrow> storable g"
    and "\<And>k g. pend st0 k = Some g \<Longrightarrow> Q g" "\<And>g. arrives g \<Longrightarrow> Q g"
  shows "(\<forall>k g. pend (d_store s) k = Some g \<longrightarrow> Q g) \<and> made_from Q (d_pc s)"
  using assms(1)
proof (induction rule: dreach.induct)
  case init
  with assms(4) show ?case by (simp add: NewDispatcher_def)
next
  case (step s s')
  note inv = dreach_store_inv [OF step.hyps(1) assms(2,3)]
  from step.hyps(2) show ?case
  proof (cases rule: dstep_cases)
    case run
    with step.IH show ?thesis by (simp add: Run_start_def)
  next
    case (poll e)
    have "list_all Q gs" if "get_pending e (dc_BatchSize cfg) (d_store s) = Inr gs" for gs
      using step.IH get_pending_sound [OF inv that] by (auto simp: list_all_iff)
    with step.IH poll show ?thesis by (simp add: poll_step_def split: sum.splits)
  next
    case internal
    from istep_store [OF this] have "pend (d_store s') k = pend (d_store s) k \<or> pend (d_store s') k = None" for k
      using mark_sent_ok [OF inv] mark_sent_err [OF inv] by (metis (no_types, lifting) fun_upd_apply not_None_eq surjective_pairing)
    with step.IH istep_made_from [OF internal] show ?thesis by (metis option.distinct(1))
  next
    case (webhook g e)
    obtain r st where sv: "save e g (d_store s) = (r, st)" by (meson surj_pair)
    show ?thesis
    proof (cases r)
      case None
      with save_ok [OF inv assms(3) [OF webhook(1)]] sv webhook step.IH assms(5) [OF webhook(1)] show ?thesis by simp
    next
      case (Some err)
      with save_err [OF sv [unfolded Some]] sv webhook step.IH show ?thesis by simp
    qed
  qed (use step.IH in simp)
qed

end

section \<open>A poll that meets no failure delivers what it found\<close>

text \<open>
  The internal steps when nothing outside fails: no context is done, every \<open>Send\<close> returns nil, and
  \<open>MarkSent\<close> runs in an environment without failures (\<open>ok\<close>).
\<close>

inductive hstep ::
  "string list \<Rightarrow> dispatcher_config \<Rightarrow> ('e \<Rightarrow> string \<Rightarrow> 's \<Rightarrow> goerr option \<times> 's) \<Rightarrow> ('e \<Rightarrow> bool) \<Rightarrow> 's dstate \<Rightarrow> 's dstate \<Rightarrow> bool"
  for names cfg mark_sent ok where
  dispatch: "s' \<in> set (dispatch_step names now s) \<Longrightarrow> hstep names cfg mark_sent ok s s'"
| fanout: "\<not> d_cancelled s \<Longrightarrow> s' \<in> set (fanout_step names None s) \<Longrightarrow> hstep names cfg mark_sent ok s s'"
| collect: "s' \<in> set (collect_step s) \<Longrightarrow> hstep names cfg mark_sent ok s s'"
| mark: "ok e \<Longrightarrow> s' \<in> set (mark_step (mark_sent e) s) \<Longrightarrow> hstep names cfg mark_sent ok s s'"
| worker: "i < length names \<Longrightarrow> s' \<in> set (worker_step names cfg i (Some None) s) \<Longrightarrow> hstep names cfg mark_sent ok s s'"

lemma hstep_istep: "hstep names cfg mark_sent ok s s' \<Longrightarrow> istep names cfg mark_sent s s'"
  by (induction rule: hstep.induct) (auto intro: istep.intros)

lemma hsteps_isteps: "(hstep names cfg mark_sent ok ^^ k) s s' \<Longrightarrow> (istep names cfg mark_sent ^^ k) s s'"
  by (induction k arbitrary: s') (auto dest: hstep_istep)

text \<open>The keys of a batch that are still to be marked.\<close>

definition keys_left :: "dpc \<Rightarrow> string list" where
  "keys_left pc = (case in_hand pc of Some n \<Rightarrow> [nGroupKey n] | None \<Rightarrow> []) @ map gGroupKey (batch_left pc)"

lemma keys_left_simps [simp]:
  "keys_left Idle = []" "keys_left (Dispatch gs) = map gGroupKey gs"
  "keys_left (Fanout n us k gs) = nGroupKey n # map gGroupKey gs"
  "keys_left (Collecting n k' ok gs) = nGroupKey n # map gGroupKey gs"
  "keys_left (Marking n gs) = nGroupKey n # map gGroupKey gs"
  by (simp_all add: keys_left_def)

text \<open>
  On the way from a poll of a store with the pending groups \<open>p0\<close> that found the keys \<open>ks\<close>: those no longer
  left are off the pending ones \<open>p\<close>, everything else is as it was, every channel takes the notification in hand, and
  no send has failed.
\<close>

definition delivering :: "string list \<Rightarrow> (string \<rightharpoonup> alert_group) \<Rightarrow> string list \<Rightarrow> (string \<rightharpoonup> alert_group) \<Rightarrow> 's dstate \<Rightarrow> bool" where
  "delivering names p0 ks p s \<longleftrightarrow>
     names \<noteq> [] \<and> \<not> d_cancelled s
     \<and> (in_hand (d_pc s) \<noteq> None \<longrightarrow> list_all (\<lambda>(i, n, res). res = None) (g_sent s))
     \<and> distinct (keys_left (d_pc s)) \<and> set (keys_left (d_pc s)) \<subseteq> set ks
     \<and> p = (\<lambda>k. if k \<in> set ks - set (keys_left (d_pc s)) then None else p0 k)
     \<and> (case d_pc s of
          Idle \<Rightarrow> True
        | Dispatch gs \<Rightarrow> True
        | Fanout n us k gs \<Rightarrow> k + length us = length names
        | Collecting n k ok gs \<Rightarrow> ok \<and> set (g_enq s) = {..<length names}
        | Marking n gs \<Rightarrow> set (g_enq s) = {..<length names}
        | _ \<Rightarrow> False)"

lemma Enqueue_live: "queue_ok q \<Longrightarrow> \<not> q_closed q \<Longrightarrow> (err, q') \<in> set (Enqueue None n q) \<Longrightarrow> err = None"
  by (auto simp: Enqueue_def Enqueue_select_def queue_ok_def split: if_splits)

lemma fanout_queue:
  assumes "dinv names cfg s" "distinct names" "d_pc s = Fanout n (i # us) k gs"
  shows "i < length names" "queue_index names (names ! i) = i" "queue_ok (d_queue s i)" "\<not> q_closed (d_queue s i)"
    and "valid_config cfg \<Longrightarrow> Enqueue None n (d_queue s i) \<noteq> []"
proof -
  from assms(1,3) show i: "i < length names" by (auto simp: dinv_def phase_def)
  with assms(2) show "queue_index names (names ! i) = i" by (rule queue_index_nth)
  from assms(1) i have w: "wired names cfg s i" by (simp add: dinv_def plumbing_def)
  with assms(3) show ok: "queue_ok (d_queue s i)" "\<not> q_closed (d_queue s i)" by (auto simp: wired_def shutting_def)
  from assms(1,3) i have "out names s i = 0" by (auto simp: dinv_def phase_def member_def)
  then have "q_ch (d_queue s i) = []" by (simp add: out_def unsent_def)
  with ok w assms(3) show "valid_config cfg \<Longrightarrow> Enqueue None n (d_queue s i) \<noteq> []"
    by (simp add: Enqueue_def Enqueue_select_def wired_def valid_config_def)
qed

lemma delivering_same_pc:
  "delivering names p0 ks p s \<Longrightarrow> d_pc s' = d_pc s \<Longrightarrow> d_cancelled s' = d_cancelled s \<Longrightarrow> g_enq s' = g_enq s \<Longrightarrow>
     (in_hand (d_pc s) \<noteq> None \<longrightarrow> list_all (\<lambda>(i, n, res). res = None) (g_sent s')) \<Longrightarrow> delivering names p0 ks p s'"
  by (simp add: delivering_def cong: dpc.case_cong)

lemma delivering_dispatch:
  "s' \<in> set (dispatch_step names now s) \<Longrightarrow> delivering names p0 ks p s \<Longrightarrow> delivering names p0 ks p s'"
  by (cases "d_pc s") (auto simp: dispatch_step.simps delivering_def split: list.splits)

lemma delivering_fanout:
  assumes "s' \<in> set (fanout_step names None s)" "distinct names" "dinv names cfg s" "delivering names p0 ks p s"
  shows "delivering names p0 ks p s'"
proof -
  from assms(1) obtain n us k gs where pc: "d_pc s = Fanout n us k gs"
    by (cases "d_pc s") (auto simp: fanout_step.simps)
  show ?thesis
  proof (cases us)
    case Nil
    with assms(3,4) pc have k: "length (g_enq s) = length names" "distinct (g_enq s)" "set (g_enq s) \<subseteq> {..<length names}" "k = length names"
      by (auto simp: dinv_def phase_def delivering_def)
    then have "set (g_enq s) = {..<length names}" by (intro card_subset_eq) (simp_all add: distinct_card)
    moreover from Nil assms(1,4) pc k(4) have "s' = s\<lparr>d_pc := Collecting n k True gs\<rparr>"
      by (auto simp: fanout_step.simps delivering_def)
    ultimately show ?thesis using assms(4) pc by (simp add: delivering_def)
  next
    case (Cons i us')
    note q = fanout_queue [OF assms(3,2) pc [unfolded Cons]]
    have "\<exists>q'. s' = s\<lparr>d_pc := Fanout n us' (Suc k) gs, d_queue := (d_queue s)(i := q'), g_enq := g_enq s @ [i]\<rparr>"
      using assms(1) pc Cons q(2) Enqueue_live [OF q(3,4)] by (fastforce simp: fanout_step.simps Let_def split: option.splits)
    then obtain q' where "s' = s\<lparr>d_pc := Fanout n us' (Suc k) gs, d_queue := (d_queue s)(i := q'), g_enq := g_enq s @ [i]\<rparr>" ..
    with assms(4) pc Cons show ?thesis by (simp add: delivering_def)
  qed
qed

lemma delivering_collect:
  assumes "s' \<in> set (collect_step s)" "dinv names cfg s" "delivering names p0 ks p s"
  shows "delivering names p0 ks p s'"
proof -
  from assms(1) obtain n k ok gs where pc: "d_pc s = Collecting n k ok gs"
    by (cases "d_pc s") (auto simp: collect_step.simps)
  have r: "sr_Err r = None" if "r \<in> set (d_results s)" for r
    using assms(2,3) pc that by (fastforce simp: dinv_def phase_def all_of_def is_result_def delivering_def list_all_iff)
  show ?thesis
  proof (cases k)
    case 0
    with assms(1,3) pc show ?thesis by (simp add: collect_step.simps delivering_def)
  next
    case (Suc k')
    with assms(1) pc obtain x rs where "d_results s = x # rs"
        "s' = s\<lparr>d_results := rs, d_pc := Collecting n k' (if sr_Err x \<noteq> None then False else ok) gs\<rparr>"
      by (cases "d_results s") (simp_all add: collect_step.simps)
    with r [of x] assms(3) pc show ?thesis by (simp add: delivering_def)
  qed
qed

lemma delivering_worker:
  assumes "s' \<in> set (worker_step names cfg i (Some None) s)" "i < length names" "dinv names cfg s" "delivering names p0 ks p s"
  shows "delivering names p0 ks p s'"
proof -
  note f = worker_frame [OF assms(1) worker_open [OF assms(1-3)]]
  have "g_sent s' = g_sent s \<or> (\<exists>n. g_sent s' = g_sent s @ [(i, n, None)])"
    using worker_open [OF assms(1-3)] by (cases rule: worker_cases [OF assms(1)]) auto
  with assms(4) have "in_hand (d_pc s) \<noteq> None \<longrightarrow> list_all (\<lambda>(i, n, res). res = None) (g_sent s')"
    by (auto simp: delivering_def)
  with delivering_same_pc [OF assms(4)] f show ?thesis by blast
qed

lemma hstep_progress:
  assumes "dinv names cfg s" "distinct names" "valid_config cfg" "delivering names p0 ks p s" "d_pc s \<noteq> Idle" "ok e0"
  shows "\<exists>s'. hstep names cfg mark_sent ok s s'"
proof (cases "d_pc s")
  case (Dispatch gs)
  then have "dispatch_step names zero_time s \<noteq> []" by (cases gs) (simp_all add: dispatch_step.simps)
  then show ?thesis by (rule nonempty_step) (rule hstep.dispatch)
next
  case (Fanout n us k gs)
  have "fanout_step names None s \<noteq> []"
    using Fanout fanout_queue(2,5) [OF assms(1,2)] assms(3) by (cases us) (simp_all add: fanout_step.simps Let_def)
  then show ?thesis by (rule nonempty_step) (rule hstep.fanout, use assms(4) in \<open>simp_all add: delivering_def\<close>)
next
  case (Collecting n k ok' gs)
  from collect_ready [OF assms(1-3) this] show ?thesis
  proof
    assume "collect_step s \<noteq> []"
    then show ?thesis by (rule nonempty_step) (rule hstep.collect)
  next
    assume "\<exists>i<length names. worker_step names cfg i (Some None) s \<noteq> []"
    then obtain i where i: "i < length names" "worker_step names cfg i (Some None) s \<noteq> []" by blast
    from i(2) show ?thesis by (rule nonempty_step) (rule hstep.worker [OF i(1)])
  qed
next
  case (Marking n gs)
  then have "mark_step (mark_sent e0) s \<noteq> []" by (simp add: mark_step.simps)
  then show ?thesis by (rule nonempty_step) (rule hstep.mark, rule assms(6))
qed (use assms(4,5) in \<open>simp_all add: delivering_def\<close>)

text \<open>The group is still to do, or its notification is in hand.\<close>

definition in_work :: "dpc \<Rightarrow> alert_group \<Rightarrow> bool" where
  "in_work pc g \<longleftrightarrow> g \<in> set (batch_left pc) \<or> (\<exists>now. in_hand pc = Some (NewNotification now g))"

lemma in_work_simps [simp]:
  "\<not> in_work Idle g" "in_work (Dispatch gs) g \<longleftrightarrow> g \<in> set gs"
  "in_work (Fanout n us k gs) g \<longleftrightarrow> g \<in> set gs \<or> (\<exists>now. n = NewNotification now g)"
  "in_work (Collecting n k' ok gs) g \<longleftrightarrow> g \<in> set gs \<or> (\<exists>now. n = NewNotification now g)"
  "in_work (Marking n gs) g \<longleftrightarrow> g \<in> set gs \<or> (\<exists>now. n = NewNotification now g)"
  by (simp_all add: in_work_def)

text \<open>The notification is about to be marked after each channel has sent it exactly once, successfully.\<close>

definition sent_by_all :: "string list \<Rightarrow> 's dstate \<Rightarrow> notification \<Rightarrow> bool" where
  "sent_by_all names u n \<longleftrightarrow>
     (\<exists>gs. d_pc u = Marking n gs) \<and> (\<forall>i<length names. filter (\<lambda>x. fst x = i) (g_sent u) = [(i, n, None)])"

lemma delivering_sent:
  assumes "delivering names p0 ks p s" "dinv names cfg s" "d_pc s = Marking n gs"
  shows "sent_by_all names s n"
  using marking_delivered [OF assms(2,3)] assms(1,3) by (auto simp: sent_by_all_def delivered_to_def delivering_def)

text \<open>A group goes out of work only by being marked.\<close>

lemma hstep_in_work:
  assumes "hstep names cfg mark_sent ok s s'" "delivering names p0 ks p s" "dinv names cfg s" "in_work (d_pc s) g"
  shows "in_work (d_pc s') g \<or> (\<exists>now gs. d_pc s = Marking (NewNotification now g) gs)"
  using assms(1)
proof (cases rule: hstep.cases)
  case (dispatch now)
  with assms(4) show ?thesis by (cases "d_pc s") (auto simp: dispatch_step.simps split: list.splits)
next
  case fanout
  with assms(2,4) show ?thesis
    by (cases "d_pc s") (auto simp: fanout_step.simps Let_def delivering_def split: list.splits option.splits)
next
  case collect
  with assms(2,4) show ?thesis
    by (cases "d_pc s") (auto simp: collect_step.simps delivering_def split: list.splits nat.splits)
next
  case (mark e)
  with assms(4) show ?thesis by (cases "d_pc s") (auto simp: mark_step.simps)
next
  case (worker i)
  with worker_frame [OF worker(2) worker_open [OF worker(2,1) assms(3)]] assms(4) show ?thesis by simp
qed

context notify_store begin

lemma delivering_mark:
  assumes "s' \<in> set (mark_step (mark_sent e) s)" "delivering names p0 ks (pend (d_store s)) s" "inv (d_store s)"
    and "set ks \<subseteq> known (d_store s)"
    and "\<And>k st. inv st \<Longrightarrow> k \<in> known st \<Longrightarrow> fst (mark_sent e k st) = None"
  shows "delivering names p0 ks (pend (d_store s')) s' \<and> inv (d_store s') \<and> known (d_store s') = known (d_store s)"
proof -
  from assms(1) obtain n gs where pc: "d_pc s = Marking n gs"
      and s': "s' = s\<lparr>d_pc := Dispatch gs, d_store := snd (mark_sent e (nGroupKey n) (d_store s))\<rparr>"
    by (cases "d_pc s") (auto simp: mark_step.simps)
  from pc assms(2,4) have k: "nGroupKey n \<in> set ks" "nGroupKey n \<in> known (d_store s)" by (auto simp: delivering_def)
  obtain st where st: "mark_sent e (nGroupKey n) (d_store s) = (None, st)"
    using assms(5) [OF assms(3) k(2)] by (metis prod.collapse)
  note m = mark_sent_ok [OF assms(3) st]
  have "pend st = (\<lambda>k. if k \<in> set ks - set (keys_left (Dispatch gs)) then None else p0 k)"
    using assms(2) pc m k(1) by (auto simp: delivering_def fun_eq_iff)
  with assms(2) pc s' st m show ?thesis by (auto simp: delivering_def)
qed

lemma hstep_delivering:
  assumes "hstep names cfg mark_sent ok s s'" "distinct names" "dinv names cfg s"
    and "delivering names p0 ks (pend (d_store s)) s" "inv (d_store s)" "set ks \<subseteq> known (d_store s)"
    and "\<And>e k st. ok e \<Longrightarrow> inv st \<Longrightarrow> k \<in> known st \<Longrightarrow> fst (mark_sent e k st) = None"
  shows "delivering names p0 ks (pend (d_store s')) s' \<and> inv (d_store s') \<and> set ks \<subseteq> known (d_store s')"
proof (cases "\<exists>e n gs. ok e \<and> s' \<in> set (mark_step (mark_sent e) s)")
  case True
  then obtain e where e: "ok e" "s' \<in> set (mark_step (mark_sent e) s)" by blast
  from delivering_mark [OF e(2) assms(4-6) assms(7) [OF e(1)]] assms(6) show ?thesis by simp
next
  case False
  have same: "d_store s' = d_store s" if "\<forall>n gs. d_pc s \<noteq> Marking n gs"
    using istep_store [OF hstep_istep [OF assms(1)]] that by blast
  from assms(1) show ?thesis
  proof (cases rule: hstep.cases)
    case (dispatch now)
    then have "\<forall>n gs. d_pc s \<noteq> Marking n gs" by (auto simp: dispatch_step.simps)
    with delivering_dispatch [OF dispatch assms(4)] same assms(5,6) show ?thesis by simp
  next
    case fanout
    then have "\<forall>n gs. d_pc s \<noteq> Marking n gs" by (auto simp: fanout_step.simps)
    with delivering_fanout [OF fanout(2) assms(2-4)] same assms(5,6) show ?thesis by simp
  next
    case collect
    then have "\<forall>n gs. d_pc s \<noteq> Marking n gs" by (auto simp: collect_step.simps)
    with delivering_collect [OF collect assms(3,4)] same assms(5,6) show ?thesis by simp
  next
    case (mark e)
    with False have False by blast
    then show ?thesis ..
  next
    case (worker i)
    from worker_frame [OF worker(2) worker_open [OF worker(2,1) assms(3)]] have "d_store s' = d_store s" by simp
    with delivering_worker [OF worker(2,1) assms(3,4)] assms(5,6) show ?thesis by simp
  qed
qed

lemma hsteps_delivering:
  assumes "(hstep names cfg mark_sent ok ^^ k) s s'" "distinct names" "dinv names cfg s"
    and "delivering names p0 ks (pend (d_store s)) s" "inv (d_store s)" "set ks \<subseteq> known (d_store s)"
    and "\<And>e k st. ok e \<Longrightarrow> inv st \<Longrightarrow> k \<in> known st \<Longrightarrow> fst (mark_sent e k st) = None"
  shows "dinv names cfg s' \<and> delivering names p0 ks (pend (d_store s')) s' \<and> inv (d_store s') \<and> set ks \<subseteq> known (d_store s')
    \<and> (\<forall>g. in_work (d_pc s) g \<longrightarrow> in_work (d_pc s') g
         \<or> (\<exists>u now. (hstep names cfg mark_sent ok)\<^sup>*\<^sup>* s u \<and> (hstep names cfg mark_sent ok)\<^sup>*\<^sup>* u s' \<and> sent_by_all names u (NewNotification now g)))"
  using assms(1)
proof (induction k arbitrary: s')
  case 0
  with assms(3-6) show ?case by simp
next
  case (Suc k)
  let ?R = "hstep names cfg mark_sent ok"
  from Suc.prems obtain s1 where s1: "(?R ^^ k) s s1" "?R s1 s'" by auto
  from Suc.IH [OF s1(1)] have ih: "dinv names cfg s1" "delivering names p0 ks (pend (d_store s1)) s1"
    "inv (d_store s1)" "set ks \<subseteq> known (d_store s1)" by simp_all
  have "in_work (d_pc s') g \<or> (\<exists>u now. ?R\<^sup>*\<^sup>* s u \<and> ?R\<^sup>*\<^sup>* u s' \<and> sent_by_all names u (NewNotification now g))"
    if g: "in_work (d_pc s) g" for g
  proof (cases "in_work (d_pc s1) g")
    case True
    have "?R\<^sup>*\<^sup>* s s1" using s1(1) by (rule relpowp_imp_rtranclp)
    with hstep_in_work [OF s1(2) ih(2,1) True] delivering_sent [OF ih(2,1)] s1(2) show ?thesis
      by (meson r_into_rtranclp)
  next
    case False
    with Suc.IH [OF s1(1)] g obtain u now where
      u: "?R\<^sup>*\<^sup>* s u" "?R\<^sup>*\<^sup>* u s1" "sent_by_all names u (NewNotification now g)" by blast
    from u(2) s1(2) have "?R\<^sup>*\<^sup>* u s'" by (rule rtranclp.rtrancl_into_rtrancl)
    with u(1,3) show ?thesis by blast
  qed
  with hstep_delivering [OF s1(2) assms(2) ih assms(7)] istep_dinv [OF hstep_istep [OF s1(2)] assms(2) ih(1)]
  show ?case by blast
qed

text \<open>The poll itself starts such a delivery.\<close>

lemma poll_delivering:
  assumes "get_pending e n (d_store s) = Inr gs" "inv (d_store s)" "dinv names cfg s" "d_pc s = Idle"
    and "\<not> d_cancelled s" "names \<noteq> []"
  shows "delivering names (pend (d_store s)) (map gGroupKey gs) (pend (d_store s)) (poll_step names (Inr gs) s)
    \<and> set (map gGroupKey gs) \<subseteq> known (d_store s)"
proof -
  from get_pending_sound [OF assms(2,1)] pend_key [OF assms(2)]
  have "distinct (map gGroupKey gs)" "set (map gGroupKey gs) \<subseteq> known (d_store s)" by auto
  with assms(4-6) show ?thesis by (cases "gs = []") (auto simp: delivering_def poll_step_def)
qed

end

lemma bounded_run_ends:
  fixes R :: "'a \<Rightarrow> 'a \<Rightarrow> bool"
  assumes "\<forall>k t. (R ^^ k) s t \<longrightarrow> k \<le> b"
  shows "\<exists>k t. (R ^^ k) s t \<and> (\<nexists>u. R t u)"
proof -
  have "(R ^^ 0) s s" by simp
  from ex_has_greatest_nat [of "\<lambda>k. \<exists>t. (R ^^ k) s t" 0 "\<lambda>k. k" "Suc b"] this assms
  obtain k where k: "\<exists>t. (R ^^ k) s t" "\<And>m. \<exists>t. (R ^^ m) s t \<Longrightarrow> m \<le> k"
    by (metis le_imp_less_Suc)
  then obtain t where t: "(R ^^ k) s t" by blast
  moreover have "\<not> R t u" for u
  proof
    assume "R t u"
    with t have "\<exists>u. (R ^^ Suc k) s u" by auto
    with k(2) [of "Suc k"] show False by simp
  qed
  ultimately show ?thesis by blast
qed

text \<open>C3: A poll that meets no failure delivers everything it found.  From a poll of the live dispatcher, as long
  as every \<open>Send\<close> returns without an error, no context is done, the database works and no webhook request
  saves a group, dispatcher and workers take at most \<open>work\<close> steps, and they rest only in the wait for the next
  tick.  By then every polled group has been delivered: on the way there was a moment when a notification made
  from it was about to be marked and each channel had sent that notification exactly once, without an error.  Exactly
  the polled groups are then off the pending ones; if the batch was not full, nothing is pending any more.\<close>

theorem healthy_poll_delivers:
  assumes "dreach names cfg (GetPending unmarshal) MarkSent (Save marshal) arrives d0 s"
    and "distinct names" "valid_config cfg" "db_wf unmarshal d0" "\<And>g. arrives g \<Longrightarrow> storable marshal unmarshal g"
    and "d_pc s = Idle" "\<not> d_cancelled s" "names \<noteq> []" "GetPending unmarshal e (dc_BatchSize cfg) (d_store s) = Inr gs"
    and "P = poll_step names (Inr gs) s" "healthy = hstep names cfg MarkSent (\<lambda>e. e_fail e = no_faults)" "(healthy ^^ k) P s'"
  shows "k \<le> work names P
    \<and> ((\<nexists>s''. healthy s' s'') \<longrightarrow>
         d_pc s' = Idle
         \<and> (\<forall>g\<in>set gs. \<exists>u now gs'. healthy\<^sup>*\<^sup>* P u \<and> healthy\<^sup>*\<^sup>* u s' \<and> d_pc u = Marking (NewNotification now g) gs'
              \<and> (\<forall>i<length names. filter (\<lambda>x. fst x = i) (g_sent u) = [(i, NewNotification now g, None)]))
         \<and> pending_map unmarshal (d_store s') = pending_map unmarshal (d_store s) |` (- gGroupKey ` set gs)
         \<and> (int (length gs) < dc_BatchSize cfg \<longrightarrow> pending_map unmarshal (d_store s') = Map.empty))"
proof -
  let ?before = "pending_map unmarshal (d_store s)"
  note d = dreach_dinv [OF assms(1-3)]
  from d poll_dinv [of names cfg s "Inr gs"] assms(6) have dp: "dinv names cfg P" by (simp add: assms(10))
  have inv: "db_wf unmarshal (d_store s)" by (rule sqlite_store.dreach_store_inv [OF assms(1,4,5)])
  have st: "d_store P = d_store s" by (simp add: poll_step_def assms(10))
  from sqlite_store.poll_delivering [OF assms(9) inv d assms(6-8)]
  have p: "delivering names ?before (map gGroupKey gs) (pending_map unmarshal (d_store P)) P"
    "set (map gGroupKey gs) \<subseteq> known_keys (d_store P)" unfolding st unfolding assms(10) by blast+
  have "fst (MarkSent e k st) = None" if "e_fail e = no_faults" "db_wf unmarshal st" "k \<in> known_keys st" for e k and st :: "'a db"
    using MarkSent_ok [OF that] by simp
  from sqlite_store.hsteps_delivering [OF assms(12) [unfolded assms(11)] assms(2) dp p(1) inv [folded st] p(2) this, folded assms(11)]
  have s': "dinv names cfg s'" "delivering names ?before (map gGroupKey gs) (pending_map unmarshal (d_store s')) s'"
    and sent: "\<And>g. in_work (d_pc P) g \<Longrightarrow> in_work (d_pc s') g
        \<or> (\<exists>u now. healthy\<^sup>*\<^sup>* P u \<and> healthy\<^sup>*\<^sup>* u s' \<and> sent_by_all names u (NewNotification now g))"
    by blast+
  have no_faults: "e_fail ok_env = no_faults" by (simp add: ok_env_def)
  have idle: "d_pc s' = Idle" if "\<nexists>s''. healthy s' s''"
    using hstep_progress [where ok = "\<lambda>e. e_fail e = no_faults", OF s'(1) assms(2,3) s'(2) _ no_faults] that assms(11) by blast
  have delivered: "\<exists>u now gs'. healthy\<^sup>*\<^sup>* P u \<and> healthy\<^sup>*\<^sup>* u s' \<and> d_pc u = Marking (NewNotification now g) gs'
      \<and> (\<forall>i<length names. filter (\<lambda>x. fst x = i) (g_sent u) = [(i, NewNotification now g, None)])"
    if "d_pc s' = Idle" "g \<in> set gs" for g
  proof -
    have "in_work (d_pc P) g" using that(2) assms(8) by (auto simp: assms(10) poll_step_def)
    with sent [OF this] that(1) show ?thesis unfolding sent_by_all_def by fastforce
  qed
  have rest: "pending_map unmarshal (d_store s') = ?before |` (- gGroupKey ` set gs)" if pc: "d_pc s' = Idle"
  proof -
    from s'(2) pc have "pending_map unmarshal (d_store s') = (\<lambda>k. if k \<in> set (map gGroupKey gs) - {} then None else ?before k)"
      by (simp only: delivering_def keys_left_simps list.set)
    then show ?thesis by (simp only: restrict_map_def set_map) (rule ext, simp)
  qed
  have "?before |` (- gGroupKey ` set gs) = Map.empty" if len: "int (length gs) < dc_BatchSize cfg"
  proof
    fix x
    have "length gs < nat (dc_BatchSize cfg)" using len by linarith
    then have "?before x = Some g \<longleftrightarrow> g \<in> set gs \<and> gGroupKey g = x" for g
      using sqlite_store.get_pending_complete [OF inv assms(9)] by blast
    then show "(?before |` (- gGroupKey ` set gs)) x = None"
      by (cases "?before x") (force simp: restrict_map_def)+
  qed
  moreover have "k \<le> work names P"
    using isteps_work [OF hsteps_isteps [OF assms(12) [unfolded assms(11)]] assms(2) dp] by simp
  ultimately show ?thesis using idle rest delivered by metis
qed

definition idle_state :: "alert_group db dstate" where
  "idle_state = Run_start two_channels demo_config (NewDispatcher sample_db)"

lemma idle_state:
  "dreach two_channels demo_config (GetPending Some) MarkSent (Save Some) (\<lambda>_. True) sample_db idle_state"
  "d_pc idle_state = Idle" "\<not> d_cancelled idle_state" "d_store idle_state = sample_db"
  unfolding idle_state_def
  by (rule dreach.step [OF dreach.init dstep.run])
    (simp_all add: Run_start_def NewDispatcher_def result_cap_def demo_config_def two_channels_def)

theorem healthy_poll_delivers_witness:
  "pending_map Some (d_store idle_state) ''k1'' = Some sample_group
   \<and> (\<exists>k s'. (hstep two_channels demo_config MarkSent (\<lambda>e. e_fail e = no_faults) ^^ k)
             (poll_step two_channels (Inr [sample_group]) idle_state) s'
        \<and> d_pc s' = Idle \<and> pending_map Some (d_store s') = Map.empty)"
proof -
  have poll: "GetPending Some ok_env (dc_BatchSize demo_config) (d_store idle_state) = Inr [sample_group]"
    by (simp add: idle_state(4) demo_config_def poll_sample)
  have arr: "\<And>g. storable Some Some g" by (simp add: storable_def)
  have ne: "two_channels \<noteq> []" by (simp add: two_channels_def)
  note delivers = healthy_poll_delivers [OF idle_state(1) demo_valid(2,1) sample_db_wf arr idle_state(2,3) ne poll refl refl]
  have "\<forall>k t. (hstep two_channels demo_config MarkSent (\<lambda>e. e_fail e = no_faults) ^^ k)
        (poll_step two_channels (Inr [sample_group]) idle_state) t
      \<longrightarrow> k \<le> work two_channels (poll_step two_channels (Inr [sample_group]) idle_state)"
    using delivers by blast
  from bounded_run_ends [OF this] obtain k s' where
    run: "(hstep two_channels demo_config MarkSent (\<lambda>e. e_fail e = no_faults) ^^ k) (poll_step two_channels (Inr [sample_group]) idle_state) s'"
      "\<nexists>u. hstep two_channels demo_config MarkSent (\<lambda>e. e_fail e = no_faults) s' u" by blast
  have "int (length [sample_group]) < dc_BatchSize demo_config" by (simp add: demo_config_def)
  with delivers [OF run(1)] run(2) have "d_pc s' = Idle \<and> pending_map Some (d_store s') = Map.empty"
    by blast
  with run(1) show ?thesis by (auto simp: idle_state(4) sample_pending)
qed

end
