(* ===== verification/DispatcherTyping.thy ===== *)
theory DispatcherTyping imports DispatcherDelivery begin

text \<open>
  What values the goroutines of the dispatcher pass each other: which notifications are in the queues and in
  the hands of the workers, which results are in the result channel, and how full the channels get.
\<close>

section \<open>The type of a state\<close>

text \<open>A worker's hands hold a notification made from a group with \<open>Q\<close> or a result of its own channel.\<close>

fun holds :: "(alert_group \<Rightarrow> bool) \<Rightarrow> string \<Rightarrow> wstate \<Rightarrow> bool" where
  "holds Q name (WSend n) \<longleftrightarrow> note_of Q n"
| "holds Q name (WPut r) \<longleftrightarrow> sr_Channel r = name"
| "holds Q name _ \<longleftrightarrow> True"

definition line_typed :: "(alert_group \<Rightarrow> bool) \<Rightarrow> string \<Rightarrow> nat \<Rightarrow> notification queue \<Rightarrow> wstate \<Rightarrow> bool" where
  "line_typed Q name qsize q w \<longleftrightarrow>
     (\<forall>n\<in>set (q_ch q). note_of Q n) \<and> length (q_ch q) \<le> 1 \<and> q_cap q = qsize \<and> q_done q = q_closed q \<and> holds Q name w \<and> w \<noteq> WNew"

definition state_typed :: "(alert_group \<Rightarrow> bool) \<Rightarrow> string list \<Rightarrow> dispatcher_config \<Rightarrow> 's dstate \<Rightarrow> bool" where
  "state_typed Q names cfg s \<longleftrightarrow>
     (d_pc s \<noteq> NotStarted \<longrightarrow>
        (\<forall>i<length names. line_typed Q (names ! i) (nat (dc_QueueSize cfg)) (d_queue s i) (d_worker s i)))
     \<and> (\<forall>r\<in>set (d_results s). sr_Channel r \<in> set names) \<and> length (d_results s) \<le> length names
     \<and> made_from Q (d_pc s) \<and> d_pc s \<noteq> Crashed"

section \<open>Every reachable state has it\<close>

lemma out_one:
  assumes "dinv names cfg s" "i < length names"
  shows "out names s i \<le> 1 \<and> (0 < out names s i \<longrightarrow> (\<exists>n. in_hand (d_pc s) = Some n \<and> mine names s n i))"
proof -
  from assms(1) have "phase names s" by (simp add: dinv_def)
  then show ?thesis
    using assms(2) by (cases "d_pc s") (auto simp: phase_def quiet_def all_of_def member_def split: if_splits)
qed

lemma line_typed_dinv:
  assumes "dinv names cfg s" "made_from Q (d_pc s)" "i < length names" "d_pc s \<noteq> NotStarted"
  shows "line_typed Q (names ! i) (nat (dc_QueueSize cfg)) (d_queue s i) (d_worker s i)"
proof -
  from assms(1,3) have w: "wired names cfg s i" by (simp add: dinv_def plumbing_def)
  from out_one [OF assms(1,3)] have one: "length (q_ch (d_queue s i)) \<le> 1" by (simp add: out_def unsent_def)
  have made: "note_of Q n" if "in_hand (d_pc s) = Some n" for n using assms(2) that by (simp add: made_from_def)
  have queued: "note_of Q n" if "n \<in> set (q_ch (d_queue s i))" for n
  proof -
    from that have "0 < out names s i" by (auto simp: out_def unsent_def)
    with out_one [OF assms(1,3)] that made show ?thesis by (auto simp: mine_def)
  qed
  have "holds Q (names ! i) (d_worker s i)"
  proof (cases "d_worker s i")
    case (WSend n)
    then have "0 < out names s i" by (simp add: out_def unsent_def)
    with out_one [OF assms(1,3)] WSend made show ?thesis by (auto simp: mine_def)
  next
    case (WPut r)
    with w show ?thesis by (simp add: wired_def)
  qed simp_all
  with queued one w assms(4) show ?thesis by (auto simp: line_typed_def wired_def queue_ok_def)
qed

lemma dinv_typed:
  assumes "dinv names cfg s" "made_from Q (d_pc s)" "distinct names"
  shows "state_typed Q names cfg s"
proof -
  from assms(1) have p: "plumbing names cfg s" and "d_pc s \<noteq> Crashed" by (auto simp: dinv_def phase_def)
  have "length (d_results s) \<le> (\<Sum>i<length names. out names s i)" by (rule results_le_out [OF assms(3) p])
  also have "\<dots> \<le> (\<Sum>i<length names. 1)" using out_one [OF assms(1)] by (intro sum_mono) simp
  finally have "length (d_results s) \<le> length names" by simp
  with p \<open>d_pc s \<noteq> Crashed\<close> assms(2) line_typed_dinv [OF assms(1,2)] show ?thesis
    by (simp add: state_typed_def plumbing_def)
qed

context alert_store begin

lemma dreach_typed:
  assumes "dreach names cfg get_pending mark_sent save arrives st0 s" "inv st0" "\<And>g. arrives g \<Longrightarrow> storable g"
    and "distinct names" "valid_config cfg"
  shows "state_typed (\<lambda>g. arrives g \<or> pend st0 (gGroupKey g) = Some g) names cfg s"
proof (rule dinv_typed [OF dreach_dinv [OF assms(1,4,5)] _ assms(4)])
  show "made_from (\<lambda>g. arrives g \<or> pend st0 (gGroupKey g) = Some g) (d_pc s)"
    by (rule dreach_origin [OF assms(1-3), THEN conjunct2]) (use pend_key [OF assms(2)] in blast)+
qed

end

section \<open>The channels never fill up\<close>

text \<open>With a context that is not done, the fan-out never waits and is never refused: the queue has room.\<close>

lemma typed_enqueue:
  assumes "line_typed Q name qsize q w" "1 < qsize" "\<not> q_closed q"
  shows "Enqueue None n q = [(None, q\<lparr>q_ch := q_ch q @ [n]\<rparr>)]"
  using assms by (auto simp: line_typed_def Enqueue_def Enqueue_select_def)

text \<open>A worker with a result never waits for the result channel.\<close>

lemma typed_put:
  assumes "state_typed Q names cfg s" "valid_config cfg" "d_worker s i = WPut r" "\<not> d_resClosed s"
  shows "worker_step names cfg i ret s = [s\<lparr>d_results := d_results s @ [r], d_worker := (d_worker s)(i := WTry)\<rparr>]"
proof -
  from assms(2) have "int (length names) * 1 \<le> int (length names) * dc_BatchSize cfg"
    by (intro mult_left_mono) (simp_all add: valid_config_def)
  with assms(1) have "int (length (d_results s)) < result_cap names cfg" by (simp add: state_typed_def result_cap_def)
  with assms(3,4) show ?thesis by (simp add: worker_step.simps)
qed

end
