(* ===== verification/RelaySystem.thy ===== *)
theory RelaySystem imports Application DispatcherTyping begin

text \<open>
  The relay as a whole: the application of \<open>main.go\<close> whose workers call the channels that \<open>run\<close> built, the
  template engine with its watcher behind the e-mail channel, and the services outside.  It is put together
  from the application's steps and the channels' operations, and its runs are runs of the application.
\<close>

section \<open>The channels as the workers see them\<close>

text \<open>What is outside the program: the constructor of requests and the HTTP client, the SMTP client and what
  stamps a message, the execution of templates and \<open>filepath.Join\<close>.  \<open>sv_blocked w\<close>: a call that led to the world
  \<open>w\<close> has not returned.\<close>

record ('t, 'w) services =
  sv_new_request :: "string \<Rightarrow> goerr option"
  sv_do_request :: "http_request \<Rightarrow> 'w \<Rightarrow> (goerr + int \<times> string) \<times> 'w"
  sv_smtp :: "'w smtp"
  sv_stamp :: "'w \<Rightarrow> gotime \<times> string"
  sv_execute :: "'t \<Rightarrow> string \<Rightarrow> notification \<Rightarrow> goerr + string"
  sv_join :: "string \<Rightarrow> string \<Rightarrow> string"
  sv_blocked :: "'w \<Rightarrow> bool"

text \<open>The e-mail channel that \<open>run\<close> makes, with a template formatter if there is an engine.\<close>

definition email_channel_of ::
  "('t, 'w) services \<Rightarrow> sender \<Rightarrow> string list \<Rightarrow> string \<Rightarrow> 't engine option \<Rightarrow> email_channel" where
  "email_channel_of sv s to pfx eng =
     email_NewChannel s to pfx [map_option (\<lambda>e. FormatBody (sv_execute sv) (NewTemplateFormatter e ''default.html.tmpl'')) eng]"

fun app_call :: "('t, 'w) services \<Rightarrow> 't app_channel \<Rightarrow> notification \<Rightarrow> 'w \<Rightarrow> goerr option \<times> 'w" where
  "app_call sv (PachcaChannel c chatID) n w = pachca_Send (sv_new_request sv) (sv_do_request sv) c chatID n w"
| "app_call sv (EmailChannel s to pfx eng) n w =
     email_Send (sv_smtp sv) (sv_stamp sv) (email_channel_of sv s to pfx eng) n w"

text \<open>A \<open>Send\<close> returns unless one of its calls does not.\<close>

definition app_send :: "('t, 'w) services \<Rightarrow> 't app_channel \<Rightarrow> notification \<Rightarrow> 'w \<Rightarrow> (goerr option \<times> 'w) option" where
  "app_send sv ch n w = (let (err, w') = app_call sv ch n w in if sv_blocked sv w' then None else Some (err, w'))"

lemma app_send_call: "app_send sv ch n w = Some (err, w') \<Longrightarrow> app_call sv ch n w = (err, w')"
  by (simp add: app_send_def Let_def split: prod.splits if_splits)

text \<open>What a \<open>Send\<close> without error means: the service on the other side took the notification.\<close>

fun app_accepted :: "('t, 'w) services \<Rightarrow> 't app_channel \<Rightarrow> notification \<Rightarrow> 'w \<Rightarrow> 'w \<Rightarrow> bool" where
  "app_accepted sv (PachcaChannel c chatID) n w w' = pachca_accepted (sv_do_request sv) c chatID n w w'"
| "app_accepted sv (EmailChannel s to pfx eng) n w w' =
     email_accepted (sv_smtp sv) (sv_stamp sv) (email_channel_of sv s to pfx eng) n w w'"

interpretation app_channel: channel "channel_name ch" "app_call sv ch" "app_accepted sv ch" for sv ch
proof unfold_locales
  show "app_accepted sv ch n w w'" if "app_call sv ch n w = (None, w')" for n w w'
    using that pachca_channel.send_ok email_channel.send_ok by (cases ch) auto
qed

text \<open>The engine is shared: the channel uses the templates the watcher last put into it.\<close>

fun channel_engine :: "'t app_channel \<Rightarrow> 't engine option" where
  "channel_engine (PachcaChannel c chatID) = None"
| "channel_engine (EmailChannel s to pfx eng) = eng"

fun with_engine :: "'t engine option \<Rightarrow> 't app_channel \<Rightarrow> 't app_channel" where
  "with_engine e (PachcaChannel c chatID) = PachcaChannel c chatID"
| "with_engine e (EmailChannel s to pfx eng) = EmailChannel s to pfx e"

definition engine_of :: "'t app_channel list \<Rightarrow> 't engine option" where
  "engine_of channels = (case List.map_filter channel_engine channels of [] \<Rightarrow> None | e # _ \<Rightarrow> Some e)"

section \<open>The system\<close>

text \<open>
  A delivery is one call of a channel's \<open>Send\<close>: by which channel, for what, its result, the channel as it was
  then, and the world on its other side before and after.  Each channel has a world of its own, because
  the services do not know of each other; the journal of deliveries is history that no step reads.
\<close>

record ('t, 'w) delivery =
  dl_channel :: nat
  dl_note :: notification
  dl_err :: "goerr option"
  dl_by :: "'t app_channel"
  dl_before :: 'w
  dl_after :: 'w

record ('s, 't, 'w) relay =
  r_app :: "'s app"
  r_watcher :: "'t watcher option"
  r_world :: "nat \<Rightarrow> 'w"
  r_journal :: "('t, 'w) delivery list"

text \<open>\<open>newErr\<close> and \<open>add\<close> are what fsnotify answers when \<open>Watch\<close> starts; if it returns an error, that is logged.\<close>

definition relay_init ::
  "('t, 'w) services \<Rightarrow> goerr option \<Rightarrow> (string \<Rightarrow> goerr option) \<Rightarrow> 't app_channel list \<Rightarrow> 's \<Rightarrow> (nat \<Rightarrow> 'w)
   \<Rightarrow> ('s, 't, 'w) relay" where
  "relay_init sv newErr add channels st world =
     \<lparr>r_app = app_init st,
      r_watcher = map_option (\<lambda>e. snd (Watch newErr add (sv_join sv) [] (NewWatcher e))) (engine_of channels),
      r_world = world, r_journal = []\<rparr>"

text \<open>No worker returns from a \<open>Send\<close> in a step of the application; those steps are \<open>send\<close> below.\<close>

definition no_send :: "'s app \<Rightarrow> 's app \<Rightarrow> bool" where
  "no_send a a' \<longleftrightarrow> (\<forall>i n. d_worker (a_disp a) i = WSend n \<longrightarrow> d_worker (a_disp a') i = WSend n)"

abbreviation current_channel :: "'t app_channel list \<Rightarrow> ('s, 't, 'w) relay \<Rightarrow> nat \<Rightarrow> 't app_channel" where
  "current_channel channels s i \<equiv> with_engine (map_option w_engine (r_watcher s)) (channels ! i)"

inductive relay_step ::
  "('t, 'w) services \<Rightarrow> config \<Rightarrow> 't app_channel list \<Rightarrow> ('e \<Rightarrow> int \<Rightarrow> 's \<Rightarrow> goerr + alert_group list)
   \<Rightarrow> ('e \<Rightarrow> string \<Rightarrow> 's \<Rightarrow> goerr option \<times> 's) \<Rightarrow> ('e \<Rightarrow> alert_group \<Rightarrow> 's \<Rightarrow> goerr option \<times> 's) \<Rightarrow> (alert_group \<Rightarrow> bool)
   \<Rightarrow> ('s, 't, 'w) relay \<Rightarrow> ('s, 't, 'w) relay \<Rightarrow> bool"
  for sv c channels get_pending mark_sent save arrives where
  send: "i < length channels \<Longrightarrow> d_worker (a_disp (r_app s)) i = WSend n \<Longrightarrow>
     app_send sv (current_channel channels s i) n (r_world s i) = Some (err, w) \<Longrightarrow>
     d \<in> set (worker_step (map channel_name channels) (dispatcher_config_of c) i (Some err) (a_disp (r_app s))) \<Longrightarrow>
     relay_step sv c channels get_pending mark_sent save arrives s
       (s\<lparr>r_app := (r_app s)\<lparr>a_disp := d\<rparr>, r_world := (r_world s)(i := w),
          r_journal := r_journal s @ [\<lparr>dl_channel = i, dl_note = n, dl_err = err, dl_by = current_channel channels s i,
                                       dl_before = r_world s i, dl_after = w\<rparr>]\<rparr>)"
| app: "app_step (map channel_name channels) (dispatcher_config_of c) get_pending mark_sent save arrives (r_app s) a \<Longrightarrow>
     no_send (r_app s) a \<Longrightarrow> relay_step sv c channels get_pending mark_sent save arrives s (s\<lparr>r_app := a\<rparr>)"
| watch: "r_watcher s = Some wt \<Longrightarrow> t_ReloadEnabled (c_Template c) \<Longrightarrow>
     relay_step sv c channels get_pending mark_sent save arrives s (s\<lparr>r_watcher := Some (watch_step (sv_join sv) inp wt)\<rparr>)"
| outside: "relay_step sv c channels get_pending mark_sent save arrives s (s\<lparr>r_world := world\<rparr>)"

inductive relay_reach ::
  "('t, 'w) services \<Rightarrow> config \<Rightarrow> 't app_channel list \<Rightarrow> ('e \<Rightarrow> int \<Rightarrow> 's \<Rightarrow> goerr + alert_group list)
   \<Rightarrow> ('e \<Rightarrow> string \<Rightarrow> 's \<Rightarrow> goerr option \<times> 's) \<Rightarrow> ('e \<Rightarrow> alert_group \<Rightarrow> 's \<Rightarrow> goerr option \<times> 's) \<Rightarrow> (alert_group \<Rightarrow> bool)
   \<Rightarrow> 's \<Rightarrow> ('s, 't, 'w) relay \<Rightarrow> bool"
  for sv c channels get_pending mark_sent save arrives st0 where
  init: "relay_reach sv c channels get_pending mark_sent save arrives st0 (relay_init sv newErr add channels st0 world)"
| step: "relay_reach sv c channels get_pending mark_sent save arrives st0 s \<Longrightarrow>
     relay_step sv c channels get_pending mark_sent save arrives s s' \<Longrightarrow>
     relay_reach sv c channels get_pending mark_sent save arrives st0 s'"

section \<open>A run of the relay is a run of the application\<close>

lemma webhook_on_open_store:
  "a_server s \<noteq> ServerClosed \<Longrightarrow> a_open s \<Longrightarrow> arrives g \<Longrightarrow> app_step names cfg get_pending mark_sent save arrives s
     (s\<lparr>a_disp := (a_disp s)\<lparr>d_store := snd (save e g (d_store (a_disp s)))\<rparr>\<rparr>)"
  using app_step.webhook [where s = s and g = g and e = e and save = save] by (simp add: save_if_open_def)

lemma relay_step_app:
  assumes "relay_step sv c channels get_pending mark_sent save arrives s s'"
  shows "r_app s' = r_app s
    \<or> app_step (map channel_name channels) (dispatcher_config_of c) get_pending mark_sent save arrives (r_app s) (r_app s')"
  using assms
proof (cases rule: relay_step.cases)
  case (send i n err w d)
  from send(2,5) have "istep (map channel_name channels) (dispatcher_config_of c) mark_sent (a_disp (r_app s)) d"
    by (intro istep.worker) simp_all
  with send(1) show ?thesis using app_step.internal by fastforce
qed auto

lemma relay_steps_app:
  "(relay_step sv c channels get_pending mark_sent save arrives)\<^sup>*\<^sup>* s s' \<Longrightarrow>
     (app_step (map channel_name channels) (dispatcher_config_of c) get_pending mark_sent save arrives)\<^sup>*\<^sup>* (r_app s) (r_app s')"
proof (induction rule: rtranclp_induct)
  case (step s1 s2)
  with relay_step_app [OF step.hyps(2)] show ?case by (metis rtranclp.rtrancl_into_rtrancl)
qed simp

lemma relay_reach_app:
  "relay_reach sv c channels get_pending mark_sent save arrives st0 s \<Longrightarrow>
     app_reach (map channel_name channels) (dispatcher_config_of c) get_pending mark_sent save arrives st0 (r_app s)"
proof (induction rule: relay_reach.induct)
  case (init world)
  show ?case by (simp add: relay_init_def app_reach.init)
next
  case (step s s')
  with relay_step_app [OF step.hyps(2)] show ?case by (metis app_reach.step)
qed

section \<open>The journal tells of every send\<close>

definition journal_ok :: "('t, 'w) services \<Rightarrow> 't app_channel list \<Rightarrow> ('s, 't, 'w) relay \<Rightarrow> bool" where
  "journal_ok sv channels s \<longleftrightarrow>
     (\<exists>before. map (\<lambda>e. (dl_channel e, dl_note e, dl_err e)) (r_journal s) = before @ g_sent (a_disp (r_app s)))
     \<and> (\<forall>e\<in>set (r_journal s). (\<exists>eng. dl_by e = with_engine eng (channels ! dl_channel e))
          \<and> app_send sv (dl_by e) (dl_note e) (dl_before e) = Some (dl_err e, dl_after e))"

lemma istep_sent:
  assumes "istep names cfg mark_sent d d'" "\<And>i n. d_worker d i = WSend n \<Longrightarrow> d_worker d' i = WSend n"
  shows "g_sent d' = g_sent d \<or> g_sent d' = []"
  using assms(1)
proof (cases rule: istep.cases)
  case (dispatch now)
  then show ?thesis by (cases "d_pc d") (auto simp: dispatch_step.simps split: list.splits)
next
  case (fanout ctx)
  then show ?thesis by (cases "d_pc d") (auto simp: fanout_step.simps Let_def split: list.splits option.splits)
next
  case collect
  then show ?thesis by (cases "d_pc d") (auto simp: collect_step.simps split: list.splits nat.splits)
next
  case (mark e)
  then show ?thesis by (cases "d_pc d") (auto simp: mark_step.simps)
next
  case (shutdown js)
  then show ?thesis by (cases "d_pc d") (auto simp: shutdown_step.simps split: list.splits if_splits)
next
  case (worker i res)
  have "d_worker d i \<noteq> WSend n" for n
    using assms(2) [of i n] worker(2) by (auto simp: worker_step.simps)
  with worker(2) show ?thesis
    by (cases rule: worker_cases [OF worker(2)]) (auto simp: worker_step.simps)
qed

lemma app_step_sent:
  assumes "app_step names cfg get_pending mark_sent save arrives a a'" "no_send a a'"
  shows "g_sent (a_disp a') = g_sent (a_disp a) \<or> g_sent (a_disp a') = []"
  using assms(1)
proof (cases rule: app_step.cases)
  case main
  with main_step_disp [OF main] show ?thesis by auto
next
  case (internal d)
  from internal istep_sent [OF internal(2)] assms(2) show ?thesis by (simp add: no_send_def)
qed (simp_all add: Run_start_def poll_step_def split: sum.split)

lemma journal_step:
  assumes "relay_step sv c channels get_pending mark_sent save arrives s s'" "journal_ok sv channels s"
  shows "journal_ok sv channels s'"
  using assms(1)
proof (cases rule: relay_step.cases)
  case (send i n err w d)
  then have "g_sent d = g_sent (a_disp (r_app s)) @ [(i, n, err)]" by (simp add: worker_step.simps)
  with send(1,4) assms(2) show ?thesis by (auto simp: journal_ok_def)
next
  case (app a)
  from app_step_sent [OF app(2,3)] show ?thesis
    using assms(2) app(1) by (auto simp: journal_ok_def)
qed (use assms(2) in \<open>auto simp: journal_ok_def\<close>)

lemma relay_reach_journal:
  "relay_reach sv c channels get_pending mark_sent save arrives st0 s \<Longrightarrow> journal_ok sv channels s"
proof (induction rule: relay_reach.induct)
  case (init world)
  show ?case by (simp add: journal_ok_def relay_init_def app_init_def NewDispatcher_def)
qed (rule journal_step)

section \<open>What is marked was accepted\<close>

text \<open>Every channel that took the notification from the dispatcher had it accepted by its service.\<close>

definition served :: "('t, 'w) services \<Rightarrow> 't app_channel list \<Rightarrow> ('s, 't, 'w) relay \<Rightarrow> notification \<Rightarrow> bool" where
  "served sv channels s n \<longleftrightarrow>
     g_enq (a_disp (r_app s)) \<noteq> [] \<and> set (g_enq (a_disp (r_app s))) \<subseteq> {..<length channels}
     \<and> (\<forall>i\<in>set (g_enq (a_disp (r_app s))). \<exists>e\<in>set (r_journal s).
          dl_channel e = i \<and> dl_note e = n \<and> (\<exists>eng. dl_by e = with_engine eng (channels ! i))
          \<and> app_accepted sv (dl_by e) n (dl_before e) (dl_after e))"

lemma delivered_served:
  assumes "delivered_to (map channel_name channels) (a_disp (r_app s)) n" "journal_ok sv channels s"
  shows "served sv channels s n"
  unfolding served_def
proof (intro conjI ballI)
  let ?d = "a_disp (r_app s)"
  have D: "g_enq ?d \<noteq> [] \<and> set (g_enq ?d) \<subseteq> {..<length channels}
      \<and> (\<forall>i<length channels. filter (\<lambda>x. fst x = i) (g_sent ?d) = (if i \<in> set (g_enq ?d) then [(i, n, None)] else []))"
    using assms(1) unfolding delivered_to_def length_map .
  from D show "g_enq ?d \<noteq> []" by (rule conjunct1)
  from D show "set (g_enq ?d) \<subseteq> {..<length channels}" by (elim conjE)
  fix i assume i: "i \<in> set (g_enq ?d)"
  with D have "i < length channels" by auto
  with D have "filter (\<lambda>x. fst x = i) (g_sent ?d) = (if i \<in> set (g_enq ?d) then [(i, n, None)] else [])" by blast
  with i have "filter (\<lambda>x. fst x = i) (g_sent ?d) = [(i, n, None)]" by (simp only: if_True)
  then have "(i, n, None) \<in> set (filter (\<lambda>x. fst x = i) (g_sent ?d))" by simp
  then have "(i, n, None) \<in> set (g_sent ?d)" by simp
  moreover from assms(2) have "\<exists>earlier. map (\<lambda>e. (dl_channel e, dl_note e, dl_err e)) (r_journal s) = earlier @ g_sent ?d"
    unfolding journal_ok_def by (rule conjunct1)
  then obtain earlier where "map (\<lambda>e. (dl_channel e, dl_note e, dl_err e)) (r_journal s) = earlier @ g_sent ?d" ..
  from arg_cong [where f = set, OF this]
  have "set (g_sent ?d) \<subseteq> (\<lambda>e. (dl_channel e, dl_note e, dl_err e)) ` set (r_journal s)"
    unfolding set_append set_map by (rule equalityD2 [THEN Un_subset_iff [THEN iffD1], THEN conjunct2])
  ultimately have "(i, n, None) \<in> (\<lambda>e. (dl_channel e, dl_note e, dl_err e)) ` set (r_journal s)" by (rule rev_subsetD)
  then obtain x where "(i, n, None) = (dl_channel x, dl_note x, dl_err x)" "x \<in> set (r_journal s)" by (rule imageE)
  then have x: "x \<in> set (r_journal s)" "dl_channel x = i" "dl_note x = n" "dl_err x = None" by simp_all
  from assms(2) have "\<forall>e\<in>set (r_journal s). (\<exists>eng. dl_by e = with_engine eng (channels ! dl_channel e))
      \<and> app_send sv (dl_by e) (dl_note e) (dl_before e) = Some (dl_err e, dl_after e)"
    unfolding journal_ok_def by (rule conjunct2)
  from bspec [OF this x(1)] x(2-4)
  have eng: "\<exists>eng. dl_by x = with_engine eng (channels ! i)" and sent: "app_send sv (dl_by x) n (dl_before x) = Some (None, dl_after x)"
    by simp_all
  from app_channel.send_ok [OF app_send_call [OF sent]] eng x
  show "\<exists>e\<in>set (r_journal s). dl_channel e = i \<and> dl_note e = n
      \<and> (\<exists>eng. dl_by e = with_engine eng (channels ! i)) \<and> app_accepted sv (dl_by e) n (dl_before e) (dl_after e)"
    by (intro bexI [of _ x] conjI)
qed

text \<open>The moment a group stops being pending in a run of the relay.\<close>

definition delivery_point ::
  "('t, 'w) services \<Rightarrow> 't app_channel list \<Rightarrow> (alert_group \<Rightarrow> bool) \<Rightarrow> string \<Rightarrow> ('s, 't, 'w) relay \<Rightarrow> bool" where
  "delivery_point sv channels Q k s \<longleftrightarrow>
     (\<exists>n gs. d_pc (a_disp (r_app s)) = Marking n gs \<and> nGroupKey n = k \<and> note_of Q n \<and> served sv channels s n)"

lemma relay_drop:
  assumes "relay_step sv c channels (GetPending unmarshal) MarkSent (Save marshal) arrives s s'"
    and "relay_reach sv c channels (GetPending unmarshal) MarkSent (Save marshal) arrives d0 s"
    and "distinct (map channel_name channels)" "valid_config (dispatcher_config_of c)"
    and "db_wf unmarshal d0" "\<And>g. arrives g \<Longrightarrow> storable marshal unmarshal g"
    and "pending_map unmarshal (d_store (a_disp (r_app s))) k \<noteq> None" "pending_map unmarshal (d_store (a_disp (r_app s'))) k = None"
  shows "delivery_point sv channels (\<lambda>g. arrives g \<or> pending_map unmarshal d0 (gGroupKey g) = Some g) k s"
proof -
  let ?Q = "\<lambda>g. arrives g \<or> pending_map unmarshal d0 (gGroupKey g) = Some g"
  note d = app_reach_dreach [OF relay_reach_app [OF assms(2)]]
  note inv = sqlite_store.dreach_store_inv [OF d assms(5,6)]
  from assms(7,8) relay_step_app [OF assms(1)] have "a_disp (r_app s') \<noteq> a_disp (r_app s)"
    and "app_step (map channel_name channels) (dispatcher_config_of c) (GetPending unmarshal) MarkSent (Save marshal) arrives (r_app s) (r_app s')"
    by auto
  with app_step_dstep have step: "dstep (map channel_name channels) (dispatcher_config_of c) (GetPending unmarshal) MarkSent (Save marshal) arrives
      (a_disp (r_app s)) (a_disp (r_app s'))" by blast
  from assms(7) obtain g where "pending_map unmarshal (d_store (a_disp (r_app s))) k = Some g" by blast
  from sqlite_store.pend_drop [OF step inv assms(6) this assms(8)]
  obtain n gs where n: "d_pc (a_disp (r_app s)) = Marking n gs" "nGroupKey n = k" by blast
  have "made_from ?Q (d_pc (a_disp (r_app s)))"
    by (rule sqlite_store.dreach_origin [OF d assms(5,6), THEN conjunct2])
      (use sqlite_store.pend_key [OF assms(5)] in blast)+
  with n(1) have "note_of ?Q n" by simp
  moreover from delivered_served [OF marking_delivered [OF dreach_dinv [OF d assms(3,4)] n(1)] relay_reach_journal [OF assms(2)]]
  have "served sv channels s n" .
  ultimately show ?thesis using n by (auto simp: delivery_point_def)
qed

lemma relay_pending_or_served:
  assumes "(relay_step sv c channels (GetPending unmarshal) MarkSent (Save marshal) arrives)\<^sup>*\<^sup>* s1 s2"
    and "relay_reach sv c channels (GetPending unmarshal) MarkSent (Save marshal) arrives d0 s1"
    and "distinct (map channel_name channels)" "valid_config (dispatcher_config_of c)"
    and "db_wf unmarshal d0" "\<And>g. arrives g \<Longrightarrow> storable marshal unmarshal g"
    and "pending_map unmarshal (d_store (a_disp (r_app s1))) k \<noteq> None"
  shows "relay_reach sv c channels (GetPending unmarshal) MarkSent (Save marshal) arrives d0 s2
    \<and> (pending_map unmarshal (d_store (a_disp (r_app s2))) k \<noteq> None
       \<or> (\<exists>u. (relay_step sv c channels (GetPending unmarshal) MarkSent (Save marshal) arrives)\<^sup>*\<^sup>* s1 u
            \<and> (relay_step sv c channels (GetPending unmarshal) MarkSent (Save marshal) arrives)\<^sup>*\<^sup>* u s2
            \<and> delivery_point sv channels (\<lambda>g. arrives g \<or> pending_map unmarshal d0 (gGroupKey g) = Some g) k u))"
  using assms(1)
proof (induction rule: rtranclp_induct)
  case base
  with assms(2,7) show ?case by blast
next
  case (step s s')
  note r = step.IH [THEN conjunct1]
  from r step.hyps(2) have r': "relay_reach sv c channels (GetPending unmarshal) MarkSent (Save marshal) arrives d0 s'"
    by (rule relay_reach.step)
  let ?steps = "(relay_step sv c channels (GetPending unmarshal) MarkSent (Save marshal) arrives)\<^sup>*\<^sup>*"
  let ?point = "delivery_point sv channels (\<lambda>g. arrives g \<or> pending_map unmarshal d0 (gGroupKey g) = Some g) k"
  from step.IH have "pending_map unmarshal (d_store (a_disp (r_app s))) k \<noteq> None \<or> (\<exists>u. ?steps s1 u \<and> ?steps u s \<and> ?point u)" ..
  then show ?case
  proof
    assume pend: "pending_map unmarshal (d_store (a_disp (r_app s))) k \<noteq> None"
    show ?thesis
    proof (cases "pending_map unmarshal (d_store (a_disp (r_app s'))) k = None")
      case True
      from relay_drop [OF step.hyps(2) r assms(3-6) pend True] have "?point s" .
      with step.hyps(1) r_into_rtranclp [of "relay_step sv c channels (GetPending unmarshal) MarkSent (Save marshal) arrives", OF step.hyps(2)]
      have "\<exists>u. ?steps s1 u \<and> ?steps u s' \<and> ?point u" by (intro exI conjI)
      with r' show ?thesis by (intro conjI disjI2)
    next
      case False
      with r' show ?thesis by (intro conjI disjI1)
    qed
  next
    assume "\<exists>u. ?steps s1 u \<and> ?steps u s \<and> ?point u"
    then obtain u where u: "?steps s1 u" "?steps u s" "?point u" by (elim exE conjE)
    from rtranclp.rtrancl_into_rtrancl [OF u(2) step.hyps(2)] have "?steps u s'" .
    with u(1,3) have "\<exists>u. ?steps s1 u \<and> ?steps u s' \<and> ?point u" by (intro exI conjI)
    with r' show ?thesis by (intro conjI disjI2)
  qed
qed

text \<open>C1: End to end, from the webhook to the chat and mail services: no acknowledged alert is lost.  When the running
  relay answers a webhook request with 200, then in every later state of the whole system - whatever
  requests, failures of services and database, polls, template reloads, signals and shutdowns come in
  between - the group's key is still pending in the database, or there was a moment when every channel that
  had taken a notification with that key, one at least, had it accepted by its service, and that notification
  was made from a group that had arrived (or had been pending at the start).\<close>

theorem acknowledged_delivered:
  assumes "run_setup lib call new_engine getenv w = (Inr (c, channels), w')"
    and "relay_reach sv c channels (GetPending unmarshal) MarkSent (Save marshal) arrives d0 s"
    and "db_wf unmarshal d0" "\<And>g. arrives g \<Longrightarrow> storable marshal unmarshal g"
    and "a_server (r_app s) \<noteq> ServerClosed" "a_open (r_app s)"
    and "app_handler q decode marshal acc nomatch sleep c e r (a_disp (r_app s)) = (as, oc, d1)"
    and "rq_method r = ''POST''" "rq_path r = ''/api/v1/alerts''" "status_of (response as) = Some 200"
    and "\<And>g. decode (c_MaxPayloadSize c) (rq_body r) = Decoded g \<Longrightarrow> arrives g"
    and "(relay_step sv c channels (GetPending unmarshal) MarkSent (Save marshal) arrives)\<^sup>*\<^sup>*
           (s\<lparr>r_app := (r_app s)\<lparr>a_disp := d1\<rparr>\<rparr>) s2"
  shows "\<exists>g. decode (c_MaxPayloadSize c) (rq_body r) = Decoded g
    \<and> (pending_map unmarshal (d_store (a_disp (r_app s2))) (gGroupKey g) \<noteq> None
       \<or> (\<exists>u. (relay_step sv c channels (GetPending unmarshal) MarkSent (Save marshal) arrives)\<^sup>*\<^sup>* (s\<lparr>r_app := (r_app s)\<lparr>a_disp := d1\<rparr>\<rparr>) u
            \<and> (relay_step sv c channels (GetPending unmarshal) MarkSent (Save marshal) arrives)\<^sup>*\<^sup>* u s2
            \<and> delivery_point sv channels (\<lambda>g. arrives g \<or> pending_map unmarshal d0 (gGroupKey g) = Some g) (gGroupKey g) u))"
proof -
  note ok = setup_ok(2,3) [OF assms(1)]
  note d = app_reach_dreach [OF relay_reach_app [OF assms(2)]]
  from acknowledged_step [OF assms(7-10)] obtain g where
    g: "decode (c_MaxPayloadSize c) (rq_body r) = Decoded g" "fst (Save marshal e g (d_store (a_disp (r_app s)))) = None"
       "d1 = (a_disp (r_app s))\<lparr>d_store := snd (Save marshal e g (d_store (a_disp (r_app s))))\<rparr>" by blast
  have arr: "arrives g" by (rule assms(11) [OF g(1)])
  have inv: "db_wf unmarshal (d_store (a_disp (r_app s)))" by (rule sqlite_store.dreach_store_inv [OF d assms(3,4)])
  obtain st where st: "Save marshal e g (d_store (a_disp (r_app s))) = (None, st)" using g(2) by (metis prod.collapse)
  from sqlite_store.save_ok [OF inv assms(4) [OF arr] st]
  have p: "pending_map unmarshal (d_store d1) (gGroupKey g) \<noteq> None" by (simp add: g(3) st)
  have "relay_step sv c channels (GetPending unmarshal) MarkSent (Save marshal) arrives s (s\<lparr>r_app := (r_app s)\<lparr>a_disp := d1\<rparr>\<rparr>)"
    unfolding g(3) by (rule relay_step.app, rule webhook_on_open_store [where g = g and e = e])
      (use assms(5,6) arr in \<open>simp_all add: no_send_def\<close>)
  with assms(2) have "relay_reach sv c channels (GetPending unmarshal) MarkSent (Save marshal) arrives d0 (s\<lparr>r_app := (r_app s)\<lparr>a_disp := d1\<rparr>\<rparr>)"
    by (rule relay_reach.step)
  from relay_pending_or_served [OF assms(12) this ok assms(3,4)] p g(1) show ?thesis by auto
qed

definition demo_services :: "(unit, unit) services" where
  "demo_services =
     \<lparr>sv_new_request = (\<lambda>_. None), sv_do_request = (\<lambda>_ w. (Inr (200, []), w)), sv_smtp = kind_smtp,
      sv_stamp = (\<lambda>_. (zero_time, [])), sv_execute = (\<lambda>_ _ _. Inr []), sv_join = (@), sv_blocked = (\<lambda>_. False)\<rparr>"

abbreviation demo_relay_step :: "(alert_group db, unit, unit) relay \<Rightarrow> (alert_group db, unit, unit) relay \<Rightarrow> bool" where
  "demo_relay_step \<equiv> relay_step demo_services demo_settings demo_channels (GetPending Some) MarkSent (Save Some) (\<lambda>_. True)"

definition quiet_relay :: "(alert_group db, unit, unit) relay" where
  "quiet_relay = relay_init demo_services None (\<lambda>_. None) demo_channels (migrated 0) (\<lambda>_. ())"

definition loaded_relay :: "(alert_group db, unit, unit) relay" where
  "loaded_relay = quiet_relay\<lparr>r_app := (r_app quiet_relay)\<lparr>a_disp := after_save\<rparr>\<rparr>"

definition started_relay :: "(alert_group db, unit, unit) relay" where
  "started_relay = loaded_relay\<lparr>r_app := (r_app loaded_relay)\<lparr>a_disp := Run_start demo_names (dispatcher_config_of demo_settings) after_save\<rparr>\<rparr>"

lemma demo_relay_start: "demo_relay_step loaded_relay started_relay"
proof -
  have pc: "d_pc (a_disp (r_app loaded_relay)) = NotStarted"
    by (simp add: loaded_relay_def after_save_def NewDispatcher_def)
  from app_step.start [of "r_app loaded_relay", OF pc]
  have "app_step demo_names (dispatcher_config_of demo_settings) (GetPending Some) MarkSent (Save Some) (\<lambda>_. True) (r_app loaded_relay)
      ((r_app loaded_relay)\<lparr>a_disp := Run_start demo_names (dispatcher_config_of demo_settings) after_save\<rparr>)"
    by (simp add: loaded_relay_def)
  moreover have "no_send (r_app loaded_relay) a" for a
    by (simp add: no_send_def loaded_relay_def after_save_def NewDispatcher_def)
  ultimately show ?thesis unfolding started_relay_def by (rule relay_step.app)
qed

theorem acknowledged_delivered_witness:
  "\<exists>g. Decoded sample_group = Decoded g
    \<and> (pending_map Some (d_store (a_disp (r_app started_relay))) (gGroupKey g) \<noteq> None
       \<or> (\<exists>u. demo_relay_step\<^sup>*\<^sup>* loaded_relay u \<and> demo_relay_step\<^sup>*\<^sup>* u started_relay
            \<and> delivery_point demo_services demo_channels (\<lambda>g. True \<or> pending_map Some (migrated 0) (gGroupKey g) = Some g) (gGroupKey g) u))"
proof -
  have reach: "relay_reach demo_services demo_settings demo_channels (GetPending Some) MarkSent (Save Some) (\<lambda>_. True) (migrated 0) quiet_relay"
    unfolding quiet_relay_def by (rule relay_reach.init)
  have up: "a_server (r_app quiet_relay) \<noteq> ServerClosed" "a_open (r_app quiet_relay)"
    by (simp_all add: quiet_relay_def relay_init_def app_init_def)
  have served: "app_handler (\<lambda>s. s) (\<lambda>_ _. Decoded sample_group) Some net_write demo_nomatch (\<lambda>_ s. s) demo_settings fixed_env demo_request
     (a_disp (r_app quiet_relay)) = (reply 200 ok_body @ [LogRequest 200 15], Returned, after_save)"
    using demo_request_served by (simp add: quiet_relay_def relay_init_def)
  have steps: "demo_relay_step\<^sup>*\<^sup>* (quiet_relay\<lparr>r_app := (r_app quiet_relay)\<lparr>a_disp := after_save\<rparr>\<rparr>) started_relay"
    using demo_relay_start by (simp add: loaded_relay_def r_into_rtranclp)
  from acknowledged_delivered [OF demo_setup reach migrated_wf _ up served _ _ _ _ steps]
  show ?thesis by (simp add: loaded_relay_def [symmetric] demo_request_def storable_def)
qed

section \<open>What the parts hand each other\<close>

text \<open>Every entry of the journal is a delivery by one of the channels of a notification made from a group with \<open>Q\<close>.\<close>

definition journal_typed :: "(alert_group \<Rightarrow> bool) \<Rightarrow> nat \<Rightarrow> ('t, 'w) delivery list \<Rightarrow> bool" where
  "journal_typed Q k js \<longleftrightarrow> list_all (\<lambda>e. dl_channel e < k \<and> note_of Q (dl_note e)) js"

lemma relay_typed:
  assumes "relay_reach sv c channels (GetPending unmarshal) MarkSent (Save marshal) arrives d0 s"
    and "distinct (map channel_name channels)" "valid_config (dispatcher_config_of c)"
    and "db_wf unmarshal d0" "\<And>g. arrives g \<Longrightarrow> storable marshal unmarshal g"
  shows "state_typed (\<lambda>g. arrives g \<or> pending_map unmarshal d0 (gGroupKey g) = Some g) (map channel_name channels)
      (dispatcher_config_of c) (a_disp (r_app s))"
  by (rule sqlite_store.dreach_typed [OF app_reach_dreach [OF relay_reach_app [OF assms(1)]] assms(4,5,2,3)])

lemma relay_journal_typed:
  assumes "relay_reach sv c channels (GetPending unmarshal) MarkSent (Save marshal) arrives d0 s"
    and "distinct (map channel_name channels)" "valid_config (dispatcher_config_of c)"
    and "db_wf unmarshal d0" "\<And>g. arrives g \<Longrightarrow> storable marshal unmarshal g"
  shows "journal_typed (\<lambda>g. arrives g \<or> pending_map unmarshal d0 (gGroupKey g) = Some g) (length channels) (r_journal s)"
  using assms(1)
proof (induction rule: relay_reach.induct)
  case (init newErr add world)
  show ?case by (simp add: journal_typed_def relay_init_def)
next
  case (step s s')
  let ?Q = "\<lambda>g. arrives g \<or> pending_map unmarshal d0 (gGroupKey g) = Some g"
  from step.hyps(2) show ?case
  proof (cases rule: relay_step.cases)
    case (send i n err w d)
    note typed = relay_typed [OF step.hyps(1) assms(2-5)]
    have "d_pc (a_disp (r_app s)) \<noteq> NotStarted"
      using dreach_dinv [OF app_reach_dreach [OF relay_reach_app [OF step.hyps(1)]] assms(2,3)] send(3)
      by (auto simp: dinv_def phase_def)
    with typed send(2) have "holds ?Q (map channel_name channels ! i) (d_worker (a_disp (r_app s)) i)"
      by (simp add: state_typed_def line_typed_def)
    with send(1-3) step.IH show ?thesis by (simp add: journal_typed_def)
  qed (use step.IH in simp_all)
qed

lemma setup_channels: "run_setup lib call new_engine getenv w = (Inr (c, channels), w') \<Longrightarrow> length channels \<le> 2"
  using built_names [of new_engine c channels, THEN arg_cong [where f = length]]
  by (auto simp: run_setup_def split: sum.splits prod.splits option.splits if_splits)

text \<open>C8: Whatever the running relay does, its parts hand each other only what they should: in every queue and in
  every worker's hands are notifications made from groups that arrived (or were pending at the start), results
  name the channel that sent, and every delivery in the journal is one of such a notification.  No goroutine
  panics, and for every configuration that loads the channels are never near their capacity: a queue of 10 to 10000 places holds
  one notification at most and takes the next at once, and the result channel, with at most 1001 places and more than there
  are channels, is never full: it holds one result per channel at most, and a worker with a result can always put it there.\<close>

theorem relay_well_typed:
  assumes "run_setup lib call new_engine getenv w = (Inr (c, channels), w')"
    and "relay_reach sv c channels (GetPending unmarshal) MarkSent (Save marshal) arrives d0 s"
    and "db_wf unmarshal d0" "\<And>g. arrives g \<Longrightarrow> storable marshal unmarshal g"
    and "Q = (\<lambda>g. arrives g \<or> pending_map unmarshal d0 (gGroupKey g) = Some g)" "d = a_disp (r_app s)"
  shows "state_typed Q (map channel_name channels) (dispatcher_config_of c) d \<and> journal_typed Q (length channels) (r_journal s)
    \<and> length (d_results d) \<le> length channels \<and> length channels \<le> 2
    \<and> int (length channels) < result_cap (map channel_name channels) (dispatcher_config_of c)
    \<and> result_cap (map channel_name channels) (dispatcher_config_of c) \<le> 1001
    \<and> (\<forall>i res ret. i < length channels \<and> d_worker d i = WPut res \<longrightarrow>
         worker_step (map channel_name channels) (dispatcher_config_of c) i ret d
           = [d\<lparr>d_results := d_results d @ [res], d_worker := (d_worker d)(i := WTry)\<rparr>])
    \<and> (\<forall>i n us k gs. i < length channels \<and> d_pc d = Fanout n us k gs \<longrightarrow>
         10 \<le> q_cap (d_queue d i) \<and> q_cap (d_queue d i) \<le> 10000
         \<and> Enqueue None n (d_queue d i) = [(None, (d_queue d i)\<lparr>q_ch := q_ch (d_queue d i) @ [n]\<rparr>)])"
proof (intro conjI allI impI)
  note ok = setup_ok(2,3) [OF assms(1)]
  show typed: "state_typed Q (map channel_name channels) (dispatcher_config_of c) d"
    using relay_typed [OF assms(2) ok assms(3,4)] assms(5,6) by simp
  show "journal_typed Q (length channels) (r_journal s)"
    using relay_journal_typed [OF assms(2) ok assms(3,4)] assms(5) by simp
  show two: "length channels \<le> 2" by (rule setup_channels [OF assms(1)])
  from typed show "length (d_results d) \<le> length channels" by (simp add: state_typed_def)
  from setup_ok(1) [OF assms(1)] have cfg: "1 \<le> c_NotifyBatchSize c" "c_NotifyBatchSize c \<le> 500"
      "10 \<le> c_NotifyQueueSize c" "c_NotifyQueueSize c \<le> 10000"
    by (simp_all add: good_config_def good_notify_def in_bounds_def)
  have "int (length channels) * 1 \<le> int (length channels) * c_NotifyBatchSize c"
    by (rule mult_left_mono) (use cfg in simp_all)
  then show "int (length channels) < result_cap (map channel_name channels) (dispatcher_config_of c)"
    by (simp add: result_cap_def dispatcher_config_of_def)
  note inv = dreach_dinv [OF app_reach_dreach [OF relay_reach_app [OF assms(2)]] ok, folded assms(6)]
  show "worker_step (map channel_name channels) (dispatcher_config_of c) i ret d
      = [d\<lparr>d_results := d_results d @ [res], d_worker := (d_worker d)(i := WTry)\<rparr>]"
    if "i < length channels \<and> d_worker d i = WPut res" for i res ret
  proof (rule typed_put [OF typed ok(2)])
    show "d_worker d i = WPut res" using that by simp
    show "\<not> d_resClosed d" using result_room [OF inv ok, of i res] that by simp
  qed
  have "int (length channels) * c_NotifyBatchSize c \<le> 2 * 500"
    by (rule mult_mono) (use two cfg in simp_all)
  then show "result_cap (map channel_name channels) (dispatcher_config_of c) \<le> 1001"
    by (simp add: result_cap_def dispatcher_config_of_def)
  fix i n us k gs assume "i < length channels \<and> d_pc d = Fanout n us k gs"
  then have i: "i < length channels" and pc: "d_pc d = Fanout n us k gs" by simp_all
  from typed i pc have line: "line_typed Q (map channel_name channels ! i) (nat (dc_QueueSize (dispatcher_config_of c))) (d_queue d i) (d_worker d i)"
    by (simp add: state_typed_def)
  then have size: "q_cap (d_queue d i) = nat (c_NotifyQueueSize c)" by (simp add: line_typed_def dispatcher_config_of_def)
  with cfg show "10 \<le> q_cap (d_queue d i)" "q_cap (d_queue d i) \<le> 10000" by simp_all
  have "wired (map channel_name channels) (dispatcher_config_of c) d i"
    using inv i by (simp add: dinv_def plumbing_def)
  with pc have "\<not> q_closed (d_queue d i)" by (auto simp: wired_def shutting_def)
  moreover have "1 < nat (dc_QueueSize (dispatcher_config_of c))" using cfg by (simp add: dispatcher_config_of_def)
  ultimately show "Enqueue None n (d_queue d i) = [(None, (d_queue d i)\<lparr>q_ch := q_ch (d_queue d i) @ [n]\<rparr>)]"
    using typed_enqueue [OF line] by blast
qed

lemma demo_relay_webhook: "demo_relay_step quiet_relay loaded_relay"
proof -
  have "app_step demo_names (dispatcher_config_of demo_settings) (GetPending Some) MarkSent (Save Some) (\<lambda>_. True) (r_app quiet_relay)
      ((r_app quiet_relay)\<lparr>a_disp := (a_disp (r_app quiet_relay))\<lparr>d_store := snd (Save Some fixed_env sample_group
         (d_store (a_disp (r_app quiet_relay))))\<rparr>\<rparr>)"
    by (rule webhook_on_open_store) (simp_all add: quiet_relay_def relay_init_def app_init_def)
  then have "app_step demo_names (dispatcher_config_of demo_settings) (GetPending Some) MarkSent (Save Some) (\<lambda>_. True) (r_app quiet_relay)
      ((r_app quiet_relay)\<lparr>a_disp := after_save\<rparr>)"
    by (simp add: quiet_relay_def relay_init_def app_init_def after_save_def NewDispatcher_def)
  moreover have "no_send (r_app quiet_relay) a" for a
    by (simp add: no_send_def quiet_relay_def relay_init_def app_init_def NewDispatcher_def)
  ultimately show ?thesis unfolding loaded_relay_def by (rule relay_step.app)
qed

theorem relay_well_typed_witness:
  "state_typed (\<lambda>g. True) demo_names (dispatcher_config_of demo_settings) (a_disp (r_app started_relay))
   \<and> 2 < result_cap demo_names (dispatcher_config_of demo_settings) \<and> d_pc (a_disp (r_app started_relay)) \<noteq> NotStarted"
proof -
  have reach: "relay_reach demo_services demo_settings demo_channels (GetPending Some) MarkSent (Save Some) (\<lambda>_. True) (migrated 0) started_relay"
    by (rule relay_reach.step [OF relay_reach.step [OF _ demo_relay_webhook] demo_relay_start]) (simp add: quiet_relay_def relay_reach.init)
  have Q: "(\<lambda>g. True) = (\<lambda>g. True \<or> pending_map Some (migrated 0) (gGroupKey g) = Some g)" by simp
  have "int (length demo_channels) = 2" by (simp add: demo_channels_def)
  moreover have "d_pc (a_disp (r_app started_relay)) \<noteq> NotStarted" by (simp add: started_relay_def Run_start_def)
  ultimately show ?thesis
    using relay_well_typed [OF demo_setup reach migrated_wf _ Q refl] by (simp add: storable_def)
qed

end
