(* ===== verification/EmailDialer.thy ===== *)
theory EmailDialer imports EmailSender begin

text \<open>
  Package \<open>internal/channel/email\<close>, the default \<open>Dialer\<close> (the end of \<open>sender.go\<close>), and under it what \<open>Send\<close>
  uses of Go's \<open>net\<close> and \<open>net/smtp\<close>: splitting an address, a client that knows its server's name and whether
  the connection is encrypted, and PLAIN authentication.  Composed with \<open>Send\<close> this shows what the
  configuration makes the program say to a mail server.
\<close>

section \<open>Addresses\<close>

text \<open>\<open>net.SplitHostPort\<close>: the port comes after the last colon; a host with colons is in brackets.\<close>

definition addr_error :: "string \<Rightarrow> string \<Rightarrow> goerr + string \<times> string" where
  "addr_error addr why = Inl (Opaque [Lit ''address '', Str addr, Lit '': '', Str why])"

definition from_last_colon :: "string \<Rightarrow> string \<times> string" where
  "from_last_colon s =
     (rev (tl (dropWhile (\<lambda>c. c \<noteq> CHR '':'') (rev s))), rev (takeWhile (\<lambda>c. c \<noteq> CHR '':'') (rev s)))"

definition SplitHostPort :: "string \<Rightarrow> goerr + string \<times> string" where
  "SplitHostPort hostport =
     (let (before, port) = from_last_colon hostport
      in if CHR '':'' \<notin> set hostport then addr_error hostport ''missing port in address''
         else if hd hostport = CHR ''[''
         then (let inner = takeWhile (\<lambda>c. c \<noteq> CHR '']'') (tl hostport);
                   rest = drop (Suc (length inner)) (tl hostport)
               in if CHR '']'' \<notin> set hostport then addr_error hostport ''missing ']' in address''
                  else if rest = [] then addr_error hostport ''missing port in address''
                  else if rest \<noteq> CHR '':'' # port
                  then addr_error hostport (if hd rest = CHR '':'' then ''too many colons in address'' else ''missing port in address'')
                  else if CHR ''['' \<in> set (tl hostport) then addr_error hostport ''unexpected '[' in address''
                  else if CHR '']'' \<in> set rest then addr_error hostport ''unexpected ']' in address''
                  else Inr (inner, port))
         else if CHR '':'' \<in> set before then addr_error hostport ''too many colons in address''
         else if CHR ''['' \<in> set hostport then addr_error hostport ''unexpected '[' in address''
         else if CHR '']'' \<in> set hostport then addr_error hostport ''unexpected ']' in address''
         else Inr (before, port))"

text \<open>The usual case, a name or an IPv4 address: the name comes back.\<close>

lemma from_last_colon_port: "CHR '':'' \<notin> set port \<Longrightarrow> from_last_colon (host @ CHR '':'' # port) = (host, port)"
  by (auto simp: from_last_colon_def dropWhile_append takeWhile_append)

lemma colon_itoa: "CHR '':'' \<notin> set (itoa i)" "CHR '']'' \<notin> set (itoa i)" "CHR ''['' \<notin> set (itoa i)"
  using itoa_chars [of i] by (auto simp: num_chars_def digit_chars_def)

definition bare_host :: "string \<Rightarrow> bool" where
  "bare_host h \<longleftrightarrow> CHR '':'' \<notin> set h \<and> CHR ''['' \<notin> set h \<and> CHR '']'' \<notin> set h"

lemma SplitHostPort_bare: "bare_host h \<Longrightarrow> SplitHostPort (h @ '':'' @ itoa p) = Inr (h, itoa p)"
proof -
  assume h: "bare_host h"
  have "from_last_colon (h @ '':'' @ itoa p) = (h, itoa p)" by (simp add: from_last_colon_port colon_itoa)
  moreover from h have "hd (h @ '':'' @ itoa p) \<noteq> CHR ''[''" by (cases h) (auto simp: bare_host_def)
  ultimately show ?thesis using h by (simp add: SplitHostPort_def bare_host_def colon_itoa)
qed

text \<open>A literal IPv6 address: without brackets it does not split, with brackets it comes back without them.\<close>

lemma SplitHostPort_colon: "CHR '':'' \<in> set h \<Longrightarrow> h \<noteq> [] \<Longrightarrow> hd h \<noteq> CHR ''['' \<Longrightarrow>
    \<exists>err. SplitHostPort (h @ '':'' @ itoa p) = Inl err"
  by (simp add: SplitHostPort_def from_last_colon_port colon_itoa addr_error_def)

section \<open>The client of net/smtp\<close>

text \<open>
  What goes over the network: a connection (with the dialer's timeout), with TLS for the server name whose
  certificate is checked or without; the server's greeting; \<open>EHLO\<close>, if it has not been said; \<open>STARTTLS\<close>, the handshake
  and \<open>EHLO\<close> again; \<open>AUTH PLAIN\<close> with its response; \<open>QUIT\<close>; the lines of \<open>MAIL\<close> and \<open>RCPT\<close>; the other calls.
\<close>

datatype wire_call =
    TcpConnect int string
  | TlsConnect int string string
  | Greeting
  | Hello
  | StartTLSLine
  | Handshake string
  | AuthPlain string
  | Quit
  | PathLine string
  | Other smtp_call

record smtp_client =
  sc_serverName :: string
  sc_tls :: bool

definition isLocalhost :: "string \<Rightarrow> bool" where
  "isLocalhost name \<longleftrightarrow> name = ''localhost'' \<or> name = ''127.0.0.1'' \<or> name = ''::1''"

definition plain_response :: "string \<Rightarrow> string \<Rightarrow> string \<Rightarrow> string" where
  "plain_response identity username password = identity @ [CHR 0x00] @ username @ [CHR 0x00] @ password"

text \<open>\<open>Start\<close> of \<open>smtp.PlainAuth(identity, username, password, host)\<close>.\<close>

definition PlainAuth_Start :: "string \<Rightarrow> string \<Rightarrow> string \<Rightarrow> string \<Rightarrow> smtp_client \<Rightarrow> goerr + string" where
  "PlainAuth_Start identity username password host c =
     (if \<not> sc_tls c \<and> \<not> isLocalhost (sc_serverName c) then Inl (Opaque [Lit ''unencrypted connection''])
      else if sc_serverName c \<noteq> host then Inl (Opaque [Lit ''wrong host name''])
      else Inr (plain_response identity username password))"

definition smtp_NewClient :: "(wire_call, 'w) calls \<Rightarrow> bool \<Rightarrow> string \<Rightarrow> 'w \<Rightarrow> (goerr + smtp_client) \<times> 'w" where
  "smtp_NewClient wire tls host w =
     (case wire Greeting w of
        (Some err, w) \<Rightarrow> (Inl err, w)
      | (None, w) \<Rightarrow> (Inr \<lparr>sc_serverName = host, sc_tls = tls\<rparr>, w))"

section \<open>The dialer\<close>

definition defaultDialTimeout :: int where
  "defaultDialTimeout = 10000000000"

record netDialer =
  nd_timeout :: int

text \<open>The error of \<open>SplitHostPort\<close> is dropped: the host is then the empty text.\<close>

definition host_of_addr :: "string \<Rightarrow> string" where
  "host_of_addr addr = (case SplitHostPort addr of Inl _ \<Rightarrow> [] | Inr (host, _) \<Rightarrow> host)"

definition netDialer_Dial :: "(wire_call, 'w) calls \<Rightarrow> netDialer \<Rightarrow> string \<Rightarrow> 'w \<Rightarrow> (goerr + smtp_client) \<times> 'w" where
  "netDialer_Dial wire d addr w =
     (case wire (TcpConnect (nd_timeout d) addr) w of
        (Some err, w) \<Rightarrow> (Inl err, w)
      | (None, w) \<Rightarrow> smtp_NewClient wire False (host_of_addr addr) w)"

definition netDialer_DialTLS ::
  "(wire_call, 'w) calls \<Rightarrow> netDialer \<Rightarrow> string \<Rightarrow> string \<Rightarrow> 'w \<Rightarrow> (goerr + smtp_client) \<times> 'w" where
  "netDialer_DialTLS wire d addr serverName w =
     (case wire (TlsConnect (nd_timeout d) addr serverName) w of
        (Some err, w) \<Rightarrow> (Inl err, w)
      | (None, w) \<Rightarrow> smtp_NewClient wire True (host_of_addr addr) w)"

text \<open>
  The calls of \<open>SMTPClient\<close> and \<open>Dialer\<close> as exchanges on the network.  The client is part of the state; before the
  first \<open>Dial\<close> it is whatever the state starts with.  \<open>MAIL\<close> and \<open>RCPT\<close> refuse an address with a line break.
  \<open>ext w\<close>: which of \<open>8BITMIME\<close> and \<open>SMTPUTF8\<close> the server announced in its answer to \<open>EHLO\<close>; \<open>Mail\<close> appends a parameter for each.
\<close>

definition dialed :: "(goerr + smtp_client) \<times> 'w \<Rightarrow> smtp_client \<Rightarrow> goerr option \<times> ('w \<times> smtp_client)" where
  "dialed r c = (case r of (Inl err, w) \<Rightarrow> (Some err, (w, c)) | (Inr c', w) \<Rightarrow> (None, (w, c')))"

definition mail_parameters :: "bool \<times> bool \<Rightarrow> string" where
  "mail_parameters x = (if fst x then '' BODY=8BITMIME'' else []) @ (if snd x then '' SMTPUTF8'' else [])"

definition path_line :: "(wire_call, 'w) calls \<Rightarrow> ('w \<Rightarrow> string) \<Rightarrow> string \<Rightarrow> string \<Rightarrow> 'w \<Rightarrow> goerr option \<times> 'w" where
  "path_line wire params verb path w =
     (if CHR 0x0A \<in> set path \<or> CHR 0x0D \<in> set path then (Some (Opaque [Lit ''smtp: A line must not contain CR or LF'']), w)
      else (case wire Hello w of
              (Some err, w) \<Rightarrow> (Some err, w)
            | (None, w) \<Rightarrow> wire (PathLine (verb @ '':<'' @ path @ ''>'' @ params w)) w))"

fun net_smtp :: "(wire_call, 'w) calls \<Rightarrow> ('w \<Rightarrow> bool \<times> bool) \<Rightarrow> netDialer \<Rightarrow> ('w \<times> smtp_client) smtp" where
  "net_smtp wire ext d (Dial addr) (w, c) = dialed (netDialer_Dial wire d addr w) c"
| "net_smtp wire ext d (DialTLS addr serverName) (w, c) = dialed (netDialer_DialTLS wire d addr serverName w) c"
| "net_smtp wire ext d (StartTLS serverName) (w, c) =
     (case wire Hello w of
        (Some err, w) \<Rightarrow> (Some err, (w, c))
      | (None, w) \<Rightarrow>
          (case wire StartTLSLine w of
             (Some err, w) \<Rightarrow> (Some err, (w, c))
           | (None, w) \<Rightarrow> (let (r, w) = wire (Handshake serverName) w in (r, (w, c\<lparr>sc_tls := True\<rparr>)))))"
| "net_smtp wire ext d (Auth username password host) (w, c) =
     (case wire Hello w of
        (Some err, w) \<Rightarrow> (Some err, (w, c))
      | (None, w) \<Rightarrow>
          (case PlainAuth_Start [] username password host c of
             Inl err \<Rightarrow> (let (_, w) = wire Quit w in (Some err, (w, c)))
           | Inr resp \<Rightarrow> (let (r, w) = wire (AuthPlain resp) w in (r, (w, c)))))"
| "net_smtp wire ext d (Mail from) (w, c) = (let (r, w) = path_line wire (\<lambda>w. mail_parameters (ext w)) ''MAIL FROM'' from w in (r, (w, c)))"
| "net_smtp wire ext d (Rcpt to) (w, c) = (let (r, w) = path_line wire (\<lambda>_. []) ''RCPT TO'' to w in (r, (w, c)))"
| "net_smtp wire ext d call (w, c) = (let (r, w) = wire (Other call) w in (r, (w, c)))"

section \<open>Credentials travel encrypted\<close>

text \<open>
  \<open>secures s x\<close>: an entry of the record of wire calls that is a TLS connection or handshake that succeeded for
  the configured server.  \<open>guarded s b tr\<close>: every authentication in the record \<open>tr\<close> is that of \<open>s\<close>, and comes after such an
  entry (\<open>b\<close>: there was one before) unless the server is the local host.
\<close>

fun secures :: "sender \<Rightarrow> wire_call \<times> goerr option \<Rightarrow> bool" where
  "secures s (TlsConnect t addr name, r) \<longleftrightarrow> name = s_host s \<and> r = None"
| "secures s (Handshake name, r) \<longleftrightarrow> name = s_host s \<and> r = None"
| "secures s _ \<longleftrightarrow> False"

fun guarded :: "sender \<Rightarrow> bool \<Rightarrow> (wire_call \<times> goerr option) list \<Rightarrow> bool" where
  "guarded s b [] \<longleftrightarrow> True"
| "guarded s b (x # tr) \<longleftrightarrow>
     (\<forall>resp. fst x = AuthPlain resp \<longrightarrow>
        resp = plain_response [] (s_username s) (s_password s) \<and> (b \<or> isLocalhost (s_host s)))
     \<and> guarded s (b \<or> secures s x) tr"

lemma guarded_append [simp]: "guarded s b (tr @ tr') \<longleftrightarrow> guarded s b tr \<and> guarded s (b \<or> list_ex (secures s) tr) tr'"
  by (induction tr arbitrary: b) (auto simp: disj_assoc)

lemma guarded_nth:
  "guarded s b tr \<Longrightarrow> k < length tr \<Longrightarrow> fst (tr ! k) = AuthPlain resp \<Longrightarrow>
     resp = plain_response [] (s_username s) (s_password s)
     \<and> (b \<or> isLocalhost (s_host s) \<or> (\<exists>j<k. secures s (tr ! j)))"
proof (induction tr arbitrary: b k)
  case (Cons x tr)
  show ?case
  proof (cases k)
    case 0
    with Cons.prems show ?thesis by auto
  next
    case (Suc k')
    with Cons.IH [of "b \<or> secures s x" k'] Cons.prems
    have IH: "resp = plain_response [] (s_username s) (s_password s)
        \<and> ((b \<or> secures s x) \<or> isLocalhost (s_host s) \<or> (\<exists>j<k'. secures s (tr ! j)))" by simp
    have "\<exists>j<k. secures s ((x # tr) ! j)" if "secures s x" using that Suc by (intro exI [of _ 0]) simp
    moreover have "\<exists>j<k. secures s ((x # tr) ! j)" if "j < k'" "secures s (tr ! j)" for j
      using that Suc by (intro exI [of _ "Suc j"]) simp
    ultimately show ?thesis using IH by blast
  qed
qed simp

text \<open>The calls that \<open>Send\<close> makes for \<open>s\<close>.\<close>

fun call_of :: "sender \<Rightarrow> smtp_call \<Rightarrow> bool" where
  "call_of s (DialTLS addr serverName) \<longleftrightarrow> serverName = s_host s"
| "call_of s (StartTLS serverName) \<longleftrightarrow> serverName = s_host s"
| "call_of s (Auth u p h) \<longleftrightarrow> u = s_username s \<and> p = s_password s \<and> h = s_host s"
| "call_of s _ \<longleftrightarrow> True"

lemma recordD: "recording wire c y = (r, y') \<Longrightarrow> snd y' = snd y @ [(c, r)]"
  by (auto simp: recording_def Let_def split: prod.splits)

abbreviation safe :: "sender \<Rightarrow> (wire_call \<times> goerr option) list \<Rightarrow> bool" where
  "safe s tr \<equiv> guarded s False tr"

abbreviation secured :: "sender \<Rightarrow> (wire_call \<times> goerr option) list \<Rightarrow> bool" where
  "secured s tr \<equiv> list_ex (secures s) tr"

lemma path_line_guarded:
  assumes "path_line (recording wire) params verb p y = (r, y')" "safe s (snd y)"
  shows "safe s (snd y') \<and> (secured s (snd y) \<longrightarrow> secured s (snd y'))"
  using assms by (auto simp: path_line_def dest!: recordD split: prod.splits option.splits if_splits)

lemma NewClient_guarded:
  assumes "smtp_NewClient (recording wire) tls h y = (r, y')" "safe s (snd y)"
  shows "safe s (snd y') \<and> (secured s (snd y) \<longrightarrow> secured s (snd y')) \<and> (\<forall>c. r = Inr c \<longrightarrow> sc_tls c = tls)"
  using assms by (auto simp: smtp_NewClient_def dest!: recordD split: prod.splits option.splits)

lemma Dial_guarded:
  assumes "netDialer_Dial (recording wire) d addr y = (r, y')" "safe s (snd y)"
  shows "safe s (snd y') \<and> (\<forall>c. r = Inr c \<longrightarrow> \<not> sc_tls c)"
  using assms by (auto simp: netDialer_Dial_def dest!: recordD NewClient_guarded [where s = s] split: prod.splits option.splits)

lemma DialTLS_guarded:
  assumes "netDialer_DialTLS (recording wire) d addr (s_host s) y = (r, y')" "safe s (snd y)"
  shows "safe s (snd y') \<and> (\<forall>c. r = Inr c \<longrightarrow> secured s (snd y'))"
  using assms
  by (auto simp: netDialer_DialTLS_def dest!: recordD NewClient_guarded [where s = s] split: prod.splits option.splits)

lemma net_smtp_guarded:
  assumes "net_smtp (recording wire) ext d call (y, c) = (r, (y', c'))" "call_of s call"
    and "safe s (snd y)" "sc_tls c \<longrightarrow> secured s (snd y)"
  shows "safe s (snd y') \<and> (r = None \<longrightarrow> sc_tls c' \<longrightarrow> secured s (snd y'))"
proof (cases call)
  case (Dial addr)
  with assms(1) obtain q where "netDialer_Dial (recording wire) d addr y = (q, y')" "\<And>e. q = Inr e \<Longrightarrow> c' = e" "\<And>e. q = Inl e \<Longrightarrow> r \<noteq> None"
    by (auto simp: dialed_def split: prod.splits sum.splits)
  with Dial_guarded [OF this(1) assms(3)] show ?thesis by (cases q) auto
next
  case (DialTLS addr n)
  with assms(1,2) obtain q where "netDialer_DialTLS (recording wire) d addr (s_host s) y = (q, y')" "\<And>e. q = Inl e \<Longrightarrow> r \<noteq> None"
    by (auto simp: dialed_def split: prod.splits sum.splits)
  with DialTLS_guarded [OF this(1) assms(3)] show ?thesis by (cases q) auto
next
  case (StartTLS n)
  with assms show ?thesis
    by (auto simp: Let_def dest!: recordD split: prod.splits option.splits)
next
  case (Auth u p h)
  with assms show ?thesis
    by (auto simp: PlainAuth_Start_def Let_def dest!: recordD split: prod.splits option.splits sum.splits if_splits)
next
  case (Mail sndr)
  with assms(1) obtain q where "path_line (recording wire) (\<lambda>w. mail_parameters (ext w)) ''MAIL FROM'' sndr y = (q, y')" "c' = c"
    by (auto simp: Let_def split: prod.splits)
  with path_line_guarded [OF this(1) assms(3)] assms(4) show ?thesis by auto
next
  case (Rcpt to)
  with assms(1) obtain q where "path_line (recording wire) (\<lambda>_. []) ''RCPT TO'' to y = (q, y')" "c' = c"
    by (auto simp: Let_def split: prod.splits)
  with path_line_guarded [OF this(1) assms(3)] assms(4) show ?thesis by auto
qed (use assms in \<open>auto simp: Let_def dest!: recordD split: prod.splits\<close>)

text \<open>
  An invariant of a whole \<open>Send\<close>: \<open>P\<close> holds while no call has failed, and \<open>Q\<close> always, the deferred \<open>Close\<close> included.
\<close>

lemma run_script_inv:
  assumes "run_script smtp cs x = (r, x')" "P x" "Q x"
    and "\<And>y v. y \<in> set cs \<Longrightarrow> C (fst y v)"
    and "\<And>call x r x'. C call \<Longrightarrow> P x \<Longrightarrow> Q x \<Longrightarrow> smtp call x = (r, x') \<Longrightarrow> Q x' \<and> (r = None \<longrightarrow> P x')"
  shows "Q x'"
  using assms(1-4)
proof (induction cs arbitrary: x)
  case (Cons y cs)
  obtain f what where y: "y = (f, what)" by (cases y)
  obtain r1 x1 where call: "smtp (f x) x = (r1, x1)" by (meson surj_pair)
  from Cons.prems(4) [of y x] y have "C (f x)" by simp
  note one = assms(5) [OF this Cons.prems(2,3) call]
  show ?case
  proof (cases r1)
    case None
    with Cons.prems(1) y call have "run_script smtp cs x1 = (r, x')" by (simp add: try_call_def)
    from Cons.IH [OF this] Cons.prems(4) one None show ?thesis by simp
  next
    case (Some err)
    with Cons.prems(1) y call one show ?thesis by (simp add: try_call_def)
  qed
qed simp

lemma Send_inv:
  assumes "Send smtp stamp s to subject htmlBody x = (res, x')" "P x" "Q x"
    and "C (dial_call s)" "\<And>y v. y \<in> set (script stamp s to subject htmlBody) \<Longrightarrow> C (fst y v)"
    and "\<And>call x r x'. C call \<Longrightarrow> P x \<Longrightarrow> Q x \<Longrightarrow> smtp call x = (r, x') \<Longrightarrow> Q x' \<and> (r = None \<longrightarrow> P x')"
    and "\<And>x r x'. Q x \<Longrightarrow> smtp CloseClient x = (r, x') \<Longrightarrow> Q x'"
  shows "Q x'"
proof -
  obtain r1 x1 where dial: "smtp (dial_call s) x = (r1, x1)" by (meson surj_pair)
  then have d: "dial smtp s (s_host s @ '':'' @ itoa (s_port s)) x = (r1, x1)"
    by (cases "s_tlsMode s = ''tls''") (simp_all add: dial_def dial_call_def Let_def)
  note one = assms(6) [OF assms(4) assms(2,3) dial]
  show ?thesis
  proof (cases r1)
    case (Some err)
    with assms(1) d one show ?thesis by (auto simp: Send_def Let_def)
  next
    case None
    obtain r2 x2 where run: "dialogue smtp stamp s to subject htmlBody x1 = (r2, x2)" by (meson surj_pair)
    from one None have "P x1" "Q x1" by simp_all
    from run_script_inv [where P = P and Q = Q and C = C, OF run [unfolded dialogue_script] this assms(5,6)] have "Q x2" .
    moreover from assms(1) d None run have "smtp CloseClient x2 = (fst (smtp CloseClient x2), x')"
      by (cases "smtp CloseClient x2") (auto simp: Send_def Let_def)
    ultimately show ?thesis by (rule assms(7))
  qed
qed

lemma script_calls: "x \<in> set (script stamp s to subject htmlBody) \<Longrightarrow> call_of s (fst x v)"
  by (auto simp: script_def preamble_def split: if_splits)

definition no_client :: smtp_client where
  "no_client = \<lparr>sc_serverName = [], sc_tls = False\<rparr>"

text \<open>C9: The mail password never travels in clear over a network.  Whatever mode is configured and however the
  network and the mail server answer, the only credentials that \<open>Send\<close> ever puts on the wire are the
  configured ones, and only after a TLS connection or a TLS handshake for the configured host has succeeded,
  unless that host is the machine itself.\<close>

theorem credentials_never_in_clear:
  assumes "Send (net_smtp (recording wire) ext d) stamp s to subject htmlBody ((w, []), no_client) = (res, ((w', tr), c'))"
    and "k < length tr" "fst (tr ! k) = AuthPlain resp"
  shows "resp = plain_response [] (s_username s) (s_password s)
    \<and> (isLocalhost (s_host s) \<or> (\<exists>j<k. (\<exists>t addr. tr ! j = (TlsConnect t addr (s_host s), None)) \<or> tr ! j = (Handshake (s_host s), None)))"
proof -
  have "safe s (snd (fst ((w', tr), c')))"
  proof (rule Send_inv [where C = "call_of s" and P = "\<lambda>x. sc_tls (snd x) \<longrightarrow> secured s (snd (fst x))", OF assms(1)])
    show "safe s (snd (fst x')) \<and> (r = None \<longrightarrow> sc_tls (snd x') \<longrightarrow> secured s (snd (fst x')))"
      if "call_of s call" "sc_tls (snd x) \<longrightarrow> secured s (snd (fst x))" "safe s (snd (fst x))"
        "net_smtp (recording wire) ext d call x = (r, x')" for call x r x'
      using net_smtp_guarded [of wire ext d call "fst x" "snd x" r "fst x'" "snd x'" s] that by simp
    show "safe s (snd (fst x'))"
      if "safe s (snd (fst x))" "net_smtp (recording wire) ext d CloseClient x = (r, x')" for x r x'
      using that by (cases x) (auto simp: Let_def dest!: recordD split: prod.splits)
  qed (simp_all add: script_calls dial_call_def Let_def no_client_def)
  then have "safe s tr" by simp
  from guarded_nth [OF this assms(2,3)] obtain j where
    r: "resp = plain_response [] (s_username s) (s_password s)" "isLocalhost (s_host s) \<or> j < k \<and> secures s (tr ! j)" by auto
  moreover have "(\<exists>t addr. x = (TlsConnect t addr (s_host s), None)) \<or> x = (Handshake (s_host s), None)" if "secures s x" for x
    using that by (cases "(s, x)" rule: secures.cases) auto
  ultimately show ?thesis by blast
qed

section \<open>What the configuration must be for mail to go out\<close>

lemma host_comes_back:
  assumes "host_of_addr (h @ '':'' @ itoa p) = h"
  shows "bare_host h"
proof (cases "SplitHostPort (h @ '':'' @ itoa p)")
  case (Inl err)
  with assms have "h = []" by (simp add: host_of_addr_def)
  then show ?thesis by (simp add: bare_host_def)
next
  case (Inr q)
  have flc: "from_last_colon (h @ '':'' @ itoa p) = (h, itoa p)" by (simp add: from_last_colon_port colon_itoa)
  show ?thesis
  proof (cases h)
    case (Cons x xs)
    show ?thesis
    proof (cases "x = CHR ''[''")
      case True
      let ?inner = "takeWhile (\<lambda>c. c \<noteq> CHR '']'') (tl (h @ '':'' @ itoa p))"
      from Inr Cons True assms have "?inner = h" and free: "CHR ''['' \<notin> set (tl (h @ '':'' @ itoa p))"
        by (auto simp: SplitHostPort_def host_of_addr_def addr_error_def Let_def split: if_splits prod.splits)
      then have "CHR ''['' \<in> set ?inner" using Cons True by simp
      with free show ?thesis by (meson set_takeWhileD)
    next
      case False
      with Inr Cons show ?thesis
        using flc by (auto simp: SplitHostPort_def addr_error_def bare_host_def split: if_splits)
    qed
  qed (simp add: bare_host_def)
qed

lemma dialed_client:
  "net_smtp wire ext d (Dial addr) (w, c) = (None, x) \<Longrightarrow> snd x = \<lparr>sc_serverName = host_of_addr addr, sc_tls = False\<rparr>"
  "net_smtp wire ext d (DialTLS addr name) (w, c) = (None, x) \<Longrightarrow> snd x = \<lparr>sc_serverName = host_of_addr addr, sc_tls = True\<rparr>"
  by (auto simp: dialed_def netDialer_Dial_def netDialer_DialTLS_def smtp_NewClient_def split: prod.splits sum.splits option.splits)

lemma starttls_client:
  "net_smtp wire ext d (StartTLS name) x = (None, x') \<Longrightarrow> snd x' = (snd x)\<lparr>sc_tls := True\<rparr>"
  by (cases x) (auto simp: Let_def split: prod.splits option.splits)

lemma login_client:
  "net_smtp wire ext d (Auth u p h) x = (None, x') \<Longrightarrow>
     sc_serverName (snd x) = h \<and> (sc_tls (snd x) \<or> isLocalhost h)"
  by (cases x) (auto simp: PlainAuth_Start_def Let_def split: prod.splits option.splits sum.splits if_splits)

lemma try_call_None: "try_call call c what rest w = (None, w') \<Longrightarrow> \<exists>w1. call c w = (None, w1) \<and> rest w1 = (None, w')"
  by (auto simp: try_call_def split: prod.splits option.splits)

text \<open>C19: What a login needs.  If a delivery with credentials succeeds, the configured host has no colon and no bracket -
  so it is no literal IPv6 address - and TLS was configured or the host is the machine itself.  With
  \<open>EMAIL_TLS_MODE=none\<close> and credentials for any other host, which the configuration accepts, every delivery fails.\<close>

theorem login_requirements:
  assumes "Send (net_smtp wire ext d) stamp s to subject htmlBody (w, c) = (None, x')"
    and "s_username s \<noteq> []" "s_password s \<noteq> []"
  shows "bare_host (s_host s) \<and> (s_tlsMode s = ''tls'' \<or> s_tlsMode s = ''starttls'' \<or> isLocalhost (s_host s))"
proof -
  let ?net = "net_smtp wire ext d"
  let ?addr = "s_host s @ '':'' @ itoa (s_port s)"
  obtain x1 where dial: "dial ?net s ?addr (w, c) = (None, x1)" and run: "\<exists>x2. dialogue ?net stamp s to subject htmlBody x1 = (None, x2)"
    using assms(1) by (auto simp: Send_def Let_def split: prod.splits option.splits)
  have c1: "snd x1 = \<lparr>sc_serverName = host_of_addr ?addr, sc_tls = (s_tlsMode s = ''tls'')\<rparr>"
    using dial dialed_client [of wire ext d ?addr] by (auto simp: dial_def simp del: net_smtp.simps split: if_splits)
  have "\<exists>x2 x3. snd x2 = (snd x1)\<lparr>sc_tls := (sc_tls (snd x1) \<or> s_tlsMode s = ''starttls'')\<rparr>
      \<and> ?net (Auth (s_username s) (s_password s) (s_host s)) x2 = (None, x3)"
  proof (cases "s_tlsMode s = ''starttls''")
    case True
    with run assms(2,3) obtain x2 x3 where "?net (StartTLS (s_host s)) x1 = (None, x2)"
        "?net (Auth (s_username s) (s_password s) (s_host s)) x2 = (None, x3)"
      by (auto simp: dialogue_def dest!: try_call_None)
    with starttls_client True show ?thesis by fastforce
  next
    case False
    with run assms(2,3) obtain x3 where "?net (Auth (s_username s) (s_password s) (s_host s)) x1 = (None, x3)"
      by (auto simp: dialogue_def dest!: try_call_None)
    with False show ?thesis by (intro exI [of _ x1] exI [of _ x3]) simp
  qed
  then obtain x2 x3 where x2: "snd x2 = (snd x1)\<lparr>sc_tls := (sc_tls (snd x1) \<or> s_tlsMode s = ''starttls'')\<rparr>"
      "?net (Auth (s_username s) (s_password s) (s_host s)) x2 = (None, x3)" by blast
  from login_client [OF x2(2)] x2(1) c1 have "host_of_addr ?addr = s_host s"
      "s_tlsMode s = ''tls'' \<or> s_tlsMode s = ''starttls'' \<or> isLocalhost (s_host s)" by auto
  with host_comes_back show ?thesis by blast
qed

section \<open>A server that falls silent\<close>

text \<open>Once a call is left unanswered, so is the delivery: no call of a hung world brings it back.\<close>

lemma stalled_smtp: "fst (snd (net_smtp (stalling answers) ext d call (None, c))) = None"
  by (cases call) (simp_all add: dialed_def netDialer_Dial_def netDialer_DialTLS_def smtp_NewClient_def path_line_def
    PlainAuth_Start_def Let_def split: sum.split)

lemma stalled_script: "fst (snd (run_script (net_smtp (stalling answers) ext d) cs (None, c))) = None"
proof (induction cs arbitrary: c)
  case (Cons x cs)
  obtain f what where x: "x = (f, what)" by (cases x)
  obtain r w c' where call: "net_smtp (stalling answers) ext d (f (None, c)) (None, c) = (r, (w, c'))" by (metis prod_cases3)
  with stalled_smtp [of answers ext d "f (None, c)" c] have "w = None" by simp
  with call Cons.IH show ?case by (cases r) (simp_all add: x try_call_def)
qed simp

text \<open>
  A server that is connected to within the timeout and then never says a word: the delivery does not return.  Only
  the connection has a timeout; there is no deadline on what is read afterwards.
\<close>

lemma Send_stalls:
  assumes "\<And>t addr v. \<exists>v'. answers (TcpConnect t addr) v = Some (None, v')"
    and "\<And>t addr name v. \<exists>v'. answers (TlsConnect t addr name) v = Some (None, v')"
    and "\<And>v. answers Greeting v = None"
  shows "fst (snd (Send (net_smtp (stalling answers) ext d) stamp s to subject htmlBody (w, c))) = None"
proof -
  let ?net = "net_smtp (stalling answers) ext d" and ?addr = "s_host s @ '':'' @ itoa (s_port s)"
  have greet: "smtp_NewClient (stalling answers) tls h v = (Inr \<lparr>sc_serverName = h, sc_tls = tls\<rparr>, None)" for tls h v
    using assms(3) by (cases v) (simp_all add: smtp_NewClient_def stalling_def)
  obtain r c' where dial: "dial ?net s ?addr (w, c) = (r, (None, c'))"
  proof (cases w)
    case None
    show thesis
    proof (cases "s_tlsMode s = ''tls''")
      case True
      with None that show ?thesis by (simp add: dial_def dialed_def netDialer_DialTLS_def greet)
    next
      case False
      with None that show ?thesis by (simp add: dial_def dialed_def netDialer_Dial_def greet)
    qed
  next
    case (Some v)
    show thesis
    proof (cases "s_tlsMode s = ''tls''")
      case True
      from assms(2) [of "nd_timeout d" ?addr "s_host s" v] obtain v' where
        "answers (TlsConnect (nd_timeout d) ?addr (s_host s)) v = Some (None, v')" ..
      with True Some that show ?thesis by (simp add: dial_def dialed_def netDialer_DialTLS_def stalling_def [of _ "TlsConnect _ _ _"] greet)
    next
      case False
      from assms(1) [of "nd_timeout d" ?addr v] obtain v' where "answers (TcpConnect (nd_timeout d) ?addr) v = Some (None, v')" ..
      with False Some that show ?thesis by (simp add: dial_def dialed_def netDialer_Dial_def stalling_def [of _ "TcpConnect _ _"] greet)
    qed
  qed
  show ?thesis
  proof (cases r)
    case (Some err)
    with dial show ?thesis by (simp add: Send_def Let_def)
  next
    case None
    obtain res w2 c2 where run: "dialogue ?net stamp s to subject htmlBody (None, c') = (res, (w2, c2))" by (metis prod_cases3)
    with stalled_script [of answers ext d "script stamp s to subject htmlBody" c'] have "w2 = None" by (simp add: dialogue_script)
    with stalled_smtp [of answers ext d CloseClient c2] dial None run show ?thesis
      by (cases "?net CloseClient (None, c2)") (simp add: Send_def Let_def)
  qed
qed

section \<open>Concrete deliveries\<close>

text \<open>A network and a server that accept everything but a login.\<close>

definition strict_wire :: "(wire_call, unit) calls" where
  "strict_wire c w = (case c of AuthPlain resp \<Rightarrow> (Some (Foreign ''535''), w) | _ \<Rightarrow> (None, w))"

definition kind_wire :: "(wire_call, unit) calls" where
  "kind_wire c w = (None, w)"

definition no_ext :: "'w \<Rightarrow> bool \<times> bool" where
  "no_ext w = (False, False)"

lemma demo_host: "itoa 587 = ''587''" "host_of_addr ''mail:587'' = ''mail''"
proof -
  show port: "itoa 587 = ''587''" by code_simp
  show "host_of_addr ''mail:587'' = ''mail''"
    using SplitHostPort_bare [of "''mail''" 587] by (simp add: host_of_addr_def bare_host_def port)
qed

lemmas wire_run_simps = Send_def Let_def dial_def dialogue_def try_call_def recording_def dialed_def netDialer_Dial_def
  smtp_NewClient_def PlainAuth_Start_def path_line_def demo_sender_def NewSender_def demo_host

definition login_log :: "(wire_call \<times> goerr option) list" where
  "login_log =
     [(TcpConnect defaultDialTimeout ''mail:587'', None), (Greeting, None), (Hello, None), (StartTLSLine, None),
      (Handshake ''mail'', None), (Hello, None), (AuthPlain (plain_response [] ''user'' ''secret''), Some (Foreign ''535'')),
      (Other CloseClient, None)]"

lemma login_run:
  "Send (net_smtp (recording strict_wire) no_ext \<lparr>nd_timeout = defaultDialTimeout\<rparr>) (\<lambda>_. (zero_time, [])) demo_sender [''a''] ''s'' ''b''
     (((), []), no_client) =
   (Some (Errorf [Lit ''email auth''] (Foreign ''535'')), (((), login_log), \<lparr>sc_serverName = ''mail'', sc_tls = True\<rparr>))"
  by (simp add: wire_run_simps strict_wire_def login_log_def)

theorem credentials_never_in_clear_witness:
  "plain_response [] ''user'' ''secret'' = plain_response [] (s_username demo_sender) (s_password demo_sender)
   \<and> (isLocalhost ''mail'' \<or> (\<exists>j<6. (\<exists>t addr. login_log ! j = (TlsConnect t addr ''mail'', None)) \<or> login_log ! j = (Handshake ''mail'', None)))"
  using credentials_never_in_clear [OF login_run, of 6 "plain_response [] ''user'' ''secret''"]
  by (simp add: login_log_def demo_sender_def NewSender_def)

theorem login_requirements_witness:
  "bare_host (s_host demo_sender)
   \<and> (s_tlsMode demo_sender = ''tls'' \<or> s_tlsMode demo_sender = ''starttls'' \<or> isLocalhost (s_host demo_sender))"
proof -
  have "\<exists>x. Send (net_smtp kind_wire no_ext \<lparr>nd_timeout = defaultDialTimeout\<rparr>) (\<lambda>_. (zero_time, [])) demo_sender [''a''] ''s'' ''b'' ((), no_client) = (None, x)"
    by (simp add: wire_run_simps kind_wire_def write_message_def)
  then obtain x where run: "Send (net_smtp kind_wire no_ext \<lparr>nd_timeout = defaultDialTimeout\<rparr>) (\<lambda>_. (zero_time, [])) demo_sender [''a''] ''s'' ''b'' ((), no_client) = (None, x)" ..
  show ?thesis by (rule login_requirements [OF run]) (simp_all add: demo_sender_def NewSender_def)
qed

end
