(* ===== verification/MailDelivery.thy ===== *)
theory MailDelivery imports RelaySystem EmailDialer begin

text \<open>
  The relay and a mail server: what happens when the e-mail channel of a running relay talks \<open>net/smtp\<close> (theory
  \<open>EmailDialer\<close>) to a server that falls silent, or to one that reads the lines of the envelope as RFC 5321 says.
\<close>

section \<open>A silent mail server\<close>

lemma email_Send_stalls:
  assumes "\<And>t addr v. \<exists>v'. answers (TcpConnect t addr) v = Some (None, v')"
    and "\<And>t addr name v. \<exists>v'. answers (TlsConnect t addr name) v = Some (None, v')"
    and "\<And>v. answers Greeting v = None"
  shows "fst (snd (email_Send (net_smtp (stalling answers) ext d) stamp ch n x)) = None"
proof -
  obtain w c where x: "x = (w, c)" by (cases x)
  obtain r w' c' where send: "Send (net_smtp (stalling answers) ext d) stamp (ec_sender ch) (ec_to ch) (FormatSubject n (ec_subjectPrefix ch))
      (case ec_formatter ch of Some f \<Rightarrow> f n | None \<Rightarrow> FormatBodyDefault n) (w, c) = (r, (w', c'))" by (metis prod_cases3)
  have "fst (snd (Send (net_smtp (stalling answers) ext d) stamp (ec_sender ch) (ec_to ch) (FormatSubject n (ec_subjectPrefix ch))
      (case ec_formatter ch of Some f \<Rightarrow> f n | None \<Rightarrow> FormatBodyDefault n) (w, c))) = None"
    by (rule Send_stalls) (rule assms)+
  with send have "w' = None" by simp
  with send x show ?thesis by (cases r) (simp_all add: email_Send_def Let_def)
qed

text \<open>No step of the relay takes a worker out of a \<open>Send\<close> that does not return.\<close>

lemma unanswered_stays:
  assumes "relay_step sv c channels get_pending mark_sent save arrives s s'"
    and "\<And>eng w. app_send sv (with_engine eng (channels ! i)) n w = None"
    and "d_worker (a_disp (r_app s)) i = WSend n"
  shows "d_worker (a_disp (r_app s')) i = WSend n"
  using assms(1)
proof (cases rule: relay_step.cases)
  case (send j m err w d)
  with assms(2,3) have "j \<noteq> i" by auto
  moreover have "d_worker d j' = d_worker (a_disp (r_app s)) j'" if "j' \<noteq> j" for j'
    using send(3,5) that by (simp add: worker_step.simps)
  ultimately show ?thesis using assms(3) send(1) by simp
qed (use assms(3) in \<open>simp_all add: no_send_def\<close>)

text \<open>C37: A silent mail server stops the relay for ever.  If the mail server accepts connections but never says a
  word, then once the e-mail worker has begun a delivery, it stays in it in every later state of the relay; the dispatcher
  stays in the fan-out of that notification, so no other group is delivered either; and \<open>run\<close> never returns nor
  closes the store.  Nothing helps against it: not the send timeout, not the dial timeout, not a signal, not the
  shutdown timeout.  (The context with the send timeout reaches only the dialer, and no deadline is set on the connection.)\<close>

theorem silent_server_stops_relay:
  assumes "run_setup lib call new_engine getenv w0 = (Inr (c, channels), w1)"
    and "relay_reach sv c channels get_pending mark_sent save arrives st0 s"
    and "sv_smtp sv = net_smtp (stalling answers) ext d" "sv_blocked sv = (\<lambda>w. fst w = None)"
    and "\<And>t addr v. \<exists>v'. answers (TcpConnect t addr) v = Some (None, v')"
    and "\<And>t addr name v. \<exists>v'. answers (TlsConnect t addr name) v = Some (None, v')"
    and "\<And>v. answers Greeting v = None"
    and "i < length channels" "channels ! i = EmailChannel sndr to pfx eng" "d_worker (a_disp (r_app s)) i = WSend n"
    and "(relay_step sv c channels get_pending mark_sent save arrives)\<^sup>*\<^sup>* s s'"
  shows "d_worker (a_disp (r_app s')) i = WSend n \<and> in_fanout (d_pc (a_disp (r_app s')))
    \<and> a_open (r_app s') \<and> (\<forall>r. a_pc (r_app s') \<noteq> Exited r)"
proof -
  have silent: "app_send sv (with_engine e (channels ! i)) n w = None" for e w
    using email_Send_stalls [where answers = answers and ext = ext and d = d and stamp = "sv_stamp sv" and ch = "email_channel_of sv sndr to pfx e" and n = n and x = w, OF assms(5-7)]
    by (cases "email_Send (net_smtp (stalling answers) ext d) (sv_stamp sv) (email_channel_of sv sndr to pfx e) n w")
      (auto simp: assms(3,4,9) app_send_def)
  have "d_worker (a_disp (r_app s')) i = WSend n \<and> relay_reach sv c channels get_pending mark_sent save arrives st0 s'"
    using assms(11)
  proof (induction rule: rtranclp_induct)
    case base
    with assms(2,10) show ?case by simp
  next
    case (step s1 s2)
    with unanswered_stays [OF step.hyps(2) silent] relay_reach.step [OF _ step.hyps(2)] show ?case by blast
  qed
  then have stays: "d_worker (a_disp (r_app s')) i = WSend n" and reach: "relay_reach sv c channels get_pending mark_sent save arrives st0 s'"
    by blast+
  from stalled_send_blocks [OF assms(1) relay_reach_app [OF reach] assms(8) stays] stays show ?thesis by simp
qed

text \<open>A run in which the e-mail worker reaches such a \<open>Send\<close>: schedules that make no \<open>Send\<close> return are runs of the relay.\<close>

fun calm :: "string list \<Rightarrow> dispatcher_config \<Rightarrow> ('e \<Rightarrow> int \<Rightarrow> 's \<Rightarrow> goerr + alert_group list)
   \<Rightarrow> ('e \<Rightarrow> string \<Rightarrow> 's \<Rightarrow> goerr option \<times> 's) \<Rightarrow> ('e \<Rightarrow> alert_group \<Rightarrow> 's \<Rightarrow> goerr option \<times> 's)
   \<Rightarrow> (alert_group \<Rightarrow> bool) \<Rightarrow> 'e choice list \<Rightarrow> 's dstate \<Rightarrow> bool" where
  "calm names cfg gp ms sv arrives [] s \<longleftrightarrow> True"
| "calm names cfg gp ms sv arrives (c # cs) s \<longleftrightarrow>
     (\<forall>i n. d_worker s i \<noteq> WSend n)
     \<and> (case follow names cfg gp ms sv arrives c s of None \<Rightarrow> True | Some s' \<Rightarrow> calm names cfg gp ms sv arrives cs s')"

lemma calm_relay:
  assumes "follow_all (map channel_name channels) (dispatcher_config_of c) gp ms save arrives cs (a_disp (r_app s)) = Some d"
    and "calm (map channel_name channels) (dispatcher_config_of c) gp ms save arrives cs (a_disp (r_app s))"
    and "relay_reach sv c channels gp ms save arrives st0 s" "a_server (r_app s) = Serving" "a_open (r_app s)"
  shows "\<exists>s'. relay_reach sv c channels gp ms save arrives st0 s' \<and> a_disp (r_app s') = d"
  using assms
proof (induction cs arbitrary: s)
  case (Cons x cs)
  let ?names = "map channel_name channels" and ?cfg = "dispatcher_config_of c"
  from Cons.prems(1) obtain d1 where d1: "follow ?names ?cfg gp ms save arrives x (a_disp (r_app s)) = Some d1"
    "follow_all ?names ?cfg gp ms save arrives cs d1 = Some d" by (auto split: option.splits)
  from dstep_app_step [OF follow_dstep [OF d1(1)] Cons.prems(4,5)] obtain b where
    "app_step ?names ?cfg gp ms save arrives (r_app s) ((r_app s)\<lparr>a_signal := b, a_disp := d1\<rparr>)" ..
  then have "relay_step sv c channels gp ms save arrives s (s\<lparr>r_app := (r_app s)\<lparr>a_signal := b, a_disp := d1\<rparr>\<rparr>)"
    by (rule relay_step.app) (use Cons.prems(2) in \<open>simp add: no_send_def\<close>)
  from relay_reach.step [OF Cons.prems(3) this] d1 Cons.prems show ?case by (intro Cons.IH [where s = "s\<lparr>r_app := (r_app s)\<lparr>a_signal := b, a_disp := d1\<rparr>\<rparr>"]) simp_all
qed auto

text \<open>A mail server that accepts connections and nothing else, behind the two channels of the demonstration.\<close>

definition silent_answers :: "wire_call \<Rightarrow> unit \<Rightarrow> (goerr option \<times> unit) option" where
  "silent_answers call v = (case call of TcpConnect t addr \<Rightarrow> Some (None, v) | TlsConnect t addr name \<Rightarrow> Some (None, v) | _ \<Rightarrow> None)"

definition silent_services :: "(unit, unit option \<times> smtp_client) services" where
  "silent_services =
     \<lparr>sv_new_request = (\<lambda>_. None), sv_do_request = (\<lambda>_ w. (Inr (200, []), w)),
      sv_smtp = net_smtp (stalling silent_answers) no_ext \<lparr>nd_timeout = defaultDialTimeout\<rparr>,
      sv_stamp = (\<lambda>_. (zero_time, [])), sv_execute = (\<lambda>_ _ _. Inr []), sv_join = (@), sv_blocked = (\<lambda>w. fst w = None)\<rparr>"

definition one_pending :: "unit \<Rightarrow> int \<Rightarrow> unit \<Rightarrow> goerr + alert_group list" where
  "one_pending e limit st = Inr [sample_group]"

definition no_mark :: "unit \<Rightarrow> string \<Rightarrow> unit \<Rightarrow> goerr option \<times> unit" where
  "no_mark e k st = (None, st)"

definition no_save :: "unit \<Rightarrow> alert_group \<Rightarrow> unit \<Rightarrow> goerr option \<times> unit" where
  "no_save e g st = (None, st)"

abbreviation silent_schedule :: "unit choice list" where
  "silent_schedule \<equiv> [CRun, CPoll (), CDispatch zero_time, CFanout None 0, CFanout None 0, CWorker 1 None 0]"

lemma silent_run:
  "(\<exists>d. follow_all demo_names (dispatcher_config_of demo_settings) one_pending no_mark no_save (\<lambda>_. True) silent_schedule (NewDispatcher ()) = Some d
     \<and> d_worker d 1 = WSend demo_note)
   \<and> calm demo_names (dispatcher_config_of demo_settings) one_pending no_mark no_save (\<lambda>_. True) silent_schedule (NewDispatcher ())"
  by (simp add: run_simps dispatcher_config_of_def demo_settings_def default_config_def demo_channels_def demo_note_def
      pachca_Name_def email_Name_def one_pending_def Let_def)

theorem silent_server_stops_relay_witness:
  "\<exists>s. relay_reach silent_services demo_settings demo_channels one_pending no_mark no_save (\<lambda>_. True) () s
     \<and> d_worker (a_disp (r_app s)) 1 = WSend demo_note \<and> in_fanout (d_pc (a_disp (r_app s))) \<and> a_open (r_app s)"
proof -
  let ?init = "relay_init silent_services None (\<lambda>_. None) demo_channels () (\<lambda>_. (Some (), no_client))"
  obtain d where run: "follow_all demo_names (dispatcher_config_of demo_settings) one_pending no_mark no_save (\<lambda>_. True) silent_schedule
      (NewDispatcher ()) = Some d" "d_worker d 1 = WSend demo_note" using silent_run by blast
  have init: "a_disp (r_app ?init) = NewDispatcher ()" "a_server (r_app ?init) = Serving" "a_open (r_app ?init)"
    by (simp_all add: relay_init_def app_init_def)
  from calm_relay [OF run(1) [folded init(1)] _ relay_reach.init init(2,3)] silent_run obtain s where
    s: "relay_reach silent_services demo_settings demo_channels one_pending no_mark no_save (\<lambda>_. True) () s" "a_disp (r_app s) = d"
    unfolding init(1) by blast
  have ch: "1 < length demo_channels" "demo_channels ! 1 = EmailChannel (NewSender ''mail'' 25 ''a@b'' [] [] ''none'') [''c@d'', ''e@f''] [] None"
    by (simp_all add: demo_channels_def)
  have sv: "sv_smtp silent_services = net_smtp (stalling silent_answers) no_ext \<lparr>nd_timeout = defaultDialTimeout\<rparr>"
    "sv_blocked silent_services = (\<lambda>w. fst w = None)" by (simp_all add: silent_services_def)
  have w: "d_worker (a_disp (r_app s)) 1 = WSend demo_note" using s(2) run(2) by simp
  have "d_worker (a_disp (r_app s)) 1 = WSend demo_note \<and> in_fanout (d_pc (a_disp (r_app s)))
      \<and> a_open (r_app s) \<and> (\<forall>r. a_pc (r_app s) \<noteq> Exited r)"
    by (rule silent_server_stops_relay [OF demo_setup s(1) sv _ _ _ ch w rtranclp.rtrancl_refl]) (simp_all add: silent_answers_def)
  with s(1) show ?thesis by blast
qed

section \<open>The envelope as RFC 5321 reads it\<close>

text \<open>
  A reader of the \<open>MAIL\<close> and \<open>RCPT\<close> lines that follows the grammar of RFC 5321, section 4.1.2 (without the obsolete source
  routes): a path is empty or one mailbox in angle brackets, a mailbox is a local part, an at sign and a domain or address
  literal, and after the path come parameters or nothing.  Each reader gives what it read and what is left.
\<close>

definition alnum :: "char \<Rightarrow> bool" where
  "alnum c \<longleftrightarrow> (CHR ''0'' \<le> c \<and> c \<le> CHR ''9'') \<or> (CHR ''A'' \<le> c \<and> c \<le> CHR ''Z'') \<or> (CHR ''a'' \<le> c \<and> c \<le> CHR ''z'')"

definition atext :: "char \<Rightarrow> bool" where
  "atext c \<longleftrightarrow> alnum c \<or> c \<in> set (CHR 0x27 # ''!#$%&*+-/=?^_{|}~`'')"

definition dotted :: "string \<Rightarrow> bool" where
  "dotted a \<longleftrightarrow> a \<noteq> [] \<and> hd a \<noteq> CHR ''.'' \<and> last a \<noteq> CHR ''.'' \<and> \<not> sublist ''..'' a"

definition read_while :: "(char \<Rightarrow> bool) \<Rightarrow> (string \<Rightarrow> bool) \<Rightarrow> string \<Rightarrow> (string \<times> string) option" where
  "read_while P ok s = (let a = takeWhile P s in if ok a then Some (a, dropWhile P s) else None)"

text \<open>The rest of a quoted string, its closing quote included.\<close>

fun read_quoted :: "string \<Rightarrow> (string \<times> string) option" where
  "read_quoted (c # s) =
     (if c = CHR 0x22 then Some ([c], s)
      else if c = CHR 0x5C then (case s of d # s' \<Rightarrow> if CHR '' '' \<le> d \<and> d \<le> CHR ''~'' then map_option (\<lambda>(a, r). (c # d # a, r)) (read_quoted s') else None
                                 | [] \<Rightarrow> None)
      else if CHR '' '' \<le> c \<and> c \<le> CHR ''~'' then map_option (\<lambda>(a, r). (c # a, r)) (read_quoted s) else None)"
| "read_quoted [] = None"

fun read_local :: "string \<Rightarrow> (string \<times> string) option" where
  "read_local s =
     (if s \<noteq> [] \<and> hd s = CHR 0x22 then map_option (\<lambda>(a, r). (CHR 0x22 # a, r)) (read_quoted (tl s))
      else read_while (\<lambda>c. atext c \<or> c = CHR ''.'') dotted s)"

definition domain_name :: "string \<Rightarrow> bool" where
  "domain_name a \<longleftrightarrow> a \<noteq> [] \<and> alnum (hd a) \<and> alnum (last a) \<and> \<not> sublist ''..'' a \<and> \<not> sublist ''.-'' a \<and> \<not> sublist ''-.'' a"

definition literal_char :: "char \<Rightarrow> bool" where
  "literal_char c \<longleftrightarrow> (CHR ''!'' \<le> c \<and> c \<le> CHR ''Z'') \<or> (CHR ''^'' \<le> c \<and> c \<le> CHR ''~'')"

fun read_domain :: "string \<Rightarrow> (string \<times> string) option" where
  "read_domain s =
     (if s \<noteq> [] \<and> hd s = CHR ''[''
      then (case read_while literal_char (\<lambda>a. a \<noteq> []) (tl s) of
              Some (a, c # r) \<Rightarrow> if c = CHR '']'' then Some (''['' @ a @ '']'', r) else None
            | _ \<Rightarrow> None)
      else read_while (\<lambda>c. alnum c \<or> c = CHR ''-'' \<or> c = CHR ''.'') domain_name s)"

definition read_mailbox :: "string \<Rightarrow> (string \<times> string) option" where
  "read_mailbox s =
     (case read_local s of
        Some (a, c # r) \<Rightarrow> if c = CHR ''@'' then map_option (\<lambda>(d, r'). (a @ ''@'' @ d, r')) (read_domain r) else None
      | _ \<Rightarrow> None)"

definition parameters_follow :: "string \<Rightarrow> bool" where
  "parameters_follow r \<longleftrightarrow> r = [] \<or> hd r = CHR '' ''"

definition read_path :: "string \<Rightarrow> string option" where
  "read_path s =
     (if prefix ''<>'' s then (if parameters_follow (drop 2 s) then Some [] else None)
      else if prefix ''<'' s
      then (case read_mailbox (tl s) of
              Some (a, c # r) \<Rightarrow> if c = CHR ''>'' \<and> parameters_follow r then Some a else None
            | _ \<Rightarrow> None)
      else None)"

definition read_envelope_line :: "string \<Rightarrow> string option" where
  "read_envelope_line l =
     (if prefix ''MAIL FROM:'' l then read_path (drop 10 l) else if prefix ''RCPT TO:'' l then read_path (drop 8 l) else None)"

text \<open>The reader at work.\<close>

lemma envelope_examples:
  "read_envelope_line ''MAIL FROM:<alerts@example.com> BODY=8BITMIME'' = Some ''alerts@example.com''"
  "read_envelope_line ''RCPT TO:<on.call@[10.0.0.1]>'' = Some ''on.call@[10.0.0.1]''"
  "read_envelope_line (''RCPT TO:<'' @ [CHR 0x22] @ ''a b>'' @ [CHR 0x22] @ ''@h-1.example>'') = Some ([CHR 0x22] @ ''a b>'' @ [CHR 0x22] @ ''@h-1.example'')"
  "read_envelope_line ''MAIL FROM:<>'' = Some []"
  "read_envelope_line ''MAIL FROM:<a..b@c>'' = None"
  by code_simp+

text \<open>The simple addresses: dotted atoms at a domain name.\<close>

definition simple_address :: "string \<Rightarrow> bool" where
  "simple_address a \<longleftrightarrow>
     (\<exists>l d. a = l @ ''@'' @ d \<and> dotted l \<and> (\<forall>c\<in>set l. atext c \<or> c = CHR ''.'')
        \<and> domain_name d \<and> (\<forall>c\<in>set d. alnum c \<or> c = CHR ''-'' \<or> c = CHR ''.''))"

lemma read_while_run: "(\<forall>c\<in>set a. P c) \<Longrightarrow> \<not> P x \<Longrightarrow> ok a \<Longrightarrow> read_while P ok (a @ x # r) = Some (a, x # r)"
  by (simp add: read_while_def Let_def)

lemma simple_address_read:
  assumes "simple_address a" "parameters_follow r"
  shows "read_path (''<'' @ a @ ''>'' @ r) = Some a"
proof -
  from assms(1) obtain l d where a: "a = l @ ''@'' @ d" and l: "dotted l" "\<forall>c\<in>set l. atext c \<or> c = CHR ''.''"
    and d: "domain_name d" "\<forall>c\<in>set d. alnum c \<or> c = CHR ''-'' \<or> c = CHR ''.''" by (auto simp: simple_address_def)
  have sep: "\<not> (atext (CHR ''@'') \<or> CHR ''@'' = CHR ''.'')" "\<not> (alnum (CHR ''>'') \<or> CHR ''>'' = CHR ''-'' \<or> CHR ''>'' = CHR ''.'')"
    "\<not> alnum (CHR ''['')" "\<not> atext CHR 0x22" "\<not> atext (CHR ''>'')" by code_simp+
  from l obtain x l' where x: "l = x # l'" "x \<noteq> CHR 0x22" "x \<noteq> CHR ''>''" using sep by (cases l) (auto simp: dotted_def)
  from d obtain y d' where y: "d = y # d'" "y \<noteq> CHR ''[''" using sep by (cases d) (auto simp: domain_name_def)
  have "read_local (l @ CHR ''@'' # d @ CHR ''>'' # r) = Some (l, CHR ''@'' # d @ CHR ''>'' # r)"
    using read_while_run [OF l(2) sep(1), of dotted, OF l(1)] x by simp
  moreover have "read_domain (d @ CHR ''>'' # r) = Some (d, CHR ''>'' # r)"
    using read_while_run [OF d(2) sep(2), of domain_name, OF d(1)] y by simp
  ultimately have "read_mailbox (a @ ''>'' @ r) = Some (a, ''>'' @ r)" by (simp add: read_mailbox_def a)
  with assms(2) x show ?thesis by (simp add: read_path_def a)
qed

text \<open>A phrase of words and spaces before an address in angle brackets is no path.\<close>

lemma phrase_unreadable:
  assumes "\<forall>c\<in>set phrase. atext c \<or> c = CHR '' ''"
  shows "read_path (''<'' @ phrase @ ''<'' @ r) = None"
proof -
  let ?P = "\<lambda>c. atext c \<or> c = CHR ''.''"
  have no: "\<not> ?P (CHR ''<'')" "\<not> ?P (CHR '' '')" "\<not> atext CHR 0x22" "\<not> atext (CHR ''>'')" by code_simp+
  have drop: "dropWhile ?P (phrase @ CHR ''<'' # r) = dropWhile ?P phrase @ CHR ''<'' # r" using no(1) by (simp add: dropWhile_append3)
  have rest: "\<exists>c r'. dropWhile ?P (phrase @ CHR ''<'' # r) = c # r' \<and> c \<noteq> CHR ''@''"
    unfolding drop
  proof (cases "dropWhile ?P phrase")
    case (Cons c ph)
    have "\<not> ?P (hd (dropWhile ?P phrase))" by (rule hd_dropWhile) (simp add: Cons)
    moreover have "c \<in> set phrase" by (rule set_dropWhileD [of c ?P]) (simp add: Cons)
    ultimately have "c = CHR '' ''" using assms Cons by auto
    with Cons show "\<exists>c r'. dropWhile ?P phrase @ CHR ''<'' # r = c # r' \<and> c \<noteq> CHR ''@''" by simp
  next
    case Nil
    show "\<exists>c r'. dropWhile ?P phrase @ CHR ''<'' # r = c # r' \<and> c \<noteq> CHR ''@''" unfolding Nil by simp
  qed
  have first: "hd (phrase @ CHR ''<'' # r) \<noteq> CHR 0x22 \<and> hd (phrase @ CHR ''<'' # r) \<noteq> CHR ''>''"
    using assms no by (cases phrase) auto
  then have "read_local (phrase @ CHR ''<'' # r) = read_while ?P dotted (phrase @ CHR ''<'' # r)" by simp
  moreover from rest obtain c r' where "dropWhile ?P (phrase @ CHR ''<'' # r) = c # r'" "c \<noteq> CHR ''@''" by blast
  ultimately have mailbox: "read_mailbox (phrase @ CHR ''<'' # r) = None"
    by (simp only: read_mailbox_def read_while_def Let_def) simp
  have "\<not> prefix ''<>'' (''<'' @ phrase @ ''<'' @ r)" using first by (cases phrase) auto
  with mailbox show ?thesis by (simp add: read_path_def)
qed

section \<open>A sender with a display name\<close>

lemma path_line_sent:
  assumes "path_line wire params verb p w = (None, w')"
  shows "\<exists>v. fst (wire (PathLine (verb @ '':<'' @ p @ ''>'' @ params v)) v) = None"
proof -
  obtain r v where hello: "wire Hello w = (r, v)" by (meson surj_pair)
  with assms have "fst (wire (PathLine (verb @ '':<'' @ p @ ''>'' @ params v)) v) = None"
    by (cases r) (simp_all add: path_line_def split: if_splits)
  then show ?thesis ..
qed

lemma mail_line_sent:
  assumes "net_smtp wire ext d (Mail from) x = (None, x')"
  shows "\<exists>w e. fst (wire (PathLine (''MAIL FROM'' @ '':<'' @ from @ ''>'' @ mail_parameters e)) w) = None"
proof -
  obtain w c where x: "x = (w, c)" by (cases x)
  obtain r w' where line: "path_line wire (\<lambda>w. mail_parameters (ext w)) ''MAIL FROM'' from w = (r, w')" by (meson surj_pair)
  with assms x have "r = None" by simp
  with path_line_sent [where w = w and w' = w'] line show ?thesis by blast
qed

lemma Send_mail_line:
  assumes "Send (net_smtp wire ext d) stamp s to subject htmlBody x = (None, x')"
  shows "\<exists>w e. fst (wire (PathLine (''MAIL FROM'' @ '':<'' @ s_from s @ ''>'' @ mail_parameters e)) w) = None"
proof -
  obtain x1 x2 where "dialogue (net_smtp wire ext d) stamp s to subject htmlBody x1 = (None, x2)"
    using assms by (auto simp: Send_def Let_def split: prod.splits option.splits)
  then have "\<exists>x3 x4. net_smtp wire ext d (Mail (s_from s)) x3 = (None, x4)"
    unfolding dialogue_def by (cases x1) (fastforce dest!: try_call_None simp del: net_smtp.simps split: if_splits)
  then show ?thesis using mail_line_sent by blast
qed

lemma parameters_of_mail: "parameters_follow (mail_parameters e)"
  by (simp add: mail_parameters_def parameters_follow_def)

text \<open>C18: A sender with a display name is accepted and never works.  Take any configuration with e-mail that validates, and
  give it as \<open>EMAIL_FROM\<close> words and spaces followed by an address in angle brackets, as in the example \<open>Alert System
  <alerts@example.com>\<close>, which \<open>ParseAddress\<close> takes: it still validates.  But with a mail server that reads the envelope as
  RFC 5321 says and refuses what it cannot read, every delivery by the e-mail channel of that configuration
  fails, since the whole text is put between the angle brackets of \<open>MAIL FROM\<close>.  (For a simple address the same line can be read, and names it.)\<close>

theorem display_name_never_delivers:
  assumes "validate lib c = None" "m_Enabled (c_Email c)"
    and "from = phrase @ ''<'' @ addr @ ''>''" "\<forall>x\<in>set phrase. atext x \<or> x = CHR '' ''" "gl_ParseAddress lib from = None"
    and "named = c\<lparr>c_Email := (c_Email c)\<lparr>m_From := from\<rparr>\<rparr>"
    and "\<And>l w. read_envelope_line l = None \<Longrightarrow> fst (wire (PathLine l) w) \<noteq> None"
    and "build_channels new_engine named = Inr channels" "EmailChannel s to pfx eng \<in> set channels"
    and "sv_smtp sv = net_smtp wire ext d"
  shows "validate lib named = None \<and> fst (app_call sv (EmailChannel s to pfx eng') n w) \<noteq> None
    \<and> (simple_address addr \<longrightarrow> read_envelope_line (''MAIL FROM:<'' @ addr @ ''>'' @ mail_parameters e) = Some addr)"
proof (intro conjI impI notI)
  have line: "read_envelope_line (''MAIL FROM:'' @ p) = read_path p" for p by (simp add: read_envelope_line_def)
  have "good_config lib c" using assms(1) by (simp add: validate_None)
  then show "validate lib named = None"
    using assms(2,3,5) by (simp add: validate_None good_config_def good_server_def good_notify_def good_email_def assms(6))
  have s: "s_from s = from"
    using assms(8,9) by (auto simp: build_channels_def Let_def bindE_Inr NewSender_def assms(6) split: if_splits)
  have bad: "read_envelope_line (''MAIL FROM:<'' @ from @ ''>'' @ mail_parameters e) = None" for e
    using phrase_unreadable [OF assms(4), of "addr @ ''>>'' @ mail_parameters e"] line by (simp add: assms(3))
  assume "fst (app_call sv (EmailChannel s to pfx eng') n w) = None"
  then obtain subject htmlBody to' w' where "Send (net_smtp wire ext d) (sv_stamp sv) s to' subject htmlBody w = (None, w')"
    by (auto simp: assms(10) email_channel_of_def email_NewChannel_def email_Send_def Let_def split: prod.splits option.splits)
  from Send_mail_line [OF this] obtain v e where
    "fst (wire (PathLine (''MAIL FROM'' @ '':<'' @ from @ ''>'' @ mail_parameters e)) v) = None" unfolding s by blast
  moreover have "fst (wire (PathLine (''MAIL FROM'' @ '':<'' @ from @ ''>'' @ mail_parameters e)) v) \<noteq> None"
    by (rule assms(7)) (use bad [of e] in simp)
  ultimately show False by simp
next
  assume "simple_address addr"
  from simple_address_read [OF this parameters_of_mail]
  show "read_envelope_line (''MAIL FROM:<'' @ addr @ ''>'' @ mail_parameters e) = Some addr" by (simp add: read_envelope_line_def)
qed

text \<open>A mail server that refuses exactly the lines it cannot read.\<close>

definition reading_wire :: "(wire_call, unit) calls" where
  "reading_wire call w =
     (case call of PathLine l \<Rightarrow> if read_envelope_line l = None then Some (Foreign ''501'') else None | _ \<Rightarrow> None, w)"

definition named_settings :: config where
  "named_settings = demo_settings\<lparr>c_Email := (c_Email demo_settings)\<lparr>m_From := ''Alert System '' @ ''<'' @ ''alerts@example.com'' @ ''>''\<rparr>\<rparr>"

definition reading_services :: "(unit, unit \<times> smtp_client) services" where
  "reading_services =
     \<lparr>sv_new_request = (\<lambda>_. None), sv_do_request = (\<lambda>_ w. (Inr (200, []), w)),
      sv_smtp = net_smtp reading_wire no_ext \<lparr>nd_timeout = defaultDialTimeout\<rparr>,
      sv_stamp = (\<lambda>_. (zero_time, [])), sv_execute = (\<lambda>_ _ _. Inr []), sv_join = (@), sv_blocked = (\<lambda>_. False)\<rparr>"

theorem display_name_never_delivers_witness:
  "validate demo_lib named_settings = None
   \<and> (\<exists>s to pfx. fst (app_call reading_services (EmailChannel s to pfx None) demo_note ((), no_client)) \<noteq> None
        \<and> build_channels (\<lambda>_. Inl (Foreign ''none'')) named_settings = Inr [PachcaChannel (NewClient ''https://h'' ''tok'') 7, EmailChannel s to pfx None])
   \<and> read_envelope_line (''MAIL FROM:<'' @ ''alerts@example.com'' @ ''>'' @ mail_parameters (False, False)) = Some ''alerts@example.com''"
proof -
  let ?s = "NewSender ''mail'' 25 (''Alert System '' @ ''<'' @ ''alerts@example.com'' @ ''>'') [] [] ''none''"
  have built: "build_channels (\<lambda>_. Inl (Foreign ''none'')) named_settings
      = Inr [PachcaChannel (NewClient ''https://h'' ''tok'') 7, EmailChannel ?s [''c@d'', ''e@f''] [] None]"
    by (simp add: build_channels_def named_settings_def demo_settings_def default_config_def)
  have phrase: "\<forall>x\<in>set ''Alert System ''. atext x \<or> x = CHR '' ''" by code_simp
  have valid: "validate demo_lib demo_settings = None" using demo_good by (simp add: validate_None)
  have on: "m_Enabled (c_Email demo_settings)" by (simp add: demo_settings_def)
  have refuses: "read_envelope_line l = None \<Longrightarrow> fst (reading_wire (PathLine l) w) \<noteq> None" for l w
    by (simp add: reading_wire_def)
  have mail: "sv_smtp reading_services = net_smtp reading_wire no_ext \<lparr>nd_timeout = defaultDialTimeout\<rparr>"
    by (simp add: reading_services_def)
  have "\<exists>l d. ''alerts@example.com'' = l @ ''@'' @ d \<and> dotted l \<and> (\<forall>c\<in>set l. atext c \<or> c = CHR ''.'')
        \<and> domain_name d \<and> (\<forall>c\<in>set d. alnum c \<or> c = CHR ''-'' \<or> c = CHR ''.'')"
    by (rule exI [of _ "''alerts''"], rule exI [of _ "''example.com''"]) code_simp
  then have simple: "simple_address ''alerts@example.com''" by (simp only: simple_address_def)
  from display_name_never_delivers [where eng' = None and n = demo_note and w = "((), no_client)" and e = "(False, False)",
      OF valid on refl phrase _ named_settings_def refuses built _ mail] simple built
  show ?thesis by (auto simp: demo_lib_def)
qed

end
