(* ===== verification/RelayLog.thy ===== *)
theory RelayLog imports ConfigProperties begin

text \<open>
  Package \<open>internal/logging\<close> and what it uses of \<open>log/slog\<close>: a logger with a least level that writes one entry
  per record to its output, in the order of the calls.  The output is the list of the entries written; their
  encoding as JSON and their time stamps are the library's.  With it, what package \<open>config\<close> logs while it loads, and
  that neither its errors nor its log lines give the secrets away.
\<close>

record log_record =
  lr_level :: slog_level
  lr_msg :: string
  lr_attrs :: "(string \<times> log_value) list"

record slog_logger =
  lg_level :: slog_level
  lg_out :: "log_record list"

definition NewWithWriter :: "slog_level \<Rightarrow> log_record list \<Rightarrow> slog_logger" where
  "NewWithWriter level w = \<lparr>lg_level = level, lg_out = w\<rparr>"

text \<open>\<open>stdout\<close> is what the process has written so far.\<close>

definition NewLogger :: "slog_level \<Rightarrow> log_record list \<Rightarrow> slog_logger" where
  "NewLogger level stdout = NewWithWriter level stdout"

definition enabled :: "slog_logger \<Rightarrow> slog_level \<Rightarrow> bool" where
  "enabled lg l \<longleftrightarrow> lg_level lg \<le> l"

definition write_log :: "log_record \<Rightarrow> slog_logger \<Rightarrow> slog_logger" where
  "write_log r lg = (if enabled lg (lr_level r) then lg\<lparr>lg_out := lg_out lg @ [r]\<rparr> else lg)"

text \<open>Exactly the records of at least the configured level are written, each once, in order.\<close>

lemma log_records:
  "fold write_log rs (NewLogger level out) = NewLogger level (out @ filter (\<lambda>r. level \<le> lr_level r) rs)"
  by (induction rs arbitrary: out) (simp_all add: write_log_def enabled_def NewLogger_def NewWithWriter_def)

text \<open>Whatever level is configured, errors are written; and with \<open>debug\<close>, everything is.\<close>

lemma level_bounds: "LevelDebug \<le> l" "l \<le> LevelError"
  by (cases l; simp add: less_eq_slog_level_def)+

lemma errors_logged: "lr_level r = LevelError \<Longrightarrow> lg_out (write_log r lg) = lg_out lg @ [r]"
  by (simp add: write_log_def enabled_def level_bounds)

lemma debug_logs_all: "c_LogLevel c = ''debug'' \<Longrightarrow> fold write_log rs (NewLogger (SlogLevel c) out) = NewLogger LevelDebug (out @ rs)"
  by (simp add: SlogLevel_def log_records level_bounds)

text \<open>The record with which \<open>run\<close> starts holds the configuration as \<open>LogValue\<close> redacts it; a level above \<open>info\<close> drops it.\<close>

definition start_record :: "golib \<Rightarrow> config \<Rightarrow> log_record" where
  "start_record lib c =
     \<lparr>lr_level = LevelInfo, lr_msg = ''starting alertmanager-webhook-relay'', lr_attrs = [(''config'', LogValue lib c)]\<rparr>"

definition start_log :: "golib \<Rightarrow> config \<Rightarrow> log_record list \<Rightarrow> slog_logger" where
  "start_log lib c stdout = (let logger = NewLogger (SlogLevel c) stdout in write_log (start_record lib c) logger)"

lemma start_logged:
  "start_log lib c out = NewLogger (SlogLevel c)
     (if c_LogLevel c = ''warn'' \<or> c_LogLevel c = ''error'' then out else out @ [start_record lib c])"
  by (simp add: start_log_def write_log_def enabled_def SlogLevel_def NewLogger_def NewWithWriter_def start_record_def less_eq_slog_level_def)

section \<open>What Load logs\<close>

text \<open>
  \<open>Load\<close> logs through the default logger of \<open>slog\<close>, whose level is \<open>info\<close>: \<open>run\<close> installs its own only afterwards.  The
  messages are Russian in the code; the model has English words in their place.
\<close>

definition debug_record :: "string \<Rightarrow> (string \<times> log_value) list \<Rightarrow> log_record" where
  "debug_record msg attrs = \<lparr>lr_level = LevelDebug, lr_msg = msg, lr_attrs = attrs\<rparr>"

definition log_changed :: "string \<Rightarrow> string \<Rightarrow> string \<Rightarrow> log_record list" where
  "log_changed var before after =
     (if after \<noteq> before then [debug_record (''normalizing: '' @ var) [(''before'', LStr before), (''after'', LStr after)]] else [])"

definition trim_note :: "string \<Rightarrow> log_record" where
  "trim_note var = debug_record (''normalizing: '' @ var) [(''action'', LStr ''TrimSpace'')]"

definition log_trimmed :: "string \<Rightarrow> string \<Rightarrow> log_record list" where
  "log_trimmed var s = (if TrimSpace s \<noteq> s then [trim_note var] else [])"

definition normalize_log :: "config \<Rightarrow> log_record list" where
  "normalize_log c =
     (let p = c_Pachca c; m = c_Email c; dir = t_Dir (c_Template c)
      in log_changed ''LOG_LEVEL'' (c_LogLevel c) (lower_trim (c_LogLevel c))
         @ log_changed ''DATABASE_DRIVER'' (c_DatabaseDriver c) (lower_trim (c_DatabaseDriver c))
         @ log_trimmed ''DATABASE_DSN'' (c_DatabaseDSN c)
         @ log_trimmed ''PACHCA_BASE_URL'' (p_BaseURL p)
         @ log_changed ''PACHCA_BASE_URL'' (TrimSpace (p_BaseURL p)) (TrimRight (TrimSpace (p_BaseURL p)) ''/'')
         @ log_trimmed ''PACHCA_TOKEN'' (p_Token p)
         @ log_changed ''EMAIL_SMTP_HOST'' (m_SMTPHost m) (TrimSpace (m_SMTPHost m))
         @ log_changed ''EMAIL_FROM'' (m_From m) (TrimSpace (m_From m))
         @ concat (map (\<lambda>addr. log_changed ''EMAIL_TO'' addr (TrimSpace addr)) (m_To m))
         @ log_trimmed ''EMAIL_USERNAME'' (m_Username m)
         @ log_trimmed ''EMAIL_PASSWORD'' (m_Password m)
         @ log_changed ''EMAIL_TLS_MODE'' (m_TLSMode m) (lower_trim (m_TLSMode m))
         @ log_changed ''EMAIL_SUBJECT_PREFIX'' (m_SubjectPrefix m) (TrimSpace (m_SubjectPrefix m))
         @ log_changed ''TEMPLATE_DIR'' dir (TrimSpace dir))"

text \<open>
  \<open>validate\<close> logs twice: before it refuses a data source name for a dangerous sequence, which is the seventh check of
  \<open>validate_server\<close>, and when the TLS mode is \<open>none\<close>, after the check of that mode, which follows eight others and one
  for every recipient.
\<close>

definition validate_log :: "golib \<Rightarrow> config \<Rightarrow> log_record list" where
  "validate_log lib c =
     (let m = c_Email c;
          before_dsn = take 6 (validate_server lib c);
          before_tls = validate_server lib c @ validate_notify lib c
            @ (if p_Enabled (c_Pachca c) then [validatePachca lib (c_Pachca c)] else []) @ take (9 + length (m_To m)) (email_checks lib m)
      in (if first_error before_dsn = None
          then (case containsDangerousSequence (c_DatabaseDSN c) of
                  Some desc \<Rightarrow> [debug_record ''DATABASE_DSN contains a dangerous sequence'' [(''kind'', LStr desc)]]
                | None \<Rightarrow> [])
          else [])
         @ (if m_Enabled m \<and> first_error before_tls = None \<and> m_TLSMode m = ''none''
            then [\<lparr>lr_level = LevelWarn, lr_msg = ''EMAIL_TLS_MODE=none: SMTP traffic is not encrypted'', lr_attrs = []\<rparr>]
            else []))"

definition read_variables :: "golib \<Rightarrow> (string \<Rightarrow> string) \<Rightarrow> goerr + config" where
  "read_variables lib getenv =
     bindE (load_server lib getenv default_config) (\<lambda>c.
     bindE (load_pachca lib getenv c) (\<lambda>c.
     bindE (load_email lib getenv c) (load_template getenv)))"

definition load_log :: "golib \<Rightarrow> (string \<Rightarrow> string) \<Rightarrow> log_record list" where
  "load_log lib getenv =
     debug_record ''loading configuration from environment'' []
     # (case read_variables lib getenv of
          Inl err \<Rightarrow> []
        | Inr c \<Rightarrow>
            (let cfg = normalize c
             in normalize_log c @ validate_log lib cfg
                @ (case validate lib cfg of
                     Some err \<Rightarrow> []
                   | None \<Rightarrow> [debug_record ''configuration loaded'' [(''config'', LogValue lib cfg)]])))"

text \<open>\<open>Load\<close> is what follows the reading of the variables.\<close>

lemma Load_read:
  "Load lib getenv = bindE (read_variables lib getenv)
     (\<lambda>c. let cfg = normalize c in case validate lib cfg of Some err \<Rightarrow> Inl err | None \<Rightarrow> Inr cfg)"
proof -
  have "bindE (bindE x f) g = bindE x (\<lambda>a. bindE (f a) g)" for x :: "goerr + config" and f and g :: "config \<Rightarrow> goerr + config"
    by (cases x) simp_all
  then show ?thesis by (simp add: Load_def read_variables_def)
qed

text \<open>The places of the two checks in their lists.\<close>

lemma logging_checks:
  "validate_server lib c ! 6 = dangerous_check ''DATABASE_DSN'' (c_DatabaseDSN c)"
  "email_checks lib m ! (8 + length (m_To m))
     = guard (m_TLSMode m \<notin> set validTLSModes) (invalid [Lit ''EMAIL_TLS_MODE='', Quo (m_TLSMode m), Lit '' must be starttls/tls/none''])"
  by (simp_all add: validate_server_def email_checks_def nth_append)

section \<open>Secrets stay secret\<close>

text \<open>The notes that white space was cut off a secret.\<close>

definition secret_note :: "log_record \<Rightarrow> bool" where
  "secret_note r \<longleftrightarrow> r \<in> trim_note ` set secret_vars"

lemma log_trimmed_secret: "var \<in> set secret_vars \<Longrightarrow> filter (\<lambda>r. \<not> secret_note r) (log_trimmed var s) = []"
  by (simp add: log_trimmed_def secret_note_def)

lemma normalize_log_public:
  assumes "public c = public d"
  shows "filter (\<lambda>r. \<not> secret_note r) (normalize_log c) = filter (\<lambda>r. \<not> secret_note r) (normalize_log d)"
proof -
  have vars: "''DATABASE_DSN'' \<in> set secret_vars" "''PACHCA_TOKEN'' \<in> set secret_vars" "''EMAIL_PASSWORD'' \<in> set secret_vars"
    by (simp_all add: secret_vars_def)
  show ?thesis
    unfolding normalize_log_def Let_def public_fields [OF assms] filter_append vars [THEN log_trimmed_secret] by (rule refl)
qed

lemma normalize_log_debug: "r \<in> set (normalize_log c) \<Longrightarrow> lr_level r = LevelDebug"
  by (auto simp: normalize_log_def Let_def log_changed_def log_trimmed_def trim_note_def debug_record_def split: if_splits)

text \<open>C14: Neither an error nor a log line gives a secret away.  Take two environments that agree on everything but the
  secrets (the data source name, the Pachca token and the SMTP password), and whose secrets, white space cut off, are equally long and
  fail the same of the checks for control characters, for printable ASCII and for dangerous sequences; nothing else is assumed
  of them.  Then \<open>Load\<close> gives the same error, or two configurations that log as the same value, with which \<open>run\<close> starts its
  log the same way; the records \<open>Load\<close> makes on the way differ at most in the notes that white space was cut off a
  secret; and the default logger, which leaves out debug records, writes the same.\<close>

theorem secrets_not_revealed:
  assumes "same_public env1 env2"
  shows "rel_sum (=) (\<lambda>c d. LogValue lib c = LogValue lib d \<and> start_log lib c out = start_log lib d out) (Load lib env1) (Load lib env2)
    \<and> filter (\<lambda>r. \<not> secret_note r) (load_log lib env1) = filter (\<lambda>r. \<not> secret_note r) (load_log lib env2)
    \<and> fold write_log (load_log lib env1) (NewLogger LevelInfo out) = fold write_log (load_log lib env2) (NewLogger LevelInfo out)"
proof -
  have read: "alike_results (read_variables lib env1) (read_variables lib env2)"
    unfolding read_variables_def
    by (intro alike_bindE alike_server [OF assms] alike_pachca [OF assms] alike_email [OF assms] alike_template [OF assms] alike_refl)
  have both: "validate lib (normalize c) = validate lib (normalize d) \<and> LogValue lib (normalize c) = LogValue lib (normalize d)
      \<and> start_log lib (normalize c) out = start_log lib (normalize d) out
      \<and> validate_log lib (normalize c) = validate_log lib (normalize d)
      \<and> filter (\<lambda>r. \<not> secret_note r) (normalize_log c) = filter (\<lambda>r. \<not> secret_note r) (normalize_log d)"
    if "alike c d" for c d
  proof -
    note a = alike_normalize [OF that]
    note checks = checks_public [OF a]
    note f = public_fields [OF a(1)]
    have desc: "containsDangerousSequence (c_DatabaseDSN (normalize c)) = containsDangerousSequence (c_DatabaseDSN (normalize d))"
      using a(2) by (simp add: same_shape_def)
    have "validate_log lib (normalize c) = validate_log lib (normalize d)"
      unfolding validate_log_def Let_def checks f desc by (rule refl)
    moreover have "start_log lib (normalize c) out = start_log lib (normalize d) out"
      unfolding start_log_def SlogLevel_def start_record_def f LogValue_public [OF a(1)] by (rule refl)
    ultimately show ?thesis
      using checks(5) LogValue_public [OF a(1)] normalize_log_public [of c d] that by (simp add: alike_def)
  qed
  have res: "rel_sum (=) (\<lambda>c d. LogValue lib c = LogValue lib d \<and> start_log lib c out = start_log lib d out) (Load lib env1) (Load lib env2)"
    unfolding Load_read by (intro alike_bindE [OF read]) (use both in \<open>auto simp: Let_def split: option.split\<close>)
  have logs: "filter (\<lambda>r. \<not> secret_note r) (load_log lib env1) = filter (\<lambda>r. \<not> secret_note r) (load_log lib env2)"
    using read both by (cases "read_variables lib env1"; cases "read_variables lib env2") (simp_all add: load_log_def Let_def split: option.split)
  have "\<not> secret_note r" if "LevelInfo \<le> lr_level r" for r
    using that by (auto simp: secret_note_def trim_note_def debug_record_def less_eq_slog_level_def)
  then have "filter (\<lambda>r. LevelInfo \<le> lr_level r) (filter (\<lambda>r. \<not> secret_note r) rs) = filter (\<lambda>r. LevelInfo \<le> lr_level r) rs" for rs
    by (induction rs) auto
  with logs have "filter (\<lambda>r. LevelInfo \<le> lr_level r) (load_log lib env1) = filter (\<lambda>r. LevelInfo \<le> lr_level r) (load_log lib env2)"
    by metis
  with res logs show ?thesis by (simp add: log_records)
qed

theorem secrets_not_revealed_witness:
  "rel_sum (=) (\<lambda>c d. LogValue demo_lib c = LogValue demo_lib d \<and> start_log demo_lib c [] = start_log demo_lib d [])
     (Load demo_lib (\<lambda>v. if v = ''PACHCA_TOKEN'' then ''abc'' else []))
     (Load demo_lib (\<lambda>v. if v = ''PACHCA_TOKEN'' then ''xyz'' else []))"
proof -
  have "same_shape (TrimSpace ''abc'') (TrimSpace ''xyz'')" by (simp add: same_shape_def) code_simp
  then have "same_public (\<lambda>v. if v = ''PACHCA_TOKEN'' then ''abc'' else []) (\<lambda>v. if v = ''PACHCA_TOKEN'' then ''xyz'' else [])"
    by (simp add: same_public_def secret_vars_def)
  from secrets_not_revealed [OF this, of demo_lib "[]"] show ?thesis by (rule conjunct1)
qed

end
